(* ===== verification/Prelude.thy ===== *)
theory Prelude
  imports Complex_Main "HOL-Library.Word" "HOL-Library.AList" "HOL-Library.Multiset"
begin

text \<open>
  Shared vocabulary of the development: clock readings and durations, Go's integer
  remainder and quotient, the functions of package \<^verbatim>\<open>strings\<close> the sources call, Go maps as
  association lists, and the interface of a component that processes a sequence of
  events while keeping an invariant.

  Conventions. A clock reading (\<^verbatim>\<open>time.Time\<close>) and a \<^verbatim>\<open>time.Duration\<close> are integers counting
  nanoseconds; every \<^verbatim>\<open>time.Now()\<close> of the code is an argument of the definition that
  models the caller. Go's \<^verbatim>\<open>float64\<close> is a real number (rounding is not modelled). A
  Go string is its list of bytes. Counters that are only statistics are integers
  without a width; counters whose wrap-around decides the behaviour are words.
\<close>

section \<open>Collections of facts\<close>

named_theorems go_defs \<open>definitions of the Go primitives, for evaluation\<close>
named_theorems inv_intros \<open>preservation lemmas, one per operation\<close>

section \<open>Time\<close>

type_synonym time = int
type_synonym duration = int

abbreviation Millisecond :: duration where "Millisecond \<equiv> 1000000"
abbreviation Second :: duration where "Second \<equiv> 1000000000"
abbreviation Minute :: duration where "Minute \<equiv> 60000000000"

definition Seconds :: "duration \<Rightarrow> real" where
  "Seconds d = real_of_int d / 1000000000"

lemma Seconds_nonneg [simp]: "0 \<le> d \<Longrightarrow> 0 \<le> Seconds d"
  by (simp add: Seconds_def)

lemma Seconds_add: "Seconds (a + b) = Seconds a + Seconds b"
  by (simp add: Seconds_def add_divide_distrib)

lemma Seconds_diff: "Seconds (a - b) = Seconds a - Seconds b"
  by (simp add: Seconds_def diff_divide_distrib)

lemma Seconds_zero [simp]: "Seconds 0 = 0"
  by (simp add: Seconds_def)

section \<open>Failures of the Go runtime\<close>

datatype go_panic = IndexOutOfRange | SliceOutOfRange | NilDereference | DivideByZero | SendOnClosed | CloseOfClosed

section \<open>Integer division\<close>

text \<open>Go truncates the quotient towards zero; the remainder has the sign of the dividend.\<close>

definition go_rem :: "int \<Rightarrow> int \<Rightarrow> int" where
  [go_defs]: "go_rem a b = sgn a * (\<bar>a\<bar> mod \<bar>b\<bar>)"

definition go_quot :: "int \<Rightarrow> int \<Rightarrow> int" where
  [go_defs]: "go_quot a b = sgn a * sgn b * (\<bar>a\<bar> div \<bar>b\<bar>)"

lemma go_rem_nonneg [simp]: "0 \<le> a \<Longrightarrow> 0 < b \<Longrightarrow> go_rem a b = a mod b"
  by (cases "a = 0") (simp_all add: go_rem_def)

lemma go_quot_nonneg [simp]: "0 \<le> a \<Longrightarrow> 0 < b \<Longrightarrow> go_quot a b = a div b"
  by (cases "a = 0") (simp_all add: go_quot_def)

lemma go_rem_quot: "b \<noteq> 0 \<Longrightarrow> go_quot a b * b + go_rem a b = a"
proof -
  have e: "go_quot a b * b + go_rem a b = sgn a * (\<bar>a\<bar> div \<bar>b\<bar> * \<bar>b\<bar> + \<bar>a\<bar> mod \<bar>b\<bar>)"
    by (simp add: go_quot_def go_rem_def algebra_simps abs_sgn [of b])
  show ?thesis by (simp only: e div_mult_mod_eq) (simp add: sgn_mult_abs)
qed

text \<open>Conversion of a \<^verbatim>\<open>float64\<close> to an integer type truncates towards zero.\<close>

definition go_trunc :: "real \<Rightarrow> int" where
  "go_trunc x = (if 0 \<le> x then \<lfloor>x\<rfloor> else \<lceil>x\<rceil>)"

lemma go_trunc_bounds: "0 \<le> x \<Longrightarrow> x \<le> y \<Longrightarrow> 0 \<le> go_trunc x \<and> real_of_int (go_trunc x) \<le> y"
  by (simp add: go_trunc_def) linarith

lemma go_trunc_mono: "x \<le> y \<Longrightarrow> go_trunc x \<le> go_trunc y"
  by (auto simp: go_trunc_def floor_mono ceiling_mono intro: order_trans [of _ 0])

lemma go_trunc_of_int [simp]: "go_trunc (real_of_int n) = n"
  by (simp add: go_trunc_def)

section \<open>Strings\<close>

definition HasPrefix :: "string \<Rightarrow> string \<Rightarrow> bool" where
  [go_defs]: "HasPrefix s p \<longleftrightarrow> length p \<le> length s \<and> take (length p) s = p"

definition HasSuffix :: "string \<Rightarrow> string \<Rightarrow> bool" where
  [go_defs]: "HasSuffix s p \<longleftrightarrow> length p \<le> length s \<and> drop (length s - length p) s = p"

definition TrimPrefix :: "string \<Rightarrow> string \<Rightarrow> string" where
  [go_defs]: "TrimPrefix s p = (if HasPrefix s p then drop (length p) s else s)"

lemma HasPrefix_iff: "HasPrefix s p \<longleftrightarrow> (\<exists>r. s = p @ r)"
proof
  assume "HasPrefix s p"
  then have "s = p @ drop (length p) s"
    by (metis HasPrefix_def append_take_drop_id)
  then show "\<exists>r. s = p @ r" ..
qed (auto simp: HasPrefix_def)

lemma HasSuffix_iff: "HasSuffix s p \<longleftrightarrow> (\<exists>r. s = r @ p)"
proof
  assume "HasSuffix s p"
  then have "s = take (length s - length p) s @ p"
    by (metis HasSuffix_def append_take_drop_id)
  then show "\<exists>r. s = r @ p" ..
qed (auto simp: HasSuffix_def)

lemma HasPrefix_self_append [simp]: "HasPrefix (p @ r) p"
  by (auto simp: HasPrefix_iff)

lemma HasSuffix_self_append [simp]: "HasSuffix (r @ p) p"
  by (auto simp: HasSuffix_iff)

lemma TrimPrefix_append [simp]: "TrimPrefix (p @ r) p = r"
  by (simp add: TrimPrefix_def)

text \<open>\<^verbatim>\<open>strings.Index(s, sub)\<close>, with \<open>None\<close> for -1, and the functions built on it.\<close>

fun Index :: "string \<Rightarrow> string \<Rightarrow> nat option" where
  "Index s sub =
     (if HasPrefix s sub then Some 0
      else case s of [] \<Rightarrow> None | c # cs \<Rightarrow> map_option Suc (Index cs sub))"

declare Index.simps [simp del]

lemma Index_Nil: "Index [] sub = (if sub = [] then Some 0 else None)"
  by (subst Index.simps) (auto simp: HasPrefix_def)

lemma Index_Cons:
  "Index (c # cs) sub = (if HasPrefix (c # cs) sub then Some 0 else map_option Suc (Index cs sub))"
  by (subst Index.simps) simp

lemmas Index_unfold [go_defs] = Index_Nil Index_Cons

lemma Index_Some: "Index s sub = Some i \<Longrightarrow> i \<le> length s \<and> HasPrefix (drop i s) sub"
proof (induction s arbitrary: i)
  case Nil
  then show ?case by (auto simp: Index_Nil HasPrefix_def split: if_splits)
next
  case (Cons c cs)
  then show ?case by (fastforce simp: Index_Cons split: if_splits)
qed

lemma Index_None: "Index s sub = None \<Longrightarrow> i \<le> length s \<Longrightarrow> \<not> HasPrefix (drop i s) sub"
proof (induction s arbitrary: i)
  case Nil
  then show ?case by (auto simp: Index_Nil HasPrefix_def split: if_splits)
next
  case (Cons c cs)
  then show ?case by (cases i) (auto simp: Index_Cons split: if_splits)
qed

lemma Index_least: "Index s sub = Some i \<Longrightarrow> j < i \<Longrightarrow> \<not> HasPrefix (drop j s) sub"
proof (induction s arbitrary: i j)
  case Nil
  then show ?case by (auto simp: Index_Nil split: if_splits)
next
  case (Cons c cs)
  then show ?case by (cases j) (auto simp: Index_Cons split: if_splits)
qed

definition Contains :: "string \<Rightarrow> string \<Rightarrow> bool" where
  [go_defs]: "Contains s sub \<longleftrightarrow> Index s sub \<noteq> None"

definition Replace1 :: "string \<Rightarrow> string \<Rightarrow> string \<Rightarrow> string" where
  \<comment> \<open>\<^verbatim>\<open>strings.Replace(s, old, new, 1)\<close>\<close>
  [go_defs]: "Replace1 s old new =
     (case Index s old of None \<Rightarrow> s
      | Some i \<Rightarrow> take i s @ new @ drop (i + length old) s)"

lemma Replace1_prefix: "Replace1 (old @ r) old new = new @ r"
proof -
  have "Index (old @ r) old = Some 0"
    by (subst Index.simps) simp
  then show ?thesis by (simp add: Replace1_def)
qed

fun Split :: "string \<Rightarrow> char \<Rightarrow> string list" where
  \<comment> \<open>\<^verbatim>\<open>strings.Split(s, sep)\<close> for a separator of one byte\<close>
  "Split [] sep = [[]]"
| "Split (c # cs) sep =
     (if c = sep then [] # Split cs sep
      else case Split cs sep of [] \<Rightarrow> [[c]] | w # ws \<Rightarrow> (c # w) # ws)"

lemma Split_not_Nil [simp]: "Split s sep \<noteq> []"
  by (induction s) (auto split: list.splits)

lemma Split_no_sep: "sep \<notin> set s \<Longrightarrow> Split s sep = [s]"
  by (induction s) auto

text \<open>
  \<^verbatim>\<open>net.SplitHostPort\<close>: the host and the port of \<open>host:port\<close>, \<open>[host]:port\<close>; \<open>None\<close> for an
  error. \<open>last_index\<close> and \<open>first_index\<close> are \<^verbatim>\<open>LastIndexByte\<close> and \<^verbatim>\<open>IndexByte\<close>.
\<close>

fun first_index :: "char \<Rightarrow> string \<Rightarrow> nat option" where
  "first_index c [] = None"
| "first_index c (x # xs) = (if x = c then Some 0 else map_option Suc (first_index c xs))"

definition last_index :: "char \<Rightarrow> string \<Rightarrow> nat option" where
  [go_defs]: "last_index c s = map_option (\<lambda>i. length s - 1 - i) (first_index c (rev s))"

definition SplitHostPort :: "string \<Rightarrow> (string \<times> string) option" where
  [go_defs]: "SplitHostPort hostport =
     (case last_index CHR '':'' hostport of
        None \<Rightarrow> None
      | Some i \<Rightarrow>
          (if hostport ! 0 = CHR ''['' then
             (case first_index CHR '']'' hostport of
                None \<Rightarrow> None
              | Some end' \<Rightarrow>
                  if end' + 1 \<noteq> i then None
                  else if CHR ''['' \<in> set (drop 1 hostport) \<or> CHR '']'' \<in> set (drop (end' + 1) hostport) then None
                  else Some (drop 1 (take end' hostport), drop (i + 1) hostport))
           else
             let host = take i hostport in
             if CHR '':'' \<in> set host then None
             else if CHR ''['' \<in> set hostport \<or> CHR '']'' \<in> set hostport then None
             else Some (host, drop (i + 1) hostport)))"

lemma first_index_None: "first_index c s = None \<longleftrightarrow> c \<notin> set s"
  by (induction s) auto

lemma first_index_append: "c \<notin> set xs \<Longrightarrow> first_index c (xs @ c # ys) = Some (length xs)"
  by (induction xs) auto

lemma last_index_append: "c \<notin> set ys \<Longrightarrow> last_index c (xs @ c # ys) = Some (length xs)"
  using first_index_append [of c "rev ys" "rev xs"] by (simp add: last_index_def)

text \<open>The round trip with \<^verbatim>\<open>host:port\<close> for a host without colons or brackets.\<close>

lemma SplitHostPort_plain:
  assumes "set host \<inter> {CHR '':'', CHR ''['', CHR '']''} = {}" and "set port \<inter> {CHR '':'', CHR ''['', CHR '']''} = {}"
  shows "SplitHostPort (host @ '':'' @ port) = Some (host, port)"
proof -
  have i: "last_index CHR '':'' (host @ '':'' @ port) = Some (length host)"
    using assms(2) by (simp add: last_index_append)
  have "(host @ '':'' @ port) ! 0 \<noteq> CHR ''[''"
    using assms(1) by (cases host) auto
  with assms i show ?thesis by (auto simp: SplitHostPort_def)
qed

text \<open>ASCII white space and lower case; strings with other code points are outside the model.\<close>

definition is_space :: "char \<Rightarrow> bool" where
  [go_defs]: "is_space c \<longleftrightarrow> c \<in> {CHR '' '', CHR 0x09, CHR 0x0A, CHR 0x0B, CHR 0x0C, CHR 0x0D}"

definition TrimSpace :: "string \<Rightarrow> string" where
  [go_defs]: "TrimSpace s = rev (dropWhile is_space (rev (dropWhile is_space s)))"

definition lower_char :: "char \<Rightarrow> char" where
  [go_defs]: "lower_char c =
     (if 65 \<le> (of_char c :: nat) \<and> (of_char c :: nat) \<le> 90
      then char_of ((of_char c :: nat) + 32) else c)"

definition upper_char :: "char \<Rightarrow> char" where
  [go_defs]: "upper_char c =
     (if 97 \<le> (of_char c :: nat) \<and> (of_char c :: nat) \<le> 122
      then char_of ((of_char c :: nat) - 32) else c)"

definition ToLower :: "string \<Rightarrow> string" where
  [go_defs]: "ToLower s = map lower_char s"

text \<open>Decimal notation, as \<^verbatim>\<open>%d\<close> prints a non-negative number.\<close>

fun show_nat :: "nat \<Rightarrow> string" where
  "show_nat n =
     (if n < 10 then [char_of (48 + n)] else show_nat (n div 10) @ [char_of (48 + n mod 10)])"

declare show_nat.simps [simp del]

lemma show_nat_not_Nil [simp]: "show_nat n \<noteq> []"
  by (subst show_nat.simps) simp

definition show_int :: "int \<Rightarrow> string" where
  [go_defs]: "show_int n = (if n < 0 then CHR ''-'' # show_nat (nat (- n)) else show_nat (nat n))"

lemma show_int_not_Nil [simp]: "show_int n \<noteq> []"
  by (simp add: show_int_def)

section \<open>Go maps\<close>

text \<open>
  A Go map whose size or iteration matters is an association list with distinct keys; the
  order of the list stands for one iteration order.
\<close>

type_synonym ('k, 'v) gomap = "('k \<times> 'v) list"

definition gm_wf :: "('k, 'v) gomap \<Rightarrow> bool" where
  "gm_wf m \<longleftrightarrow> distinct (map fst m)"

definition gm_get :: "('k, 'v) gomap \<Rightarrow> 'k \<Rightarrow> 'v option" where
  [go_defs]: "gm_get m k = map_of m k"

definition gm_set :: "'k \<Rightarrow> 'v \<Rightarrow> ('k, 'v) gomap \<Rightarrow> ('k, 'v) gomap" where
  [go_defs]: "gm_set k v m = AList.update k v m"

definition gm_del :: "'k \<Rightarrow> ('k, 'v) gomap \<Rightarrow> ('k, 'v) gomap" where
  [go_defs]: "gm_del k m = filter (\<lambda>e. fst e \<noteq> k) m"

definition gm_filter :: "('k \<Rightarrow> 'v \<Rightarrow> bool) \<Rightarrow> ('k, 'v) gomap \<Rightarrow> ('k, 'v) gomap" where
  [go_defs]: "gm_filter P m = filter (\<lambda>e. P (fst e) (snd e)) m"

lemma gm_wf_empty [simp]: "gm_wf []"
  by (simp add: gm_wf_def)

lemma gm_wf_set [simp]: "gm_wf m \<Longrightarrow> gm_wf (gm_set k v m)"
  by (simp add: gm_wf_def gm_set_def distinct_update)

lemma gm_wf_filter [simp]: "gm_wf m \<Longrightarrow> gm_wf (gm_filter P m)"
  by (simp add: gm_wf_def gm_filter_def distinct_map_filter)

lemma gm_wf_del [simp]: "gm_wf m \<Longrightarrow> gm_wf (gm_del k m)"
  by (simp add: gm_wf_def gm_del_def distinct_map_filter)

lemma gm_get_empty [simp]: "gm_get [] k = None"
  by (simp add: gm_get_def)

lemma gm_get_set: "gm_get (gm_set k v m) k' = (if k' = k then Some v else gm_get m k')"
  by (simp add: gm_get_def gm_set_def update_conv')

lemma gm_get_del: "gm_get (gm_del k m) k' = (if k' = k then None else gm_get m k')"
  by (induction m) (auto simp: gm_get_def gm_del_def)

lemmas gm_get_simps [simp] = gm_get_set gm_get_del

lemma gm_get_Some_in: "gm_get m k = Some v \<Longrightarrow> (k, v) \<in> set m"
  by (simp add: gm_get_def map_of_SomeD)

lemma gm_get_iff: "gm_wf m \<Longrightarrow> gm_get m k = Some v \<longleftrightarrow> (k, v) \<in> set m"
  by (auto simp: gm_get_def gm_wf_def)

lemma gm_get_None_iff: "gm_get m k = None \<longleftrightarrow> k \<notin> fst ` set m"
  by (simp add: gm_get_def map_of_eq_None_iff)

lemma gm_get_filter:
  "gm_wf m \<Longrightarrow> gm_get (gm_filter P m) k =
     (case gm_get m k of None \<Rightarrow> None | Some v \<Rightarrow> if P k v then Some v else None)"
  by (induction m) (auto simp: gm_get_def gm_filter_def gm_wf_def map_of_eq_None_iff split: option.splits)

lemma gm_set_new: "gm_get m k = None \<Longrightarrow> gm_set k v m = m @ [(k, v)]"
  by (induction m) (auto simp: gm_get_def gm_set_def split: if_splits)

lemma fst_set_gm_set: "fst ` set (gm_set k v m) = insert k (fst ` set m)"
  by (metis dom_map_of_conv_image_fst dom_fun_upd gm_set_def option.distinct(1) update_conv')

text \<open>Summing a weight over the entries: what setting and deleting an entry do to the sum.\<close>

definition gm_sum :: "('v \<Rightarrow> int) \<Rightarrow> ('k, 'v) gomap \<Rightarrow> int" where
  "gm_sum f m = sum_list (map (\<lambda>e. f (snd e)) m)"

lemma gm_sum_empty [simp]: "gm_sum f [] = 0"
  by (simp add: gm_sum_def)

lemma gm_sum_set:
  "gm_sum f (gm_set k v m) = gm_sum f m + f v - (case gm_get m k of None \<Rightarrow> 0 | Some w \<Rightarrow> f w)"
  by (induction m) (auto simp: gm_sum_def gm_set_def gm_get_def split: option.splits)

lemma gm_del_absent: "k \<notin> fst ` set m \<Longrightarrow> gm_del k m = m"
  by (auto simp: gm_del_def filter_id_conv)

lemma gm_sum_del:
  "gm_wf m \<Longrightarrow> gm_sum f (gm_del k m) = gm_sum f m - (case gm_get m k of None \<Rightarrow> 0 | Some w \<Rightarrow> f w)"
proof (induction m)
  case (Cons e m)
  obtain j w where e: "e = (j, w)" by fastforce
  show ?case
  proof (cases "j = k")
    case True
    with Cons.prems e have "gm_del k (e # m) = m"
      by (auto simp: gm_wf_def gm_del_def filter_id_conv image_iff)
    with True e show ?thesis by (simp add: gm_sum_def gm_get_def)
  next
    case False
    with Cons e show ?thesis
      by (simp add: gm_wf_def gm_sum_def gm_del_def gm_get_def)
  qed
qed (simp add: gm_sum_def gm_del_def gm_get_def)

section \<open>Lists\<close>

lemma length_filter_mono:
  "(\<And>x. x \<in> set xs \<Longrightarrow> P x \<Longrightarrow> Q x) \<Longrightarrow> length (filter P xs) \<le> length (filter Q xs)"
  by (induction xs) auto

lemma sorted_le_last:
  fixes x :: "'a::linorder"
  shows "sorted xs \<Longrightarrow> x \<in> set xs \<Longrightarrow> x \<le> last xs"
  by (induction xs) auto

lemma filter_eq_single: "distinct xs \<Longrightarrow> x \<in> set xs \<Longrightarrow> filter (\<lambda>y. y = x) xs = [x]"
  by (induction xs) (auto simp: filter_empty_conv)

lemma map_of_map_Pair: "x \<in> set xs \<Longrightarrow> map_of (map (\<lambda>x. (x, f x)) xs) x = Some (f x)"
  by (induction xs) auto

lemma count_list_rotate: "count_list (rotate n xs) x = count_list xs x"
proof -
  have "count_list (take k xs) x + count_list (drop k xs) x = count_list xs x" for k
    by (metis append_take_drop_id count_list_append)
  then show ?thesis by (simp add: rotate_drop_take add.commute)
qed

lemma sorted_filter_drop:
  fixes c :: "'a::linorder"
  assumes "sorted xs"
  shows "filter (\<lambda>t. c < t) xs = drop (length (filter (\<lambda>t. t \<le> c) xs)) xs"
  using assms
proof (induction xs)
  case (Cons x xs)
  show ?case
  proof (cases "x \<le> c")
    case True
    with Cons show ?thesis by auto
  next
    case False
    with Cons.prems have "\<forall>t\<in>set (x # xs). c < t" by auto
    then have "filter (\<lambda>t. c < t) (x # xs) = x # xs" "filter (\<lambda>t. t \<le> c) (x # xs) = []"
      by (auto simp: filter_id_conv filter_empty_conv)
    then show ?thesis by simp
  qed
qed simp

section \<open>Components that process events\<close>

text \<open>
  The interface of a component driven by a sequence of calls: one step per call, and an
  invariant each call keeps. Every stateful component of the development instantiates it
  with its own operations; what is proved here once is that the invariant then holds after
  any sequence of calls, and that a quantity no call increases never increases.
\<close>

fun run :: "('s \<Rightarrow> 'e \<Rightarrow> 's) \<Rightarrow> 's \<Rightarrow> 'e list \<Rightarrow> 's" where
  "run f s [] = s"
| "run f s (e # es) = run f (f s e) es"

lemma run_append [simp]: "run f s (es @ fs) = run f (run f s es) fs"
  by (induction es arbitrary: s) auto

locale event_component =
  fixes step :: "'s \<Rightarrow> 'e \<Rightarrow> 's"
    and inv :: "'s \<Rightarrow> bool"
  assumes step_inv: "inv s \<Longrightarrow> inv (step s e)"
begin

lemma run_inv: "inv s \<Longrightarrow> inv (run step s es)"
  by (induction es arbitrary: s) (auto intro: step_inv)

lemma run_prefix_inv: "inv s \<Longrightarrow> inv (run step s (take n es))"
  by (rule run_inv)

lemma run_const:
  assumes "inv s" and "\<And>s e. inv s \<Longrightarrow> m (step s e) = m s"
  shows "m (run step s es) = m s"
  using assms(1) by (induction es arbitrary: s) (auto simp: assms(2) step_inv)

lemma run_mono:
  fixes m :: "'s \<Rightarrow> 'a::order"
  assumes "inv s" and "\<And>s e. inv s \<Longrightarrow> m s \<le> m (step s e)"
  shows "m s \<le> m (run step s es)"
  using assms(1)
proof (induction es arbitrary: s)
  case (Cons e es)
  from Cons.prems have "inv (step s e)" by (rule step_inv)
  then have "m (step s e) \<le> m (run step (step s e) es)" by (rule Cons.IH)
  with assms(2) [OF Cons.prems, of e] show ?case by simp
qed simp

end

end
