(* ===== verification/Backends.thy ===== *)
theory Backends
  imports Prelude
begin

text \<open>
  Package \<^verbatim>\<open>pkg/backend\<close>, files \<^verbatim>\<open>backend.go\<close> and \<^verbatim>\<open>pool.go\<close>. Backends are shared by
  pointer between the pool, the balancers, the sessions, the state machines and the proxy,
  so they live in an explicit store: a reference is a number and the store maps it to the
  backend's fields. A pool is the list of its references in the order they were added.
\<close>

section \<open>Backend (backend.go)\<close>

type_synonym bref = nat

record backend =
  b_name :: string
  b_address :: string
  b_weight :: int
  b_activeConnections :: int
  b_healthy :: bool

type_synonym bstore = "bref \<Rightarrow> backend"

definition NewBackend :: "string \<Rightarrow> string \<Rightarrow> int \<Rightarrow> backend" where
  "NewBackend name address weight =
     \<lparr>b_name = name, b_address = address, b_weight = weight,
      b_activeConnections = 0, b_healthy = True\<rparr>"

definition MarkHealthy :: "bref \<Rightarrow> bstore \<Rightarrow> bstore" where
  "MarkHealthy b h = h(b := (h b)\<lparr>b_healthy := True\<rparr>)"

definition MarkUnhealthy :: "bref \<Rightarrow> bstore \<Rightarrow> bstore" where
  "MarkUnhealthy b h = h(b := (h b)\<lparr>b_healthy := False\<rparr>)"

definition IncrementConnections :: "bref \<Rightarrow> bstore \<Rightarrow> bstore" where
  "IncrementConnections b h = h(b := (h b)\<lparr>b_activeConnections := b_activeConnections (h b) + 1\<rparr>)"

definition DecrementConnections :: "bref \<Rightarrow> bstore \<Rightarrow> bstore" where
  "DecrementConnections b h = h(b := (h b)\<lparr>b_activeConnections := b_activeConnections (h b) - 1\<rparr>)"

lemmas backend_ops_defs = MarkHealthy_def MarkUnhealthy_def
  IncrementConnections_def DecrementConnections_def

lemma backend_ops_name [simp]:
  "b_name (MarkHealthy b h x) = b_name (h x)"
  "b_name (MarkUnhealthy b h x) = b_name (h x)"
  "b_name (IncrementConnections b h x) = b_name (h x)"
  "b_name (DecrementConnections b h x) = b_name (h x)"
  by (simp_all add: backend_ops_defs)

lemma backend_ops_healthy [simp]:
  "b_healthy (MarkHealthy b h x) \<longleftrightarrow> x = b \<or> b_healthy (h x)"
  "b_healthy (MarkUnhealthy b h x) \<longleftrightarrow> x \<noteq> b \<and> b_healthy (h x)"
  "b_healthy (IncrementConnections b h x) = b_healthy (h x)"
  "b_healthy (DecrementConnections b h x) = b_healthy (h x)"
  by (simp_all add: backend_ops_defs)

lemma backend_ops_address [simp]:
  "b_address (MarkHealthy b h x) = b_address (h x)"
  "b_address (MarkUnhealthy b h x) = b_address (h x)"
  "b_address (IncrementConnections b h x) = b_address (h x)"
  "b_address (DecrementConnections b h x) = b_address (h x)"
  by (simp_all add: backend_ops_defs)

lemma backend_ops_weight [simp]:
  "b_weight (MarkHealthy b h x) = b_weight (h x)"
  "b_weight (MarkUnhealthy b h x) = b_weight (h x)"
  "b_weight (IncrementConnections b h x) = b_weight (h x)"
  "b_weight (DecrementConnections b h x) = b_weight (h x)"
  by (simp_all add: backend_ops_defs)

lemma backend_ops_connections [simp]:
  "b_activeConnections (MarkHealthy b h x) = b_activeConnections (h x)"
  "b_activeConnections (MarkUnhealthy b h x) = b_activeConnections (h x)"
  "b_activeConnections (IncrementConnections b h x) =
     b_activeConnections (h x) + (if x = b then 1 else 0)"
  "b_activeConnections (DecrementConnections b h x) =
     b_activeConnections (h x) - (if x = b then 1 else 0)"
  by (simp_all add: backend_ops_defs)

section \<open>Pool (pool.go)\<close>

record pool =
  p_backends :: "bref list"

definition NewPool :: pool where
  "NewPool = \<lparr>p_backends = []\<rparr>"

definition Pool_Add :: "bref \<Rightarrow> pool \<Rightarrow> pool" where
  "Pool_Add b p = p\<lparr>p_backends := p_backends p @ [b]\<rparr>"

text \<open>The loop of \<^verbatim>\<open>Remove\<close>: the first backend with the name is cut out of the slice.\<close>

fun remove_first :: "bstore \<Rightarrow> string \<Rightarrow> bref list \<Rightarrow> bref list option" where
  "remove_first h name [] = None"
| "remove_first h name (b # bs) =
     (if b_name (h b) = name then Some bs else map_option ((#) b) (remove_first h name bs))"

definition Pool_Remove :: "bstore \<Rightarrow> string \<Rightarrow> pool \<Rightarrow> bool \<times> pool" where
  "Pool_Remove h name p =
     (case remove_first h name (p_backends p) of
        Some bs \<Rightarrow> (True, p\<lparr>p_backends := bs\<rparr>)
      | None \<Rightarrow> (False, p))"

definition Pool_Get :: "bstore \<Rightarrow> pool \<Rightarrow> string \<Rightarrow> bref option" where
  "Pool_Get h p name = find (\<lambda>b. b_name (h b) = name) (p_backends p)"

definition Pool_GetByName :: "bstore \<Rightarrow> pool \<Rightarrow> string \<Rightarrow> bref option" where
  "Pool_GetByName h p name = Pool_Get h p name"

definition Pool_All :: "pool \<Rightarrow> bref list" where
  "Pool_All p = p_backends p"

definition Pool_Healthy :: "bstore \<Rightarrow> pool \<Rightarrow> bref list" where
  "Pool_Healthy h p = filter (\<lambda>b. b_healthy (h b)) (p_backends p)"

definition Pool_Size :: "pool \<Rightarrow> nat" where
  "Pool_Size p = length (p_backends p)"

primrec count_healthy :: "bstore \<Rightarrow> bref list \<Rightarrow> nat \<Rightarrow> nat" where
  "count_healthy h [] n = n"
| "count_healthy h (b # bs) n =
     count_healthy h bs (if b_healthy (h b) then n + 1 else n)"

definition Pool_HealthySize :: "bstore \<Rightarrow> pool \<Rightarrow> nat" where
  "Pool_HealthySize h p = count_healthy h (p_backends p) 0"

subsection \<open>Facts about single operations\<close>

lemma Pool_Add_backends [simp]: "p_backends (Pool_Add b p) = p_backends p @ [b]"
  by (simp add: Pool_Add_def)

lemma set_Pool_Healthy [simp]:
  "b \<in> set (Pool_Healthy h p) \<longleftrightarrow> b \<in> set (p_backends p) \<and> b_healthy (h b)"
  by (auto simp: Pool_Healthy_def)

lemma Pool_Healthy_connections [simp]:
  "Pool_Healthy (IncrementConnections b h) p = Pool_Healthy h p"
  "Pool_Healthy (DecrementConnections b h) p = Pool_Healthy h p"
  by (simp_all add: Pool_Healthy_def)

lemma Pool_Healthy_MarkUnhealthy:
  "Pool_Healthy (MarkUnhealthy b h) p = filter (\<lambda>x. x \<noteq> b) (Pool_Healthy h p)"
  by (auto simp: Pool_Healthy_def intro: filter_cong)

lemma count_healthy_eq: "count_healthy h bs n = n + length (filter (\<lambda>b. b_healthy (h b)) bs)"
  by (induction bs arbitrary: n) auto

lemma Pool_Get_Some:
  "Pool_Get h p name = Some b \<Longrightarrow> b \<in> set (p_backends p) \<and> b_name (h b) = name"
  by (auto simp: Pool_Get_def find_Some_iff)

lemma Pool_Get_None:
  "Pool_Get h p name = None \<longleftrightarrow> (\<forall>b \<in> set (p_backends p). b_name (h b) \<noteq> name)"
  by (auto simp: Pool_Get_def find_None_iff)

lemma remove_first_None:
  "remove_first h name bs = None \<longleftrightarrow> (\<forall>b \<in> set bs. b_name (h b) \<noteq> name)"
  by (induction bs) auto

lemma remove_first_Some:
  "remove_first h name bs = Some cs \<Longrightarrow>
   \<exists>us b vs. bs = us @ b # vs \<and> cs = us @ vs \<and> b_name (h b) = name \<and>
     (\<forall>u \<in> set us. b_name (h u) \<noteq> name)"
proof (induction bs arbitrary: cs)
  case (Cons x bs)
  show ?case
  proof (cases "b_name (h x) = name")
    case True
    with Cons.prems show ?thesis by (intro exI [of _ "[]"]) auto
  next
    case False
    with Cons.prems obtain ds where ds: "remove_first h name bs = Some ds" "cs = x # ds"
      by auto
    from Cons.IH [OF ds(1)] obtain us b vs where
      "bs = us @ b # vs" "ds = us @ vs" "b_name (h b) = name" "\<forall>u \<in> set us. b_name (h u) \<noteq> name"
      by blast
    with False ds(2) show ?thesis by (intro exI [of _ "x # us"]) auto
  qed
qed simp

subsection \<open>The pool as a finite map from names\<close>

text \<open>
  What the pool promises its clients when names are distinct: it is a finite map from names
  to references. The abstraction reads the pool as such a map, and the operations are the
  map's insertion, deletion and lookup.
\<close>

definition names :: "bstore \<Rightarrow> pool \<Rightarrow> string list" where
  "names h p = map (\<lambda>b. b_name (h b)) (p_backends p)"

definition pool_inv :: "bstore \<Rightarrow> pool \<Rightarrow> bool" where
  "pool_inv h p \<longleftrightarrow> distinct (names h p)"

definition pool_map :: "bstore \<Rightarrow> pool \<Rightarrow> string \<rightharpoonup> bref" where
  "pool_map h p = map_of (map (\<lambda>b. (b_name (h b), b)) (p_backends p))"

locale name_map =
  fixes lookup :: "'m \<Rightarrow> string \<Rightarrow> 'b option"
    and insert :: "'b \<Rightarrow> 'm \<Rightarrow> 'm"
    and remove :: "string \<Rightarrow> 'm \<Rightarrow> bool \<times> 'm"
    and key :: "'b \<Rightarrow> string"
    and invar :: "'m \<Rightarrow> bool"
  assumes lookup_insert:
      "\<lbrakk>invar m; lookup m (key b) = None\<rbrakk> \<Longrightarrow> lookup (insert b m) = (lookup m)(key b \<mapsto> b)"
    and lookup_remove: "invar m \<Longrightarrow> lookup (snd (remove k m)) = (lookup m)(k := None)"
    and remove_reports: "invar m \<Longrightarrow> fst (remove k m) \<longleftrightarrow> lookup m k \<noteq> None"
    and invar_insert: "\<lbrakk>invar m; lookup m (key b) = None\<rbrakk> \<Longrightarrow> invar (insert b m)"
    and invar_remove: "invar m \<Longrightarrow> invar (snd (remove k m))"
begin

lemma insert_remove:
  assumes "invar m" and "lookup m (key b) = None"
  shows "lookup (snd (remove (key b) (insert b m))) = lookup m"
proof -
  have "lookup (snd (remove (key b) (insert b m))) = (lookup (insert b m))(key b := None)"
    using assms by (intro lookup_remove invar_insert)
  with assms show ?thesis by (auto simp: lookup_insert fun_eq_iff)
qed

lemma remove_twice:
  assumes "invar m"
  shows "\<not> fst (remove k (snd (remove k m)))"
  using assms by (simp add: remove_reports invar_remove lookup_remove)

end

lemma Pool_Get_pool_map: "Pool_Get h p = pool_map h p"
proof
  fix name
  have "find (\<lambda>b. b_name (h b) = name) bs = map_of (map (\<lambda>b. (b_name (h b), b)) bs) name" for bs
    by (induction bs) auto
  then show "Pool_Get h p name = pool_map h p name"
    by (simp add: Pool_Get_def pool_map_def)
qed

lemma pool_inv_Remove: "pool_inv h p \<Longrightarrow> pool_inv h (snd (Pool_Remove h name p))"
  by (auto simp: pool_inv_def names_def Pool_Remove_def split: option.splits
      dest!: remove_first_Some)

lemma Pool_Get_Remove:
  assumes "pool_inv h p"
  shows "Pool_Get h (snd (Pool_Remove h name p)) = (Pool_Get h p)(name := None)"
proof (cases "remove_first h name (p_backends p)")
  case None
  then have "Pool_Get h p name = None"
    by (simp add: Pool_Get_None remove_first_None)
  with None show ?thesis by (auto simp: Pool_Remove_def fun_eq_iff)
next
  case (Some cs)
  from remove_first_Some [OF this] obtain us b vs where
    dec: "p_backends p = us @ b # vs" "cs = us @ vs" "b_name (h b) = name" by blast
  with assms have "name \<notin> (\<lambda>b. b_name (h b)) ` (set us \<union> set vs)"
    by (auto simp: pool_inv_def names_def)
  then have away: "map_of (map (\<lambda>b. (b_name (h b), b)) us) name = None"
    "map_of (map (\<lambda>b. (b_name (h b), b)) vs) name = None"
    by (auto simp: map_of_eq_None_iff)
  show ?thesis
    using Some dec away
    by (auto simp: Pool_Remove_def Pool_Get_pool_map pool_map_def fun_eq_iff map_add_def
        split: option.splits)
qed

interpretation pool_as_map: name_map
  "Pool_Get h" Pool_Add "Pool_Remove h" "\<lambda>b. b_name (h b)" "pool_inv h" for h
proof
  fix p b
  assume "pool_inv h p" and new: "Pool_Get h p (b_name (h b)) = None"
  then show "Pool_Get h (Pool_Add b p) = (Pool_Get h p)(b_name (h b) \<mapsto> b)"
    by (auto simp: Pool_Get_pool_map pool_map_def fun_eq_iff map_add_def split: option.splits)
  from \<open>pool_inv h p\<close> new show "pool_inv h (Pool_Add b p)"
    by (auto simp: pool_inv_def names_def Pool_Get_None)
next
  fix p k
  assume inv: "pool_inv h p"
  show "Pool_Get h (snd (Pool_Remove h k p)) = (Pool_Get h p)(k := None)"
    using inv by (rule Pool_Get_Remove)
  show "fst (Pool_Remove h k p) \<longleftrightarrow> Pool_Get h p k \<noteq> None"
    by (cases "remove_first h k (p_backends p)")
      (auto simp: Pool_Remove_def Pool_Get_None remove_first_None [symmetric])
  show "pool_inv h (snd (Pool_Remove h k p))"
    using inv by (rule pool_inv_Remove)
qed

section \<open>A pool of two backends, for the concrete instances\<close>

definition two_backends :: bstore where
  "two_backends b = (if b = 0 then NewBackend ''a'' ''a:80'' 1 else NewBackend ''b'' ''b:80'' 2)"

definition two_pool :: pool where
  "two_pool = \<lparr>p_backends = [0, 1]\<rparr>"

lemma two_simps [simp]:
  "b_name (two_backends 0) = ''a''" "b_name (two_backends (Suc 0)) = ''b''"
  "b_weight (two_backends 0) = 1" "b_weight (two_backends (Suc 0)) = 2"
  "b_address (two_backends 0) = ''a:80''" "b_address (two_backends (Suc 0)) = ''b:80''"
  "b_healthy (two_backends b)" "b_activeConnections (two_backends b) = 0"
  "p_backends two_pool = [0, Suc 0]" "Pool_Healthy two_backends two_pool = [0, Suc 0]"
  by (simp_all add: two_backends_def two_pool_def NewBackend_def Pool_Healthy_def)

section \<open>Properties\<close>

text \<open>
  C39: The pool refines a finite map from names to backends: while names are distinct, adding
  a backend under a new name inserts it, removing a name deletes exactly that binding and
  reports whether it was there, both keep the names distinct, and removing what was just
  added restores every lookup.
\<close>

theorem pool_refines_map:
  assumes "pool_inv h p"
  shows "Pool_Get h (snd (Pool_Remove h k p)) = (pool_map h p)(k := None) \<and>
    (fst (Pool_Remove h k p) \<longleftrightarrow> k \<in> dom (pool_map h p)) \<and>
    pool_inv h (snd (Pool_Remove h k p)) \<and>
    (Pool_Get h p (b_name (h b)) = None \<longrightarrow>
      Pool_Get h (Pool_Add b p) = (pool_map h p)(b_name (h b) \<mapsto> b) \<and> pool_inv h (Pool_Add b p) \<and>
      Pool_Get h (snd (Pool_Remove h (b_name (h b)) (Pool_Add b p))) = pool_map h p)"
  using assms
  by (simp add: pool_as_map.lookup_remove pool_as_map.remove_reports pool_as_map.invar_remove
      pool_as_map.lookup_insert pool_as_map.invar_insert pool_as_map.insert_remove
      Pool_Get_pool_map [symmetric] dom_def)

theorem pool_refines_map_witness:
  "Pool_Get two_backends (snd (Pool_Remove two_backends ''a'' two_pool)) =
     (pool_map two_backends two_pool)(''a'' := None) \<and>
   pool_inv two_backends (Pool_Add 1 \<lparr>p_backends = [0]\<rparr>)"
proof -
  have "pool_inv two_backends two_pool" "pool_inv two_backends \<lparr>p_backends = [0]\<rparr>"
    by (simp_all add: pool_inv_def names_def)
  moreover have "Pool_Get two_backends \<lparr>p_backends = [0]\<rparr> (b_name (two_backends 1)) = None"
    by (simp add: Pool_Get_def)
  ultimately show ?thesis
    using pool_refines_map [of two_backends two_pool "''a''"]
      pool_refines_map [of two_backends "\<lparr>p_backends = [0]\<rparr>" _ 1] by blast
qed

text \<open>
  \<^verbatim>\<open>HealthySize\<close> counts exactly what \<^verbatim>\<open>Healthy\<close> lists, never more than the pool holds,
  and marking a member unhealthy removes it from the healthy list and nothing else.
\<close>

theorem healthy_list_exact:
  "Pool_HealthySize h p = length (Pool_Healthy h p) \<and> Pool_HealthySize h p \<le> Pool_Size p \<and>
   set (Pool_Healthy (MarkUnhealthy b h) p) = set (Pool_Healthy h p) - {b} \<and>
   set (Pool_Healthy (MarkHealthy b h) p) = set (Pool_Healthy h p) \<union> ({b} \<inter> set (Pool_All p))"
  by (auto simp: Pool_HealthySize_def count_healthy_eq Pool_Size_def Pool_All_def
      Pool_Healthy_def)

end
