(* ===== verification/LoadBalancing.thy ===== *)
theory LoadBalancing
  imports Backends
begin

text \<open>
  Package \<^verbatim>\<open>pkg/lb\<close>: the \<^verbatim>\<open>LoadBalancer\<close> interface (\<^verbatim>\<open>interface.go\<close>) as a locale, and the
  four balancers that work on the healthy list directly: round-robin (\<^verbatim>\<open>roundrobin.go\<close>),
  least-connections (\<^verbatim>\<open>leastconn.go\<close>), weighted round-robin and weighted
  least-connections (\<^verbatim>\<open>weighted.go\<close>). A selection takes the store and the pool the
  balancer points to and returns the selected reference (\<open>None\<close> for nil, \<open>Inl\<close> for a
  runtime panic) with the balancer's next state. The atomic counters keep their width.
\<close>

section \<open>The interface\<close>

type_synonym selection = "go_panic + bref option"
type_synonym 's selector = "bstore \<Rightarrow> pool \<Rightarrow> 's \<Rightarrow> selection \<times> 's"

text \<open>
  What a client of \<^verbatim>\<open>Select\<close> relies on, in the states \<open>ok\<close> of the balancer: no panic, nil
  exactly when no backend of the pool is healthy, and otherwise a healthy backend of the
  pool.
\<close>

locale load_balancer =
  fixes select :: "'s selector"
    and ok :: "bstore \<Rightarrow> pool \<Rightarrow> 's \<Rightarrow> bool"
  assumes select_some: "\<lbrakk>ok h p s; Pool_Healthy h p \<noteq> []\<rbrakk> \<Longrightarrow>
      \<exists>b. fst (select h p s) = Inr (Some b) \<and> b \<in> set (Pool_Healthy h p)"
    and select_none: "\<lbrakk>ok h p s; Pool_Healthy h p = []\<rbrakk> \<Longrightarrow> fst (select h p s) = Inr None"
begin

lemma select_healthy:
  "\<lbrakk>ok h p s; fst (select h p s) = Inr (Some b)\<rbrakk> \<Longrightarrow> b \<in> set (p_backends p) \<and> b_healthy (h b)"
  using select_some [of h p s] select_none [of h p s] by (cases "Pool_Healthy h p = []") auto

lemma select_nil_iff: "ok h p s \<Longrightarrow> fst (select h p s) = Inr None \<longleftrightarrow> Pool_Healthy h p = []"
  using select_some [of h p s] select_none [of h p s] by (cases "Pool_Healthy h p = []") auto

lemma select_no_panic: "ok h p s \<Longrightarrow> fst (select h p s) \<noteq> Inl e"
  using select_some [of h p s] select_none [of h p s] by (cases "Pool_Healthy h p = []") auto

lemma select_cases:
  assumes "ok h p s"
  obtains (none) "fst (select h p s) = Inr None" "Pool_Healthy h p = []"
  | (some) b where "fst (select h p s) = Inr (Some b)" "b \<in> set (p_backends p)" "b_healthy (h b)"
  using select_some [OF assms] select_none [OF assms] by (metis set_Pool_Healthy)

end

text \<open>A run of selections against an unchanging pool.\<close>

primrec outputs :: "('s \<Rightarrow> 'o \<times> 's) \<Rightarrow> nat \<Rightarrow> 's \<Rightarrow> 'o list" where
  "outputs f 0 s = []"
| "outputs f (Suc n) s = fst (f s) # outputs f n (snd (f s))"

lemma length_outputs [simp]: "length (outputs f n s) = n"
  by (induction n arbitrary: s) auto

section \<open>Round-robin (roundrobin.go)\<close>

record round_robin =
  rr_current :: "64 word"

definition NewRoundRobin :: round_robin where
  "NewRoundRobin = \<lparr>rr_current = 0\<rparr>"

definition RoundRobin_Select :: "round_robin selector" where
  "RoundRobin_Select h p rr =
     (let backends = Pool_Healthy h p in
      if length backends = 0 then (Inr None, rr)
      else
        let nxt = rr_current rr + 1;
            index = unat (nxt - 1) mod length backends
        in (Inr (Some (backends ! index)), rr\<lparr>rr_current := nxt\<rparr>))"

definition RoundRobin_Name :: string where
  "RoundRobin_Name = ''round-robin''"

section \<open>Least-connections (leastconn.go)\<close>

text \<open>The loop; \<open>m\<close> is \<^verbatim>\<open>minConnections\<close>, with -1 for "nothing selected yet".\<close>

fun least_loop :: "bstore \<Rightarrow> bref list \<Rightarrow> bref option \<Rightarrow> int \<Rightarrow> bref option" where
  "least_loop h [] selected m = selected"
| "least_loop h (b # bs) selected m =
     (let connections = b_activeConnections (h b) in
      if m = -1 \<or> connections < m then least_loop h bs (Some b) connections
      else least_loop h bs selected m)"

definition LeastConnections_Select :: "unit selector" where
  "LeastConnections_Select h p lc =
     (let backends = Pool_Healthy h p in
      if length backends = 0 then (Inr None, lc)
      else (Inr (least_loop h backends None (-1)), lc))"

definition LeastConnections_Name :: string where
  "LeastConnections_Name = ''least-connections''"

section \<open>Weighted round-robin (weighted.go)\<close>

record weighted_round_robin =
  wrr_current :: "64 word"

definition NewWeightedRoundRobin :: weighted_round_robin where
  "NewWeightedRoundRobin = \<lparr>wrr_current = 0\<rparr>"

fun total_weight :: "bstore \<Rightarrow> bref list \<Rightarrow> int \<Rightarrow> int" where
  "total_weight h [] totalWeight = totalWeight"
| "total_weight h (b # bs) totalWeight = total_weight h bs (totalWeight + b_weight (h b))"

fun find_offset :: "bstore \<Rightarrow> int \<Rightarrow> bref list \<Rightarrow> int \<Rightarrow> bref option" where
  "find_offset h offset [] currentOffset = None"
| "find_offset h offset (b # bs) currentOffset =
     (if offset < currentOffset + b_weight (h b) then Some b
      else find_offset h offset bs (currentOffset + b_weight (h b)))"

definition WeightedRoundRobin_Select :: "weighted_round_robin selector" where
  "WeightedRoundRobin_Select h p wrr =
     (let backends = Pool_Healthy h p in
      if length backends = 0 then (Inr None, wrr)
      else if length backends = 1 then (Inr (Some (backends ! 0)), wrr)
      else
        let totalWeight = total_weight h backends 0 in
        if totalWeight = 0 then
          let nxt = wrr_current wrr + 1;
              index = go_rem (sint (nxt - 1)) (int (length backends));
              wrr' = wrr\<lparr>wrr_current := nxt\<rparr>
          in if index < 0 then (Inl IndexOutOfRange, wrr')
             else (Inr (Some (backends ! nat index)), wrr')
        else
          let nxt = wrr_current wrr + 1;
              offset = go_rem (sint (nxt - 1)) totalWeight;
              wrr' = wrr\<lparr>wrr_current := nxt\<rparr>
          in (case find_offset h offset backends 0 of
                Some b \<Rightarrow> (Inr (Some b), wrr')
              | None \<Rightarrow> (Inr (Some (backends ! 0)), wrr')))"

definition WeightedRoundRobin_Name :: string where
  "WeightedRoundRobin_Name = ''weighted-round-robin''"

section \<open>Weighted least-connections (weighted.go)\<close>

definition effective_weight :: "bstore \<Rightarrow> bref \<Rightarrow> int" where
  "effective_weight h b = (let weight = b_weight (h b) in if weight \<le> 0 then 1 else weight)"

definition load_ratio :: "bstore \<Rightarrow> bref \<Rightarrow> real" where
  "load_ratio h b =
     (let connections = real_of_int (b_activeConnections (h b))
      in connections / real_of_int (effective_weight h b))"

fun ratio_loop :: "bstore \<Rightarrow> bref list \<Rightarrow> bref option \<Rightarrow> real \<Rightarrow> bref option" where
  "ratio_loop h [] selected minRatio = selected"
| "ratio_loop h (b # bs) selected minRatio =
     (let ratio = load_ratio h b in
      if minRatio = -1 \<or> ratio < minRatio then ratio_loop h bs (Some b) ratio
      else ratio_loop h bs selected minRatio)"

definition WeightedLeastConnections_Select :: "unit selector" where
  "WeightedLeastConnections_Select h p wlc =
     (let backends = Pool_Healthy h p in
      if length backends = 0 then (Inr None, wlc)
      else if length backends = 1 then (Inr (Some (backends ! 0)), wlc)
      else (Inr (ratio_loop h backends None (-1)), wlc))"

definition WeightedLeastConnections_Name :: string where
  "WeightedLeastConnections_Name = ''weighted-least-connections''"

section \<open>Round-robin: facts\<close>

lemma RoundRobin_Select_cycle:
  assumes "Pool_Healthy h p = bs" and "bs \<noteq> []"
  shows "RoundRobin_Select h p rr =
    (Inr (Some (bs ! (unat (rr_current rr) mod length bs))), \<lparr>rr_current = rr_current rr + 1\<rparr>)"
  using assms by (cases rr) (simp add: RoundRobin_Select_def Let_def)

lemma RoundRobin_outputs:
  assumes bs: "Pool_Healthy h p = bs" "bs \<noteq> []"
    and nowrap: "unat (rr_current rr) + n \<le> 2 ^ 64"
  shows "outputs (RoundRobin_Select h p) n rr =
    map (\<lambda>k. Inr (Some (bs ! ((unat (rr_current rr) + k) mod length bs)))) [0..<n]"
  using nowrap
proof (induction n arbitrary: rr)
  case (Suc n)
  let ?rr = "\<lparr>rr_current = rr_current rr + 1\<rparr>"
  show ?case
  proof (cases "n = 0")
    case True
    then show ?thesis by (simp add: RoundRobin_Select_cycle [OF bs])
  next
    case False
    with Suc.prems have u: "unat (rr_current rr + 1) = Suc (unat (rr_current rr))"
      by (simp add: unat_word_ariths)
    with Suc.prems have "unat (rr_current ?rr) + n \<le> 2 ^ 64" by simp
    from Suc.IH [OF this] have "outputs (RoundRobin_Select h p) n ?rr =
      map (\<lambda>k. Inr (Some (bs ! ((unat (rr_current rr) + Suc k) mod length bs)))) [0..<n]"
      by (simp add: u del: upt_Suc)
    then show ?thesis
      by (simp add: RoundRobin_Select_cycle [OF bs, of rr] upt_conv_Cons map_Suc_upt [symmetric]
          o_def del: upt_Suc)
  qed
qed simp

lemma map_nth_cycle: "map (\<lambda>k. xs ! ((c + k) mod length xs)) [0..<length xs] = rotate c xs"
  by (rule nth_equalityI) (auto simp: nth_rotate add.commute)

section \<open>Least-connections: facts\<close>

lemma least_loop_Some: "least_loop h bs (Some b) m \<noteq> None"
  by (induction bs arbitrary: b m) (auto simp: Let_def)

lemma least_loop_in:
  "least_loop h bs selected m = Some b \<Longrightarrow> b \<in> set bs \<or> selected = Some b"
  by (induction bs arbitrary: selected m) (auto simp: Let_def split: if_splits)

text \<open>
  With no negative counts the loop finds the first minimum: nothing before the result is as
  small, nothing at all is smaller.
\<close>

lemma least_loop_min:
  assumes "\<forall>x \<in> set bs. 0 \<le> b_activeConnections (h x)" and "0 \<le> b_activeConnections (h a)"
  shows "\<exists>b. least_loop h bs (Some a) (b_activeConnections (h a)) = Some b \<and>
    (\<forall>x \<in> set (a # bs). b_activeConnections (h b) \<le> b_activeConnections (h x))"
  using assms
proof (induction bs arbitrary: a)
  case (Cons c bs)
  let ?a = "if b_activeConnections (h c) < b_activeConnections (h a) then c else a"
  from Cons.prems have "0 \<le> b_activeConnections (h ?a)" by simp
  with Cons.prems Cons.IH [of ?a] show ?case by (auto simp: Let_def split: if_splits)
qed simp

lemma least_loop_start:
  "bs = c # cs \<Longrightarrow> least_loop h bs None (-1) = least_loop h cs (Some c) (b_activeConnections (h c))"
  by (simp add: Let_def)

lemma least_loop_healthy:
  assumes "bs \<noteq> []" and "\<forall>x \<in> set bs. 0 \<le> b_activeConnections (h x)"
  shows "\<exists>b. least_loop h bs None (-1) = Some b \<and> b \<in> set bs \<and>
    (\<forall>x \<in> set bs. b_activeConnections (h b) \<le> b_activeConnections (h x))"
proof -
  from assms(1) obtain c cs where cs: "bs = c # cs" by (auto simp: neq_Nil_conv)
  with least_loop_min [of cs h c] assms(2) obtain b where
    b: "least_loop h bs None (-1) = Some b"
      "\<forall>x \<in> set bs. b_activeConnections (h b) \<le> b_activeConnections (h x)"
    by (auto simp: Let_def)
  with least_loop_in [OF b(1)] show ?thesis by auto
qed

section \<open>Weighted round-robin: facts\<close>

text \<open>
  The reference definition: every backend repeated as often as its weight says. The offset
  search of the code is indexing into that expanded list.
\<close>

definition expand :: "bstore \<Rightarrow> bref list \<Rightarrow> bref list" where
  "expand h bs = concat (map (\<lambda>b. replicate (nat (b_weight (h b))) b) bs)"

lemma total_weight_acc: "total_weight h bs n = n + total_weight h bs 0"
proof (induction bs arbitrary: n)
  case (Cons b bs)
  show ?case by (simp add: Cons [of "n + b_weight (h b)"] Cons [of "b_weight (h b)"])
qed simp

lemma total_weight_Cons: "total_weight h (b # bs) 0 = b_weight (h b) + total_weight h bs 0"
  by (simp add: total_weight_acc [of h bs "b_weight (h b)"])

lemma length_expand:
  "\<forall>b \<in> set bs. 0 \<le> b_weight (h b) \<Longrightarrow> int (length (expand h bs)) = total_weight h bs 0"
  by (induction bs) (auto simp: expand_def total_weight_Cons simp del: total_weight.simps(2))

lemma find_offset_expand:
  assumes "\<forall>b \<in> set bs. 0 \<le> b_weight (h b)" and "c \<le> i" and "nat (i - c) < length (expand h bs)"
  shows "find_offset h i bs c = Some (expand h bs ! nat (i - c))"
  using assms
proof (induction bs arbitrary: c)
  case Nil
  then show ?case by (simp add: expand_def)
next
  case (Cons b bs)
  let ?w = "b_weight (h b)"
  have ex: "expand h (b # bs) = replicate (nat ?w) b @ expand h bs"
    by (simp add: expand_def)
  show ?case
  proof (cases "i < c + ?w")
    case True
    with Cons.prems(2) have "nat (i - c) < nat ?w" by simp
    with True show ?thesis by (simp add: ex nth_append)
  next
    case False
    with Cons.prems have w: "0 \<le> ?w" "c + ?w \<le> i" by auto
    then have off: "nat (i - c) = nat ?w + nat (i - (c + ?w))" by simp
    with Cons.prems(3) have "nat (i - (c + ?w)) < length (expand h bs)" by (simp add: ex)
    from Cons.IH [OF _ w(2) this] Cons.prems(1) False show ?thesis
      by (simp add: ex off nth_append)
  qed
qed

lemma expand_count: "distinct bs \<Longrightarrow> b \<in> set bs \<Longrightarrow> count_list (expand h bs) b = nat (b_weight (h b))"
proof (induction bs)
  case (Cons x bs)
  have rep: "count_list (replicate n y) b = (if y = b then n else 0)" for n y
    by (induction n) auto
  have out: "b \<notin> set bs \<Longrightarrow> count_list (expand h bs) b = 0"
    by (auto simp: expand_def count_list_0_iff)
  from Cons show ?case
    by (auto simp: expand_def rep out [unfolded expand_def])
qed simp

lemma WeightedRoundRobin_Select_weighted:
  assumes bs: "Pool_Healthy h p = bs" "2 \<le> length bs"
    and w: "\<forall>b \<in> set bs. 0 \<le> b_weight (h b)" "0 < total_weight h bs 0"
    and c: "sint (wrr_current s) = int c"
  shows "WeightedRoundRobin_Select h p s =
    (Inr (Some (expand h bs ! (c mod length (expand h bs)))), \<lparr>wrr_current = wrr_current s + 1\<rparr>)"
proof -
  from length_expand [OF w(1)] w(2) have pos: "0 < length (expand h bs)" by linarith
  have off: "go_rem (sint (wrr_current s + 1 - 1)) (total_weight h bs 0) = int (c mod length (expand h bs))"
    using w(2) c length_expand [OF w(1)] by (simp add: zmod_int)
  have "find_offset h (int (c mod length (expand h bs))) bs 0 =
      Some (expand h bs ! (c mod length (expand h bs)))"
    using find_offset_expand [OF w(1), of 0 "int (c mod length (expand h bs))"] pos by simp
  with off bs w(2) show ?thesis
    by (cases s) (auto simp: WeightedRoundRobin_Select_def Let_def)
qed

lemma sint_succ_64:
  fixes w :: "64 word"
  assumes "sint w = int c" and "c + 1 < 2 ^ 63"
  shows "sint (w + 1) = int (c + 1)"
proof -
  have "sint (w + 1) = signed_take_bit 63 (sint w + sint (1 :: 64 word))"
    by (simp add: sint_word_ariths(1))
  also have "\<dots> = signed_take_bit 63 (int (c + 1))"
    by (simp add: assms(1) add.commute)
  also have "\<dots> = int (c + 1)"
    using assms(2) by (intro signed_take_bit_int_eq_self) auto
  finally show ?thesis .
qed

lemma WeightedRoundRobin_outputs:
  assumes bs: "Pool_Healthy h p = bs" "2 \<le> length bs"
    and w: "\<forall>b \<in> set bs. 0 \<le> b_weight (h b)" "0 < total_weight h bs 0"
    and c: "sint (wrr_current s) = int c" "c + n < 2 ^ 63"
  shows "outputs (WeightedRoundRobin_Select h p) n s =
    map (\<lambda>k. Inr (Some (expand h bs ! ((c + k) mod length (expand h bs))))) [0..<n]"
  using c
proof (induction n arbitrary: s c)
  case (Suc n)
  from Suc.prems have "sint (wrr_current s + 1) = int (c + 1)"
    by (intro sint_succ_64) auto
  with Suc.prems Suc.IH [of "\<lparr>wrr_current = wrr_current s + 1\<rparr>" "c + 1"] show ?case
    by (simp add: WeightedRoundRobin_Select_weighted [OF bs w Suc.prems(1)] upt_conv_Cons
        map_Suc_upt [symmetric] del: upt_Suc)
qed simp

section \<open>Weighted least-connections: facts\<close>

lemma effective_weight_pos: "0 < effective_weight h b"
  by (auto simp: effective_weight_def Let_def)

lemma load_ratio_nonneg: "0 \<le> b_activeConnections (h b) \<Longrightarrow> 0 \<le> load_ratio h b"
  using effective_weight_pos [of h b] by (simp add: load_ratio_def)

lemma ratio_loop_Some: "ratio_loop h bs (Some b) m \<noteq> None"
  by (induction bs arbitrary: b m) (auto simp: Let_def)

lemma ratio_loop_in:
  "ratio_loop h bs selected m = Some b \<Longrightarrow> b \<in> set bs \<or> selected = Some b"
  by (induction bs arbitrary: selected m) (auto simp: Let_def split: if_splits)

lemma ratio_loop_min:
  assumes "\<forall>x \<in> set bs. 0 \<le> load_ratio h x" and "0 \<le> load_ratio h a"
  shows "\<exists>b. ratio_loop h bs (Some a) (load_ratio h a) = Some b \<and>
    (\<forall>x \<in> set (a # bs). load_ratio h b \<le> load_ratio h x)"
  using assms
proof (induction bs arbitrary: a)
  case (Cons c bs)
  let ?a = "if load_ratio h c < load_ratio h a then c else a"
  from Cons.prems have "0 \<le> load_ratio h ?a" by simp
  with Cons.prems Cons.IH [of ?a] show ?case by (auto simp: Let_def split: if_splits)
qed simp

lemma WeightedLeastConnections_optimal:
  assumes "Pool_Healthy h p \<noteq> []"
    and "\<forall>x \<in> set (Pool_Healthy h p). 0 \<le> b_activeConnections (h x)"
  shows "\<exists>b \<in> set (Pool_Healthy h p). fst (WeightedLeastConnections_Select h p wlc) = Inr (Some b) \<and>
      (\<forall>x \<in> set (Pool_Healthy h p). load_ratio h b \<le> load_ratio h x)"
proof -
  from assms(1) obtain c cs where cs: "Pool_Healthy h p = c # cs" by (auto simp: neq_Nil_conv)
  with ratio_loop_min [of cs h c] assms(2) obtain b where
    b: "ratio_loop h (c # cs) None (-1) = Some b"
      "\<forall>x \<in> set (c # cs). load_ratio h b \<le> load_ratio h x"
    by (auto simp: Let_def load_ratio_nonneg simp del: set_Pool_Healthy)
  with ratio_loop_in [OF b(1)] show ?thesis
    by (cases "cs = []")
      (auto simp: cs WeightedLeastConnections_Select_def Let_def simp del: set_Pool_Healthy)
qed

section \<open>The balancers implement the interface\<close>

interpretation rr: load_balancer RoundRobin_Select "\<lambda>_ _ _. True"
proof
  fix h p and s :: round_robin
  assume "Pool_Healthy h p \<noteq> []"
  then show "\<exists>b. fst (RoundRobin_Select h p s) = Inr (Some b) \<and> b \<in> set (Pool_Healthy h p)"
    by (simp add: RoundRobin_Select_cycle [OF refl] del: set_Pool_Healthy)
next
  fix h p and s :: round_robin
  assume "Pool_Healthy h p = []"
  then show "fst (RoundRobin_Select h p s) = Inr None"
    by (simp add: RoundRobin_Select_def)
qed

interpretation lc: load_balancer LeastConnections_Select "\<lambda>_ _ _. True"
proof
  fix h p and s :: unit
  assume "Pool_Healthy h p \<noteq> []"
  then obtain c cs where cs: "Pool_Healthy h p = c # cs" by (auto simp: neq_Nil_conv)
  obtain b where b: "least_loop h (c # cs) None (-1) = Some b"
    using least_loop_Some [of h cs c] by (auto simp: Let_def)
  with least_loop_in [OF b] cs
  show "\<exists>b. fst (LeastConnections_Select h p s) = Inr (Some b) \<and> b \<in> set (Pool_Healthy h p)"
    by (simp add: LeastConnections_Select_def Let_def del: set_Pool_Healthy)
next
  fix h p and s :: unit
  assume "Pool_Healthy h p = []"
  then show "fst (LeastConnections_Select h p s) = Inr None"
    by (simp add: LeastConnections_Select_def)
qed

lemma find_offset_in: "find_offset h i bs c = Some b \<Longrightarrow> b \<in> set bs"
  by (induction bs arbitrary: c) (auto split: if_splits)

interpretation wrr: load_balancer WeightedRoundRobin_Select "\<lambda>_ _ s. 0 \<le> sint (wrr_current s)"
proof
  fix h p and s :: weighted_round_robin
  assume ok: "0 \<le> sint (wrr_current s)" and ne: "Pool_Healthy h p \<noteq> []"
  let ?bs = "Pool_Healthy h p"
  let ?i = "go_rem (sint (wrr_current s)) (int (length ?bs))"
  have "0 \<le> ?i" "nat ?i < length ?bs"
    using ok ne by (simp_all add: nat_less_iff)
  moreover have "?bs ! 0 \<in> set ?bs" using ne by (intro nth_mem) auto
  ultimately
  show "\<exists>b. fst (WeightedRoundRobin_Select h p s) = Inr (Some b) \<and> b \<in> set ?bs"
    using ne
    by (auto simp: WeightedRoundRobin_Select_def Let_def simp del: set_Pool_Healthy
        split: option.splits dest: find_offset_in)
next
  fix h p and s :: weighted_round_robin
  assume "Pool_Healthy h p = []"
  then show "fst (WeightedRoundRobin_Select h p s) = Inr None"
    by (simp add: WeightedRoundRobin_Select_def)
qed

interpretation wlc: load_balancer WeightedLeastConnections_Select "\<lambda>_ _ _. True"
proof
  fix h p and s :: unit
  assume "Pool_Healthy h p \<noteq> []"
  then obtain c cs where cs: "Pool_Healthy h p = c # cs" by (auto simp: neq_Nil_conv)
  obtain b where b: "ratio_loop h (c # cs) None (-1) = Some b"
    using ratio_loop_Some [of h cs c] by (auto simp: Let_def)
  with ratio_loop_in [OF b] cs
  show "\<exists>b. fst (WeightedLeastConnections_Select h p s) = Inr (Some b) \<and> b \<in> set (Pool_Healthy h p)"
    by (simp add: WeightedLeastConnections_Select_def Let_def del: set_Pool_Healthy)
next
  fix h p and s :: unit
  assume "Pool_Healthy h p = []"
  then show "fst (WeightedLeastConnections_Select h p s) = Inr None"
    by (simp add: WeightedLeastConnections_Select_def)
qed

section \<open>Properties\<close>

text \<open>
  C24: Round-robin is fair. While the set of healthy backends does not change and the 64-bit
  counter does not wrap, as many selections as there are healthy backends return each of
  them exactly once, in pool order, starting where the counter points.
\<close>

theorem round_robin_fair:
  assumes "Pool_Healthy h p \<noteq> []"
    and "unat (rr_current rr) + length (Pool_Healthy h p) \<le> 2 ^ 64"
  shows "outputs (RoundRobin_Select h p) (length (Pool_Healthy h p)) rr =
    map (\<lambda>b. Inr (Some b)) (rotate (unat (rr_current rr)) (Pool_Healthy h p))"
  unfolding RoundRobin_outputs [OF refl assms]
  by (simp add: map_nth_cycle [symmetric] o_def)

theorem round_robin_fair_witness:
  "outputs (RoundRobin_Select two_backends two_pool) (Suc (Suc 0)) \<lparr>rr_current = 5\<rparr> =
     [Inr (Some 1), Inr (Some 0)]"
proof -
  have "rotate 5 [0, Suc 0] = [Suc 0, 0]" by code_simp
  then show ?thesis
    using round_robin_fair [of two_backends two_pool "\<lparr>rr_current = 5\<rparr>"] by simp
qed

text \<open>
  C23: Weighted round-robin gives every backend its exact share. Over one period (as many
  selections as the total weight) with a counter that does not overflow, each healthy
  backend is selected exactly as often as its weight says.
\<close>

theorem weighted_round_robin_share:
  assumes "2 \<le> length (Pool_Healthy h p)" and "distinct (Pool_Healthy h p)"
    and "\<forall>b \<in> set (Pool_Healthy h p). 0 \<le> b_weight (h b)"
    and "0 < total_weight h (Pool_Healthy h p) 0"
    and "0 \<le> sint (wrr_current s)"
    and "sint (wrr_current s) + total_weight h (Pool_Healthy h p) 0 < 2 ^ 63"
    and "b \<in> set (Pool_Healthy h p)"
  shows "count_list (outputs (WeightedRoundRobin_Select h p)
      (nat (total_weight h (Pool_Healthy h p) 0)) s) (Inr (Some b)) = nat (b_weight (h b))"
proof -
  let ?bs = "Pool_Healthy h p" and ?ex = "expand h (Pool_Healthy h p)"
  obtain c where c: "sint (wrr_current s) = int c"
    using assms(5) nonneg_int_cases by blast
  have n: "nat (total_weight h ?bs 0) = length ?ex"
    using length_expand [OF assms(3)] by simp
  have "int (c + length ?ex) < 2 ^ 63"
    using assms(6) c length_expand [OF assms(3)] by simp
  then have "c + length ?ex < 2 ^ 63" by simp
  from WeightedRoundRobin_outputs [OF refl assms(1,3,4) c this]
  have "outputs (WeightedRoundRobin_Select h p) (length ?ex) s = map (\<lambda>b. Inr (Some b)) (rotate c ?ex)"
    by (simp add: map_nth_cycle [symmetric] o_def)
  moreover have "count_list (map (\<lambda>b. Inr (Some b) :: selection) xs) (Inr (Some b)) = count_list xs b" for xs
    by (induction xs) auto
  ultimately show ?thesis
    using expand_count [OF assms(2,7)] by (simp add: n count_list_rotate)
qed

theorem weighted_round_robin_share_witness:
  "count_list (outputs (WeightedRoundRobin_Select two_backends two_pool) 3 \<lparr>wrr_current = 7\<rparr>)
     (Inr (Some 1)) = 2"
  using weighted_round_robin_share [of two_backends two_pool "\<lparr>wrr_current = 7\<rparr>" 1] by simp

text \<open>
  C25: Least-connections and weighted least-connections pick an optimum. With non-negative
  connection counts and some healthy backend, the first returns a healthy backend no other
  healthy backend has fewer connections than, the second one whose ratio of connections to
  weight no other healthy backend undercuts.
\<close>

theorem least_loaded_selected:
  assumes "Pool_Healthy h p \<noteq> []"
    and "\<forall>x \<in> set (Pool_Healthy h p). 0 \<le> b_activeConnections (h x)"
  shows "(\<exists>b \<in> set (Pool_Healthy h p). fst (LeastConnections_Select h p lc) = Inr (Some b) \<and>
      (\<forall>x \<in> set (Pool_Healthy h p). b_activeConnections (h b) \<le> b_activeConnections (h x))) \<and>
    (\<exists>b \<in> set (Pool_Healthy h p). fst (WeightedLeastConnections_Select h p wlc) = Inr (Some b) \<and>
      (\<forall>x \<in> set (Pool_Healthy h p). load_ratio h b \<le> load_ratio h x))"
proof
  show "\<exists>b \<in> set (Pool_Healthy h p). fst (LeastConnections_Select h p lc) = Inr (Some b) \<and>
      (\<forall>x \<in> set (Pool_Healthy h p). b_activeConnections (h b) \<le> b_activeConnections (h x))"
    using least_loop_healthy [OF assms] assms(1)
    by (auto simp: LeastConnections_Select_def Let_def simp del: set_Pool_Healthy)
  show "\<exists>b \<in> set (Pool_Healthy h p). fst (WeightedLeastConnections_Select h p wlc) = Inr (Some b) \<and>
      (\<forall>x \<in> set (Pool_Healthy h p). load_ratio h b \<le> load_ratio h x)"
    using assms by (rule WeightedLeastConnections_optimal)
qed

theorem least_loaded_selected_witness:
  "\<exists>b \<in> set (Pool_Healthy two_backends two_pool).
     fst (WeightedLeastConnections_Select two_backends two_pool ()) = Inr (Some b)"
  using least_loaded_selected [of two_backends two_pool "()" "()"] by auto

text \<open>
  In a pool of at least two healthy backends whose weights sum to zero, weighted
  round-robin panics once its signed counter has overflowed to a negative value that the
  number of backends does not divide: the index it computes is negative.
\<close>

theorem weighted_round_robin_overflow_panics:
  assumes "2 \<le> length (Pool_Healthy h p)" and "total_weight h (Pool_Healthy h p) 0 = 0"
    and "sint (wrr_current s) < 0" and "\<not> int (length (Pool_Healthy h p)) dvd sint (wrr_current s)"
  shows "fst (WeightedRoundRobin_Select h p s) = Inl IndexOutOfRange"
proof -
  let ?n = "int (length (Pool_Healthy h p))" and ?c = "sint (wrr_current s)"
  from assms(4) have "\<bar>?c\<bar> mod ?n \<noteq> 0" by (simp flip: dvd_eq_mod_eq_0)
  moreover from assms(1) have "0 < ?n" by linarith
  ultimately have "0 < \<bar>?c\<bar> mod ?n" using pos_mod_sign [of ?n "\<bar>?c\<bar>"] by linarith
  with assms(3) have "go_rem ?c ?n < 0" by (simp add: go_rem_def)
  with assms show ?thesis by (auto simp: WeightedRoundRobin_Select_def Let_def)
qed

theorem weighted_round_robin_overflow_panics_witness:
  "fst (WeightedRoundRobin_Select (\<lambda>_. NewBackend ''z'' ''z:80'' 0) two_pool
     \<lparr>wrr_current = - 1\<rparr>) = Inl IndexOutOfRange"
  by (rule weighted_round_robin_overflow_panics)
    (simp_all add: Pool_Healthy_def NewBackend_def)

end
