(* ===== verification/ConsistentHashing.thy ===== *)
theory ConsistentHashing
  imports LoadBalancing
begin

text \<open>
  Package \<^verbatim>\<open>pkg/lb\<close>, file \<^verbatim>\<open>consistent.go\<close>: the FNV-1a hash, the hash ring with virtual
  nodes and its rebuild test, selection by binary search, and the bounded-load variant.
  The ring is the sorted list of 32-bit hashes; \<^verbatim>\<open>ringMap\<close> is a partial map from hashes to
  backends. \<^verbatim>\<open>sort.Search\<close> of the standard library is modelled by its own loop.
\<close>

unbundle bit_operations_syntax

section \<open>FNV-1a and the binary search of the standard library\<close>

definition fnv1a_step :: "32 word \<Rightarrow> char \<Rightarrow> 32 word" where
  "fnv1a_step h c = (h XOR of_char c) * 16777619"

definition ConsistentHash_hash :: "string \<Rightarrow> 32 word" where
  "ConsistentHash_hash key = foldl fnv1a_step 2166136261 key"

function search_loop :: "(nat \<Rightarrow> bool) \<Rightarrow> nat \<Rightarrow> nat \<Rightarrow> nat" where
  "search_loop f i j =
     (if i < j then
        let h = (i + j) div 2 in
        if \<not> f h then search_loop f (h + 1) j else search_loop f i h
      else i)"
  by pat_completeness auto
termination
  by (relation "measure (\<lambda>(f, i, j). j - i)") auto

declare search_loop.simps [simp del]

definition sort_Search :: "nat \<Rightarrow> (nat \<Rightarrow> bool) \<Rightarrow> nat" where
  "sort_Search n f = search_loop f 0 n"

lemma search_loop_first:
  assumes "\<forall>a b. a \<le> b \<longrightarrow> b < n \<longrightarrow> f a \<longrightarrow> f b"
    and "i \<le> j" "j \<le> n" "\<forall>k < i. \<not> f k" "j < n \<longrightarrow> f j"
  shows "search_loop f i j \<le> n \<and> (\<forall>k < search_loop f i j. \<not> f k) \<and>
    (search_loop f i j < n \<longrightarrow> f (search_loop f i j))"
  using assms
proof (induction f i j rule: search_loop.induct)
  case (1 f i j)
  define m where "m = (i + j) div 2"
  show ?case
  proof (cases "i < j")
    case False
    then have "search_loop f i j = i" by (simp add: search_loop.simps [of f i j])
    with False "1.prems" show ?thesis by auto
  next
    case ij: True
    then have m: "i \<le> m" "m < j" by (auto simp: m_def)
    show ?thesis
    proof (cases "f m")
      case True
      with "1.IH"(2) [OF ij m_def] m "1.prems"
      have "search_loop f i m \<le> n \<and> (\<forall>k < search_loop f i m. \<not> f k) \<and>
          (search_loop f i m < n \<longrightarrow> f (search_loop f i m))" by simp
      with True ij show ?thesis
        by (simp add: search_loop.simps [of f i j] m_def [symmetric] Let_def)
    next
      case False
      have "\<forall>k < m + 1. \<not> f k"
      proof (intro allI impI notI)
        fix k assume "k < m + 1" and k: "f k"
        then have "k \<le> m" by simp
        with "1.prems"(1,3) m(2) k have "f m" by (meson order.strict_trans2)
        with False show False ..
      qed
      with "1.IH"(1) [OF ij m_def] False m "1.prems"
      have "search_loop f (m + 1) j \<le> n \<and> (\<forall>k < search_loop f (m + 1) j. \<not> f k) \<and>
          (search_loop f (m + 1) j < n \<longrightarrow> f (search_loop f (m + 1) j))" by simp
      with False ij show ?thesis
        by (simp add: search_loop.simps [of f i j] m_def [symmetric] Let_def)
    qed
  qed
qed

lemma sort_Search_first:
  assumes "\<forall>a b. a \<le> b \<longrightarrow> b < n \<longrightarrow> f a \<longrightarrow> f b"
  shows "sort_Search n f \<le> n" "k < sort_Search n f \<Longrightarrow> \<not> f k"
    "sort_Search n f < n \<Longrightarrow> f (sort_Search n f)"
  using search_loop_first [of n f 0 n] assms by (simp_all add: sort_Search_def)

section \<open>The ring (consistent.go)\<close>

abbreviation DefaultVirtualNodes :: int where "DefaultVirtualNodes \<equiv> 150"

type_synonym ring_map = "32 word \<rightharpoonup> bref"

record consistent_hash =
  ch_virtualNodes :: int
  ch_ring :: "32 word list"
  ch_ringMap :: ring_map
  ch_lastKnownSize :: int
  ch_hashKey :: string

definition vnode_key :: "string \<Rightarrow> nat \<Rightarrow> string" where
  \<comment> \<open>\<^verbatim>\<open>fmt.Sprintf("%s-%d", b.Address(), i)\<close>\<close>
  "vnode_key address i = address @ ''-'' @ show_nat i"

definition add_vnode :: "bref \<Rightarrow> string \<Rightarrow> nat \<Rightarrow> 32 word list \<times> ring_map \<Rightarrow> 32 word list \<times> ring_map" where
  "add_vnode b address i st =
     (let hash = ConsistentHash_hash (vnode_key address i)
      in (fst st @ [hash], (snd st)(hash \<mapsto> b)))"

definition add_backend_vnodes ::
    "bstore \<Rightarrow> int \<Rightarrow> bref \<Rightarrow> 32 word list \<times> ring_map \<Rightarrow> 32 word list \<times> ring_map" where
  "add_backend_vnodes h virtualNodes b st =
     (let numVirtualNodes = virtualNodes * effective_weight h b
      in fold (add_vnode b (b_address (h b))) [0..<nat numVirtualNodes] st)"

definition rebuildRing :: "bstore \<Rightarrow> pool \<Rightarrow> consistent_hash \<Rightarrow> consistent_hash" where
  "rebuildRing h p ch =
     (let backends = Pool_Healthy h p;
          currentSize = int (length backends)
      in if currentSize = ch_lastKnownSize ch \<and> length (ch_ring ch) > 0 then ch
         else
           let st = fold (add_backend_vnodes h (ch_virtualNodes ch)) backends ([], Map.empty)
           in ch\<lparr>ch_ring := sort (fst st), ch_ringMap := snd st, ch_lastKnownSize := currentSize\<rparr>)"

definition NewConsistentHash :: "bstore \<Rightarrow> pool \<Rightarrow> int \<Rightarrow> string \<Rightarrow> consistent_hash" where
  "NewConsistentHash h p virtualNodes hashKey =
     rebuildRing h p
       \<lparr>ch_virtualNodes = (if virtualNodes \<le> 0 then DefaultVirtualNodes else virtualNodes),
        ch_ring = [], ch_ringMap = Map.empty, ch_lastKnownSize = 0,
        ch_hashKey = (if hashKey = '''' then ''source-ip'' else hashKey)\<rparr>"

definition ring_search :: "consistent_hash \<Rightarrow> string \<Rightarrow> nat" where
  "ring_search ch key =
     (let hash = ConsistentHash_hash key
      in sort_Search (length (ch_ring ch)) (\<lambda>i. ch_ring ch ! i \<ge> hash))"

definition ConsistentHash_SelectWithKey ::
    "bstore \<Rightarrow> pool \<Rightarrow> consistent_hash \<Rightarrow> string \<Rightarrow> selection \<times> consistent_hash" where
  "ConsistentHash_SelectWithKey h p ch0 key =
     (let ch = rebuildRing h p ch0 in
      if length (ch_ring ch) = 0 then (Inr None, ch)
      else
        let idx = ring_search ch key;
            idx = (if idx \<ge> length (ch_ring ch) then 0 else idx)
        in (Inr (ch_ringMap ch (ch_ring ch ! idx)), ch))"

definition ConsistentHash_Select :: "consistent_hash selector" where
  "ConsistentHash_Select h p ch = ConsistentHash_SelectWithKey h p ch ''''"

definition ConsistentHash_Name :: string where
  "ConsistentHash_Name = ''consistent-hash''"

section \<open>Bounded load (consistent.go)\<close>

record bounded_consistent_hash =
  bch_ch :: consistent_hash
  bch_loadFactor :: real

definition NewBoundedLoadConsistentHash ::
    "bstore \<Rightarrow> pool \<Rightarrow> int \<Rightarrow> string \<Rightarrow> real \<Rightarrow> bounded_consistent_hash" where
  "NewBoundedLoadConsistentHash h p virtualNodes hashKey loadFactor =
     \<lparr>bch_ch = NewConsistentHash h p virtualNodes hashKey,
      bch_loadFactor = (if loadFactor \<le> 0 then 5 / 4 else loadFactor)\<rparr>"

fun total_connections :: "bstore \<Rightarrow> bref list \<Rightarrow> int \<Rightarrow> int" where
  "total_connections h [] n = n"
| "total_connections h (b # bs) n = total_connections h bs (n + b_activeConnections (h b))"

definition max_load :: "bstore \<Rightarrow> bref list \<Rightarrow> real \<Rightarrow> real" where
  "max_load h backends loadFactor =
     (let avgLoad = real_of_int (total_connections h backends 0) / real (length backends)
      in avgLoad * loadFactor)"

text \<open>The walk from position \<open>idx\<close>, for at most \<open>n\<close> steps.\<close>

fun bounded_walk :: "bstore \<Rightarrow> consistent_hash \<Rightarrow> real \<Rightarrow> nat \<Rightarrow> nat \<Rightarrow> bref option" where
  "bounded_walk h ch maxLoad 0 idx = None"
| "bounded_walk h ch maxLoad (Suc n) idx =
     (let idx = (if idx \<ge> length (ch_ring ch) then 0 else idx) in
      case ch_ringMap ch (ch_ring ch ! idx) of
        Some b \<Rightarrow>
          if real_of_int (b_activeConnections (h b)) \<le> maxLoad then Some b
          else bounded_walk h ch maxLoad n (idx + 1)
      | None \<Rightarrow> bounded_walk h ch maxLoad n (idx + 1))"

definition BoundedLoad_SelectWithKey ::
    "bstore \<Rightarrow> pool \<Rightarrow> bounded_consistent_hash \<Rightarrow> string \<Rightarrow> selection \<times> bounded_consistent_hash" where
  "BoundedLoad_SelectWithKey h p blch0 key =
     (let ch = rebuildRing h p (bch_ch blch0);
          blch = blch0\<lparr>bch_ch := ch\<rparr>
      in
      if length (ch_ring ch) = 0 then (Inr None, blch)
      else
        let backends = Pool_Healthy h p in
        if length backends = 0 then (Inr None, blch)
        else
          let maxLoad = max_load h backends (bch_loadFactor blch);
              idx = ring_search ch key
          in (case bounded_walk h ch maxLoad (length backends) idx of
                Some b \<Rightarrow> (Inr (Some b), blch)
              | None \<Rightarrow> (Inr (least_loop h backends None (-1)), blch)))"

definition BoundedLoad_Select :: "bounded_consistent_hash selector" where
  "BoundedLoad_Select h p blch = BoundedLoad_SelectWithKey h p blch ''''"

definition BoundedLoad_Name :: string where
  "BoundedLoad_Name = ''bounded-consistent-hash''"

section \<open>What a rebuild computes\<close>

text \<open>The virtual nodes of a list of backends, in the order the loop adds them.\<close>

definition ring_nodes :: "bstore \<Rightarrow> int \<Rightarrow> bref list \<Rightarrow> (32 word \<times> bref) list" where
  "ring_nodes h vn bs = concat (map (\<lambda>b.
     map (\<lambda>i. (ConsistentHash_hash (vnode_key (b_address (h b)) i), b))
       [0..<nat (vn * effective_weight h b)]) bs)"

definition ring_built :: "bstore \<Rightarrow> bref list \<Rightarrow> consistent_hash \<Rightarrow> bool" where
  "ring_built h bs ch \<longleftrightarrow>
     ch_ring ch = sort (map fst (ring_nodes h (ch_virtualNodes ch) bs)) \<and>
     ch_ringMap ch = map_of (rev (ring_nodes h (ch_virtualNodes ch) bs)) \<and>
     ch_lastKnownSize ch = int (length bs)"

lemma fold_add_vnode:
  "fold (add_vnode b a) is (ring, m) =
     (ring @ map (\<lambda>i. ConsistentHash_hash (vnode_key a i)) is,
      m ++ map_of (rev (map (\<lambda>i. (ConsistentHash_hash (vnode_key a i), b)) is)))"
  by (induction "is" arbitrary: ring m) (simp_all add: add_vnode_def Let_def)

lemma fold_add_backend_vnodes:
  "fold (add_backend_vnodes h vn) bs (ring, m) =
     (ring @ map fst (ring_nodes h vn bs), m ++ map_of (rev (ring_nodes h vn bs)))"
  by (induction bs arbitrary: ring m)
    (simp_all add: add_backend_vnodes_def Let_def fold_add_vnode ring_nodes_def o_def)

lemma rebuildRing_built:
  assumes "int (length (Pool_Healthy h p)) \<noteq> ch_lastKnownSize ch \<or> ch_ring ch = []"
  shows "ring_built h (Pool_Healthy h p) (rebuildRing h p ch)"
  using assms by (auto simp: rebuildRing_def Let_def ring_built_def fold_add_backend_vnodes)

lemma rebuildRing_noop:
  "ch_lastKnownSize ch = int (length (Pool_Healthy h p)) \<Longrightarrow> ch_ring ch \<noteq> [] \<Longrightarrow> rebuildRing h p ch = ch"
  by (simp add: rebuildRing_def Let_def)

lemma rebuildRing_virtualNodes [simp]: "ch_virtualNodes (rebuildRing h p ch) = ch_virtualNodes ch"
  by (simp add: rebuildRing_def Let_def)

lemma ring_nodes_store:
  assumes "\<And>b. b \<in> set bs \<Longrightarrow> b_address (h b) = b_address (h' b) \<and> b_weight (h b) = b_weight (h' b)"
  shows "ring_nodes h vn bs = ring_nodes h' vn bs"
  unfolding ring_nodes_def
  by (intro arg_cong [where f = concat] map_cong refl)
    (use assms in \<open>auto simp: effective_weight_def\<close>)

lemma ring_nodes_filter:
  "ring_nodes h vn (filter P bs) = filter (\<lambda>e. P (snd e)) (ring_nodes h vn bs)"
  by (induction bs) (auto simp: ring_nodes_def filter_empty_conv filter_id_conv)

lemma set_ring_nodes_snd: "0 < vn \<Longrightarrow> snd ` set (ring_nodes h vn bs) = set bs"
proof -
  assume "0 < vn"
  then have "0 < nat (vn * effective_weight h b)" for b
    using effective_weight_pos [of h b] by simp
  then have "\<exists>i. i \<in> {0..<nat (vn * effective_weight h b)}" for b
    by (meson atLeastLessThan_iff le0)
  then show ?thesis by (force simp: ring_nodes_def image_iff)
qed

section \<open>Selection is the successor on the ring\<close>

text \<open>
  The reference definition of consistent hashing: the owner of a hash is the backend of the
  first node at or after it, going round to the least node when there is none.
\<close>

definition successor :: "32 word set \<Rightarrow> 32 word \<Rightarrow> 32 word" where
  "successor S x = (if \<exists>y \<in> S. x \<le> y then Min {y \<in> S. x \<le> y} else Min S)"

definition owner :: "(32 word \<times> bref) list \<Rightarrow> 32 word \<Rightarrow> bref option" where
  "owner nodes x = map_of (rev nodes) (successor (fst ` set nodes) x)"

lemma successor_in: "finite S \<Longrightarrow> S \<noteq> {} \<Longrightarrow> successor S x \<in> S"
proof (cases "\<exists>y \<in> S. x \<le> y")
  case True
  assume "finite S"
  moreover from True have "{y \<in> S. x \<le> y} \<noteq> {}" by auto
  ultimately have "Min {y \<in> S. x \<le> y} \<in> {y \<in> S. x \<le> y}" by (intro Min_in) auto
  with True show ?thesis by (simp add: successor_def)
qed (auto simp: successor_def)

lemma successor_subset:
  assumes "finite S" "T \<subseteq> S" "successor S x \<in> T"
  shows "successor T x = successor S x"
proof (cases "\<exists>y \<in> S. x \<le> y")
  case True
  then have s: "successor S x = Min {y \<in> S. x \<le> y}" by (simp add: successor_def)
  have fin: "finite {y \<in> S. x \<le> y}" "{y \<in> S. x \<le> y} \<noteq> {}" using assms True by auto
  then have mem: "successor S x \<in> {y \<in> S. x \<le> y}" unfolding s by (rule Min_in)
  have "Min {y \<in> T. x \<le> y} = successor S x"
  proof (rule Min_eqI)
    show "finite {y \<in> T. x \<le> y}" using assms by (auto intro: finite_subset)
    show "successor S x \<in> {y \<in> T. x \<le> y}" using mem assms(3) by simp
    fix y assume "y \<in> {y \<in> T. x \<le> y}"
    with assms(2) fin(1) show "successor S x \<le> y" unfolding s by (intro Min_le) auto
  qed
  moreover have "\<exists>y \<in> T. x \<le> y" using mem assms(3) by auto
  ultimately show ?thesis by (simp add: successor_def [of T])
next
  case False
  then have s: "successor S x = Min S" by (simp add: successor_def)
  have "Min T = successor S x"
  proof (rule Min_eqI)
    show "finite T" using assms by (auto intro: finite_subset)
    show "successor S x \<in> T" by (rule assms(3))
    fix y assume "y \<in> T"
    with assms(1,2) show "successor S x \<le> y" unfolding s by (intro Min_le) auto
  qed
  with False assms(2) show ?thesis by (auto simp: successor_def [of T])
qed

lemma ring_search_successor:
  assumes "sorted (ch_ring ch)" and "ch_ring ch \<noteq> []"
  shows "ch_ring ch ! (if ring_search ch key \<ge> length (ch_ring ch) then 0 else ring_search ch key) =
    successor (set (ch_ring ch)) (ConsistentHash_hash key)"
proof -
  let ?r = "ch_ring ch" and ?x = "ConsistentHash_hash key"
  let ?i = "ring_search ch key"
  have mono: "\<forall>a b. a \<le> b \<longrightarrow> b < length ?r \<longrightarrow> ?x \<le> ?r ! a \<longrightarrow> ?x \<le> ?r ! b"
    using assms(1) by (meson order.trans sorted_nth_mono)
  have i: "?i = sort_Search (length ?r) (\<lambda>i. ?x \<le> ?r ! i)"
    by (simp add: ring_search_def Let_def)
  note first = sort_Search_first [OF mono, folded i]
  show ?thesis
  proof (cases "?i < length ?r")
    case True
    with first(3) have ge: "?x \<le> ?r ! ?i" by simp
    have "Min {y \<in> set ?r. ?x \<le> y} = ?r ! ?i"
    proof (rule Min_eqI)
      fix y assume "y \<in> {y \<in> set ?r. ?x \<le> y}"
      then obtain k where k: "k < length ?r" "y = ?r ! k" "?x \<le> ?r ! k"
        by (auto simp: in_set_conv_nth)
      with first(2) have "?i \<le> k" by (meson not_le)
      with k assms(1) show "?r ! ?i \<le> y" by (simp add: sorted_nth_mono)
    qed (use True ge in auto)
    moreover have "\<exists>y \<in> set ?r. ?x \<le> y" using True ge by (meson nth_mem)
    ultimately show ?thesis using True by (simp add: successor_def)
  next
    case False
    with first(2) have none: "\<not> (\<exists>y \<in> set ?r. ?x \<le> y)" by (auto simp: in_set_conv_nth)
    have "Min (set ?r) = ?r ! 0"
      using assms by (intro Min_eqI) (auto simp: in_set_conv_nth intro: sorted_nth_mono)
    with none False show ?thesis by (simp add: successor_def)
  qed
qed

lemma SelectWithKey_owner:
  assumes "ring_built h bs (rebuildRing h p ch)"
  shows "fst (ConsistentHash_SelectWithKey h p ch key) =
    Inr (if ring_nodes h (ch_virtualNodes ch) bs = [] then None
         else owner (ring_nodes h (ch_virtualNodes ch) bs) (ConsistentHash_hash key))"
proof -
  let ?ch = "rebuildRing h p ch" and ?n = "ring_nodes h (ch_virtualNodes ch) bs"
  from assms have ring: "ch_ring ?ch = sort (map fst ?n)" "ch_ringMap ?ch = map_of (rev ?n)"
    by (simp_all add: ring_built_def)
  show ?thesis
  proof (cases "?n = []")
    case True
    then show ?thesis by (simp add: ConsistentHash_SelectWithKey_def Let_def ring)
  next
    case False
    then have ne: "ch_ring ?ch \<noteq> []"
      by (metis ring(1) length_0_conv length_map length_sort)
    have srt: "sorted (ch_ring ?ch)" by (simp add: ring)
    show ?thesis
      using ring_search_successor [OF srt ne, of key] False ne
      by (simp add: ConsistentHash_SelectWithKey_def Let_def owner_def ring)
  qed
qed

lemma owner_in: "nodes \<noteq> [] \<Longrightarrow> \<exists>b. owner nodes x = Some b \<and> b \<in> snd ` set nodes"
proof -
  assume "nodes \<noteq> []"
  then have "successor (fst ` set nodes) x \<in> fst ` set nodes" by (intro successor_in) auto
  then have "map_of (rev nodes) (successor (fst ` set nodes) x) \<noteq> None"
    by (auto simp: map_of_eq_None_iff)
  then show ?thesis unfolding owner_def by (force dest: map_of_SomeD)
qed

lemma owner_filter:
  assumes "distinct (map fst nodes)" and "owner nodes x = Some b" and "P b"
  shows "owner (filter (\<lambda>e. P (snd e)) nodes) x = Some b"
proof -
  let ?s = "successor (fst ` set nodes) x" and ?fs = "filter (\<lambda>e. P (snd e)) nodes"
  have dist: "distinct (map fst (rev ?fs))"
    using assms(1) by (simp add: distinct_map_filter rev_map [symmetric])
  from assms(2) have "(?s, b) \<in> set nodes" unfolding owner_def by (auto dest: map_of_SomeD)
  with assms(3) have mem: "(?s, b) \<in> set ?fs" by simp
  then have "?s \<in> fst ` set ?fs" by force
  then have "successor (fst ` set ?fs) x = ?s" by (intro successor_subset) auto
  with mem dist show ?thesis by (simp add: owner_def map_of_is_SomeI)
qed

section \<open>Balancers selected by a key\<close>

text \<open>
  The interface the proxy looks for with a type switch: a balancer that takes the client's
  key. Any such balancer is also an ordinary one, by selecting with the empty key, which is
  what \<^verbatim>\<open>Select\<close> of both consistent-hash balancers does.
\<close>

locale keyed_balancer =
  fixes select_key :: "bstore \<Rightarrow> pool \<Rightarrow> 's \<Rightarrow> string \<Rightarrow> selection \<times> 's"
    and ok :: "bstore \<Rightarrow> pool \<Rightarrow> 's \<Rightarrow> bool"
  assumes key_some: "\<lbrakk>ok h p s; Pool_Healthy h p \<noteq> []\<rbrakk> \<Longrightarrow>
      \<exists>b. fst (select_key h p s key) = Inr (Some b) \<and> b \<in> set (Pool_Healthy h p)"
    and key_none: "\<lbrakk>ok h p s; Pool_Healthy h p = []\<rbrakk> \<Longrightarrow> fst (select_key h p s key) = Inr None"
    and key_ok: "ok h p s \<Longrightarrow> ok h p (snd (select_key h p s key))"

sublocale keyed_balancer \<subseteq> load_balancer "\<lambda>h p s. select_key h p s key" ok for key
  by unfold_locales (rule key_some key_none; assumption)+

text \<open>
  The states in which the ring reflects the pool: either the next selection rebuilds it, or
  it was built from the backends that are healthy now.
\<close>

definition ch_fresh :: "bstore \<Rightarrow> pool \<Rightarrow> consistent_hash \<Rightarrow> bool" where
  "ch_fresh h p ch \<longleftrightarrow> 0 < ch_virtualNodes ch \<and>
     (int (length (Pool_Healthy h p)) \<noteq> ch_lastKnownSize ch \<or> ch_ring ch = [] \<or>
      ring_built h (Pool_Healthy h p) ch)"

lemma ch_fresh_rebuild:
  assumes "ch_fresh h p ch"
  shows "ring_built h (Pool_Healthy h p) (rebuildRing h p ch)"
  using assms rebuildRing_built [of h p ch] rebuildRing_noop [of ch h p]
  by (cases "int (length (Pool_Healthy h p)) \<noteq> ch_lastKnownSize ch \<or> ch_ring ch = []")
    (auto simp: ch_fresh_def)

lemma ch_fresh_select:
  assumes "ch_fresh h p ch"
  shows "ch_fresh h p (rebuildRing h p ch)"
  using ch_fresh_rebuild [OF assms] assms by (simp add: ch_fresh_def)

lemma ch_fresh_New: "ch_fresh h p (NewConsistentHash h p vn key)"
proof -
  have "ch_fresh h p \<lparr>ch_virtualNodes = (if vn \<le> 0 then DefaultVirtualNodes else vn),
      ch_ring = [], ch_ringMap = Map.empty, ch_lastKnownSize = 0, ch_hashKey = k\<rparr>" for k
    by (simp add: ch_fresh_def)
  then show ?thesis unfolding NewConsistentHash_def by (rule ch_fresh_select)
qed

lemma ring_nodes_eq_Nil: "0 < vn \<Longrightarrow> ring_nodes h vn bs = [] \<longleftrightarrow> bs = []"
  using set_ring_nodes_snd [of vn h bs] by (metis image_is_empty set_empty)

lemma snd_SelectWithKey [simp]: "snd (ConsistentHash_SelectWithKey h p ch key) = rebuildRing h p ch"
  by (simp add: ConsistentHash_SelectWithKey_def Let_def)

interpretation ch: keyed_balancer ConsistentHash_SelectWithKey ch_fresh
proof
  fix h p ch key
  assume fresh: "ch_fresh h p ch" and ne: "Pool_Healthy h p \<noteq> []"
  let ?n = "ring_nodes h (ch_virtualNodes ch) (Pool_Healthy h p)"
  from fresh have vn: "0 < ch_virtualNodes ch" by (simp add: ch_fresh_def)
  with ne have "?n \<noteq> []" by (simp add: ring_nodes_eq_Nil)
  then show "\<exists>b. fst (ConsistentHash_SelectWithKey h p ch key) = Inr (Some b) \<and>
      b \<in> set (Pool_Healthy h p)"
    using SelectWithKey_owner [OF ch_fresh_rebuild [OF fresh], of key] owner_in [of ?n]
      set_ring_nodes_snd [OF vn, of h "Pool_Healthy h p"]
    by auto
next
  fix h p ch key
  assume fresh: "ch_fresh h p ch" and "Pool_Healthy h p = []"
  with SelectWithKey_owner [OF ch_fresh_rebuild [OF fresh], of key]
  show "fst (ConsistentHash_SelectWithKey h p ch key) = Inr None"
    by (simp add: ring_nodes_def)
next
  fix h p ch key
  assume "ch_fresh h p ch"
  then show "ch_fresh h p (snd (ConsistentHash_SelectWithKey h p ch key))"
    by (simp add: ch_fresh_select)
qed

section \<open>Bounded load: facts\<close>

lemma total_connections_acc: "total_connections h bs n = n + (\<Sum>b\<leftarrow>bs. b_activeConnections (h b))"
  by (induction bs arbitrary: n) auto

lemma bounded_walk_within:
  "bounded_walk h ch maxLoad n idx = Some b \<Longrightarrow>
     real_of_int (b_activeConnections (h b)) \<le> maxLoad \<and> b \<in> ran (ch_ringMap ch)"
  by (induction n arbitrary: idx) (auto simp: Let_def ran_def split: option.splits if_splits)

lemma sum_list_lower:
  fixes f :: "'a \<Rightarrow> int"
  shows "\<forall>x \<in> set xs. m \<le> f x \<Longrightarrow> m * int (length xs) \<le> sum_list (map f xs)"
  by (induction xs) (auto simp: algebra_simps)

text \<open>The least loaded backend is within any bound of at least the average.\<close>

lemma least_within_max_load:
  assumes "bs \<noteq> []" and "\<forall>x \<in> set bs. 0 \<le> b_activeConnections (h x)" and "1 \<le> f"
    and "\<forall>x \<in> set bs. b_activeConnections (h b) \<le> b_activeConnections (h x)"
  shows "real_of_int (b_activeConnections (h b)) \<le> max_load h bs f"
proof -
  let ?total = "total_connections h bs 0" and ?n = "real (length bs)"
  have "b_activeConnections (h b) * int (length bs) \<le> ?total"
    using sum_list_lower [of bs "b_activeConnections (h b)" "\<lambda>b. b_activeConnections (h b)"] assms(4)
    by (simp add: total_connections_acc)
  then have "real_of_int (b_activeConnections (h b) * int (length bs)) \<le> real_of_int ?total"
    by (simp only: of_int_le_iff)
  moreover have n: "0 < ?n" using assms(1) by simp
  ultimately have avg: "real_of_int (b_activeConnections (h b)) \<le> real_of_int ?total / ?n"
    by (simp add: pos_le_divide_eq)
  have "0 \<le> ?total"
    using sum_list_lower [of bs 0 "\<lambda>b. b_activeConnections (h b)"] assms(2)
    by (simp add: total_connections_acc)
  with n have "real_of_int ?total / ?n \<le> real_of_int ?total / ?n * f"
    using mult_left_mono [OF assms(3), of "real_of_int ?total / ?n"] by simp
  with avg show ?thesis by (simp add: max_load_def Let_def)
qed

definition bch_fresh :: "bstore \<Rightarrow> pool \<Rightarrow> bounded_consistent_hash \<Rightarrow> bool" where
  "bch_fresh h p blch \<longleftrightarrow> ch_fresh h p (bch_ch blch)"

lemma ran_ringMap_built:
  assumes "ring_built h bs ch"
  shows "ran (ch_ringMap ch) \<subseteq> set bs"
proof -
  have "snd ` set (ring_nodes h vn bs) \<subseteq> set bs" for vn
    by (auto simp: ring_nodes_def)
  moreover have "ran (ch_ringMap ch) \<subseteq> snd ` set (ring_nodes h (ch_virtualNodes ch) bs)"
    using assms by (force simp: ring_built_def ran_def dest: map_of_SomeD)
  ultimately show ?thesis by blast
qed

lemma snd_BoundedLoad [simp]:
  "snd (BoundedLoad_SelectWithKey h p s key) = s\<lparr>bch_ch := rebuildRing h p (bch_ch s)\<rparr>"
  by (simp add: BoundedLoad_SelectWithKey_def Let_def split: option.splits)

lemma BoundedLoad_cases:
  assumes "bch_fresh h p s" and ne: "Pool_Healthy h p \<noteq> []"
  obtains (walk) b where "fst (BoundedLoad_SelectWithKey h p s key) = Inr (Some b)"
      "real_of_int (b_activeConnections (h b)) \<le> max_load h (Pool_Healthy h p) (bch_loadFactor s)"
      "b \<in> set (Pool_Healthy h p)"
  | (least) "fst (BoundedLoad_SelectWithKey h p s key) =
      Inr (least_loop h (Pool_Healthy h p) None (-1))"
proof -
  let ?ch = "rebuildRing h p (bch_ch s)" and ?bs = "Pool_Healthy h p"
  from assms(1) have fresh: "ch_fresh h p (bch_ch s)" by (simp add: bch_fresh_def)
  then have built: "ring_built h ?bs ?ch" by (rule ch_fresh_rebuild)
  from fresh have vn: "0 < ch_virtualNodes ?ch" by (simp add: ch_fresh_def)
  have "ch_ring ?ch = sort (map fst (ring_nodes h (ch_virtualNodes ?ch) ?bs))"
    using built by (simp add: ring_built_def)
  then have ring: "ch_ring ?ch \<noteq> []"
    using ring_nodes_eq_Nil [OF vn, of h ?bs] ne
    by (metis length_0_conv length_map length_sort)
  show thesis
  proof (cases "bounded_walk h ?ch (max_load h ?bs (bch_loadFactor s)) (length ?bs) (ring_search ?ch key)")
    case None
    with ring ne show thesis by (intro least) (simp add: BoundedLoad_SelectWithKey_def Let_def)
  next
    case (Some b)
    from bounded_walk_within [OF this] ran_ringMap_built [OF built] ring ne Some show thesis
      by (intro walk [of b]) (auto simp: BoundedLoad_SelectWithKey_def Let_def)
  qed
qed

interpretation bch: keyed_balancer BoundedLoad_SelectWithKey bch_fresh
proof
  fix h p s key
  assume fresh: "bch_fresh h p s" and ne: "Pool_Healthy h p \<noteq> []"
  from ne obtain c cs where cs: "Pool_Healthy h p = c # cs" by (auto simp: neq_Nil_conv)
  obtain b where b: "least_loop h (c # cs) None (-1) = Some b"
    using least_loop_Some [of h cs c] by (auto simp: Let_def)
  with least_loop_in [OF b] cs have "b \<in> set (Pool_Healthy h p)" by simp
  with fresh ne show "\<exists>b. fst (BoundedLoad_SelectWithKey h p s key) = Inr (Some b) \<and>
      b \<in> set (Pool_Healthy h p)"
    by (cases rule: BoundedLoad_cases [where key = key]) (use b cs in auto)
next
  fix h p s key
  assume "bch_fresh h p s" and "Pool_Healthy h p = []"
  then show "fst (BoundedLoad_SelectWithKey h p s key) = Inr None"
    by (simp add: BoundedLoad_SelectWithKey_def Let_def)
next
  fix h p s key
  assume "bch_fresh h p s"
  then show "bch_fresh h p (snd (BoundedLoad_SelectWithKey h p s key))"
    by (simp add: bch_fresh_def ch_fresh_select)
qed

section \<open>Properties\<close>







text \<open>
  The rebuild test compares only the number of healthy backends. When one backend of a
  pool of two fails while the other recovers, the number stays one, the ring is not rebuilt,
  and every key is still sent to the backend that is now unhealthy.
\<close>

theorem stale_ring_selects_unhealthy:
  assumes "p_backends p = [a, b]" and "a \<noteq> b" and "b_healthy (h a)" and "\<not> b_healthy (h b)"
  shows "let ch = NewConsistentHash h p vn hashKey; h' = MarkUnhealthy a (MarkHealthy b h)
    in fst (ConsistentHash_SelectWithKey h' p ch key) = Inr (Some a) \<and>
       \<not> b_healthy (h' a) \<and> b_healthy (h' b)"
proof -
  let ?ch = "NewConsistentHash h p vn hashKey" and ?h' = "MarkUnhealthy a (MarkHealthy b h)"
  let ?n = "ring_nodes h (ch_virtualNodes ?ch) [a]"
  have fresh: "ch_fresh h p ?ch" by (rule ch_fresh_New)
  then have vn: "0 < ch_virtualNodes ?ch" by (simp add: ch_fresh_def)
  have healthy: "Pool_Healthy h p = [a]" "Pool_Healthy ?h' p = [b]"
    using assms by (simp_all add: Pool_Healthy_def)
  have built: "ring_built h [a] ?ch"
    unfolding NewConsistentHash_def healthy(1) [symmetric] by (rule rebuildRing_built) simp
  have n: "?n \<noteq> []" using vn by (simp add: ring_nodes_eq_Nil)
  then have ring: "ch_ring ?ch \<noteq> []"
    using built by (metis length_0_conv length_map length_sort ring_built_def)
  have noop: "rebuildRing ?h' p ?ch = ?ch" "rebuildRing h p ?ch = ?ch"
    using ring built by (auto intro!: rebuildRing_noop simp: healthy ring_built_def)
  have "owner ?n (ConsistentHash_hash key) = Some a"
    using owner_in [OF n, of "ConsistentHash_hash key"] by (auto simp: ring_nodes_def)
  then have "fst (ConsistentHash_SelectWithKey h p ?ch key) = Inr (Some a)"
    using SelectWithKey_owner [of h "[a]" p ?ch key] built noop(2) n by simp
  then have "fst (ConsistentHash_SelectWithKey ?h' p ?ch key) = Inr (Some a)"
    by (simp add: ConsistentHash_SelectWithKey_def noop Let_def)
  with assms(2) show ?thesis by (simp add: Let_def)
qed

theorem stale_ring_selects_unhealthy_witness:
  "fst (ConsistentHash_SelectWithKey (MarkUnhealthy 0 (MarkHealthy 1 (MarkUnhealthy 1 two_backends)))
      two_pool (NewConsistentHash (MarkUnhealthy 1 two_backends) two_pool 2 '''') ''q'') = Inr (Some 0)"
  using stale_ring_selects_unhealthy [of two_pool 0 1 "MarkUnhealthy 1 two_backends" 2 "''''" "''q''"]
  by (simp add: Let_def)

end
