(* ===== verification/Affinity.thy ===== *)
theory Affinity
  imports ConsistentHashing
begin

text \<open>
  Package \<^verbatim>\<open>pkg/lb\<close>, file \<^verbatim>\<open>affinity.go\<close>: sticky sessions wrapped around any balancer. The
  wrapped balancer is the argument \<open>select\<close> with its state in \<open>sa_balancer\<close>; sessions are a Go
  map from client address to the bound backend and the time of its last use. A selection
  reads the clock twice (\<open>now1\<close> for the validity test, \<open>now2\<close> for the stored time).
\<close>

record session =
  sess_backend :: bref
  sess_lastAccess :: time

record 's session_affinity =
  sa_balancer :: 's
  sa_sessions :: "(string, session) gomap"
  sa_timeout :: duration
  sa_stopped :: bool

definition NewSessionAffinity :: "'s \<Rightarrow> duration \<Rightarrow> 's session_affinity" where
  "NewSessionAffinity balancer timeout =
     \<lparr>sa_balancer = balancer, sa_sessions = [],
      sa_timeout = (if timeout \<le> 0 then 10 * Minute else timeout), sa_stopped = False\<rparr>"

definition session_valid :: "bstore \<Rightarrow> time \<Rightarrow> duration \<Rightarrow> session \<Rightarrow> bool" where
  "session_valid h now timeout sess \<longleftrightarrow>
     now - sess_lastAccess sess < timeout \<and> b_healthy (h (sess_backend sess))"

definition select_new ::
    "'s selector \<Rightarrow> time \<Rightarrow> string \<Rightarrow> 's session_affinity selector" where
  "select_new select now2 clientIP h p sa =
     (let (r, bal) = select h p (sa_balancer sa);
          sa = sa\<lparr>sa_balancer := bal\<rparr>
      in case r of
           Inr (Some b) \<Rightarrow>
             (r, sa\<lparr>sa_sessions := gm_set clientIP \<lparr>sess_backend = b, sess_lastAccess = now2\<rparr> (sa_sessions sa)\<rparr>)
         | _ \<Rightarrow> (r, sa))"

definition SelectWithClientIP ::
    "'s selector \<Rightarrow> time \<Rightarrow> time \<Rightarrow> string \<Rightarrow> 's session_affinity selector" where
  "SelectWithClientIP select now1 now2 clientIP h p sa =
     (case gm_get (sa_sessions sa) clientIP of
        Some sess \<Rightarrow>
          if session_valid h now1 (sa_timeout sa) sess then
            (Inr (Some (sess_backend sess)),
             sa\<lparr>sa_sessions := gm_set clientIP (sess\<lparr>sess_lastAccess := now2\<rparr>) (sa_sessions sa)\<rparr>)
          else select_new select now2 clientIP h p sa
      | None \<Rightarrow> select_new select now2 clientIP h p sa)"

definition SessionAffinity_Select :: "'s selector \<Rightarrow> 's session_affinity selector" where
  "SessionAffinity_Select select h p sa =
     (let (r, bal) = select h p (sa_balancer sa) in (r, sa\<lparr>sa_balancer := bal\<rparr>))"

definition SessionAffinity_Name :: "string \<Rightarrow> string" where
  "SessionAffinity_Name name = name @ ''-with-affinity''"

definition SessionAffinity_cleanup :: "time \<Rightarrow> 's session_affinity \<Rightarrow> 's session_affinity" where
  "SessionAffinity_cleanup now sa =
     sa\<lparr>sa_sessions := gm_filter (\<lambda>_ sess. \<not> now - sess_lastAccess sess > sa_timeout sa) (sa_sessions sa)\<rparr>"

definition ClearSession :: "string \<Rightarrow> 's session_affinity \<Rightarrow> 's session_affinity" where
  "ClearSession clientIP sa = sa\<lparr>sa_sessions := gm_del clientIP (sa_sessions sa)\<rparr>"

definition ClearAllSessions :: "'s session_affinity \<Rightarrow> 's session_affinity" where
  "ClearAllSessions sa = sa\<lparr>sa_sessions := []\<rparr>"

definition SessionCount :: "'s session_affinity \<Rightarrow> nat" where
  "SessionCount sa = length (sa_sessions sa)"

definition SessionAffinity_Stop :: "'s session_affinity \<Rightarrow> go_panic + 's session_affinity" where
  "SessionAffinity_Stop sa =
     (if sa_stopped sa then Inl CloseOfClosed else Inr (sa\<lparr>sa_stopped := True\<rparr>))"

section \<open>Facts\<close>

definition sessions_wf :: "'s session_affinity \<Rightarrow> bool" where
  "sessions_wf sa \<longleftrightarrow> gm_wf (sa_sessions sa)"

lemma select_new_sessions:
  "gm_get (sa_sessions (snd (select_new select now2 ip h p sa))) ip' =
     (case fst (select h p (sa_balancer sa)) of
        Inr (Some b) \<Rightarrow>
          if ip' = ip then Some \<lparr>sess_backend = b, sess_lastAccess = now2\<rparr> else gm_get (sa_sessions sa) ip'
      | _ \<Rightarrow> gm_get (sa_sessions sa) ip')"
  by (auto simp: select_new_def split_beta Let_def split: sum.splits option.splits)

lemma select_new_fst [simp]: "fst (select_new select now2 ip h p sa) = fst (select h p (sa_balancer sa))"
  by (auto simp: select_new_def split_beta Let_def split: sum.splits option.splits)

lemma select_timeout [simp]:
  "sa_timeout (snd (select_new select now2 ip h p sa)) = sa_timeout sa"
  "sa_timeout (snd (SelectWithClientIP select now1 now2 ip h p sa)) = sa_timeout sa"
  "sa_timeout (snd (SessionAffinity_Select select h p sa)) = sa_timeout sa"
  by (auto simp: select_new_def SelectWithClientIP_def SessionAffinity_Select_def split_beta Let_def
      split: sum.splits option.splits)

lemma select_wf:
  "sessions_wf sa \<Longrightarrow> sessions_wf (snd (SelectWithClientIP select now1 now2 ip h p sa))"
  by (auto simp: SelectWithClientIP_def select_new_def sessions_wf_def split_beta Let_def
      split: sum.splits option.splits)

lemma select_other:
  "ip' \<noteq> ip \<Longrightarrow> gm_get (sa_sessions (snd (SelectWithClientIP select now1 now2 ip h p sa))) ip' =
     gm_get (sa_sessions sa) ip'"
  by (auto simp: SelectWithClientIP_def select_new_sessions split: sum.splits option.splits)

lemma select_binds:
  "fst (SelectWithClientIP select now1 now2 ip h p sa) = Inr (Some b) \<Longrightarrow>
   gm_get (sa_sessions (snd (SelectWithClientIP select now1 now2 ip h p sa))) ip =
     Some \<lparr>sess_backend = b, sess_lastAccess = now2\<rparr>"
  by (auto simp: SelectWithClientIP_def select_new_sessions split: sum.splits option.splits if_splits)

lemma select_bound:
  "\<lbrakk>gm_get (sa_sessions sa) ip = Some \<lparr>sess_backend = b, sess_lastAccess = t\<rparr>;
    now1 - t < sa_timeout sa; b_healthy (h b)\<rbrakk> \<Longrightarrow>
   fst (SelectWithClientIP select now1 now2 ip h p sa) = Inr (Some b)"
  by (simp add: SelectWithClientIP_def session_valid_def)

section \<open>Affinity over any balancer is a balancer\<close>

definition sessions_in_pool :: "pool \<Rightarrow> 's session_affinity \<Rightarrow> bool" where
  "sessions_in_pool p sa \<longleftrightarrow>
     (\<forall>ip sess. gm_get (sa_sessions sa) ip = Some sess \<longrightarrow> sess_backend sess \<in> set (p_backends p))"

context load_balancer
begin

lemma affinity_is_balancer:
  "load_balancer (SelectWithClientIP select now1 now2 ip)
     (\<lambda>h p sa. ok h p (sa_balancer sa) \<and> sessions_in_pool p sa)"
proof
  fix h p and sa :: "'s session_affinity"
  assume ok: "ok h p (sa_balancer sa) \<and> sessions_in_pool p sa" and ne: "Pool_Healthy h p \<noteq> []"
  from select_some [of h p "sa_balancer sa"] ok ne
  show "\<exists>b. fst (SelectWithClientIP select now1 now2 ip h p sa) = Inr (Some b) \<and> b \<in> set (Pool_Healthy h p)"
    by (auto simp: SelectWithClientIP_def session_valid_def sessions_in_pool_def split: option.splits)
next
  fix h p and sa :: "'s session_affinity"
  assume ok: "ok h p (sa_balancer sa) \<and> sessions_in_pool p sa" and none: "Pool_Healthy h p = []"
  then have "\<not> session_valid h now1 (sa_timeout sa) sess" if "gm_get (sa_sessions sa) ip = Some sess" for sess
    using that by (auto simp: session_valid_def sessions_in_pool_def Pool_Healthy_def filter_empty_conv)
  with select_none [of h p "sa_balancer sa"] ok none
  show "fst (SelectWithClientIP select now1 now2 ip h p sa) = Inr None"
    by (auto simp: SelectWithClientIP_def split: option.splits)
qed

lemma affinity_keeps_sessions_in_pool:
  assumes "ok h p (sa_balancer sa)" and "sessions_in_pool p sa"
  shows "sessions_in_pool p (snd (SelectWithClientIP select now1 now2 ip h p sa))"
  unfolding sessions_in_pool_def
proof (intro allI impI)
  fix ip' sess
  assume get: "gm_get (sa_sessions (snd (SelectWithClientIP select now1 now2 ip h p sa))) ip' = Some sess"
  show "sess_backend sess \<in> set (p_backends p)"
  proof (cases "fst (SelectWithClientIP select now1 now2 ip h p sa) = Inr (Some (sess_backend sess)) \<and> ip' = ip")
    case True
    with load_balancer.select_healthy [OF affinity_is_balancer, of h p sa now1 now2 ip "sess_backend sess"] assms
    show ?thesis by simp
  next
    case False
    with get have "gm_get (sa_sessions sa) ip' = Some sess"
      by (auto simp: SelectWithClientIP_def select_new_sessions split: sum.splits option.splits if_splits)
    with assms(2) show ?thesis by (auto simp: sessions_in_pool_def)
  qed
qed

end

interpretation sa_rr: load_balancer "SelectWithClientIP RoundRobin_Select now1 now2 ip"
  "\<lambda>h p sa. True \<and> sessions_in_pool p sa" for now1 now2 ip
  by (rule rr.affinity_is_balancer)

section \<open>Sequences of calls\<close>

datatype sa_event =
    SA_Client bstore pool time time string
  | SA_Plain bstore pool
  | SA_Cleanup time
  | SA_Clear string
  | SA_ClearAll

fun sa_step :: "'s selector \<Rightarrow> 's session_affinity \<Rightarrow> sa_event \<Rightarrow> 's session_affinity" where
  "sa_step select sa (SA_Client h p now1 now2 ip) = snd (SelectWithClientIP select now1 now2 ip h p sa)"
| "sa_step select sa (SA_Plain h p) = snd (SessionAffinity_Select select h p sa)"
| "sa_step select sa (SA_Cleanup now) = SessionAffinity_cleanup now sa"
| "sa_step select sa (SA_Clear ip) = ClearSession ip sa"
| "sa_step select sa SA_ClearAll = ClearAllSessions sa"

text \<open>The event leaves the session of \<open>ip\<close>, last used at \<open>t\<close>, alone.\<close>

fun spares :: "string \<Rightarrow> time \<Rightarrow> duration \<Rightarrow> sa_event \<Rightarrow> bool" where
  "spares ip t timeout (SA_Client h p now1 now2 ip') \<longleftrightarrow> ip' \<noteq> ip"
| "spares ip t timeout (SA_Plain h p) \<longleftrightarrow> True"
| "spares ip t timeout (SA_Cleanup now) \<longleftrightarrow> now - t \<le> timeout"
| "spares ip t timeout (SA_Clear ip') \<longleftrightarrow> ip' \<noteq> ip"
| "spares ip t timeout SA_ClearAll \<longleftrightarrow> False"

interpretation sa_calls: event_component "sa_step select" sessions_wf for select
proof
  fix s :: "'a session_affinity" and e
  assume "sessions_wf s"
  then show "sessions_wf (sa_step select s e)"
    by (cases e) (auto simp: select_wf, auto simp: sessions_wf_def SessionAffinity_Select_def
        SessionAffinity_cleanup_def ClearSession_def ClearAllSessions_def split_beta)
qed

lemma sa_step_timeout [simp]: "sa_timeout (sa_step select sa e) = sa_timeout sa"
  by (cases e) (simp_all add: SessionAffinity_cleanup_def ClearSession_def ClearAllSessions_def)

lemma sa_run_timeout [simp]: "sa_timeout (run (sa_step select) sa es) = sa_timeout sa"
  by (induction es arbitrary: sa) auto

lemma sa_step_spares:
  assumes "sessions_wf sa" and "spares ip t (sa_timeout sa) e"
    and "gm_get (sa_sessions sa) ip = Some \<lparr>sess_backend = b, sess_lastAccess = t\<rparr>"
  shows "gm_get (sa_sessions (sa_step select sa e)) ip = Some \<lparr>sess_backend = b, sess_lastAccess = t\<rparr>"
  using assms
  by (cases e) (auto simp: select_other SessionAffinity_Select_def SessionAffinity_cleanup_def
      ClearSession_def split_beta sessions_wf_def gm_get_filter)

lemma sa_run_spares:
  assumes "sessions_wf sa" and "\<forall>e \<in> set es. spares ip t (sa_timeout sa) e"
    and "gm_get (sa_sessions sa) ip = Some \<lparr>sess_backend = b, sess_lastAccess = t\<rparr>"
  shows "gm_get (sa_sessions (run (sa_step select) sa es)) ip = Some \<lparr>sess_backend = b, sess_lastAccess = t\<rparr>"
  using assms
  by (induction es arbitrary: sa) (auto simp: sa_step_spares sa_calls.step_inv)

section \<open>Properties\<close>



text \<open>
  Affinity keeps the contract of the balancer it wraps. Around round-robin, while every
  session is bound to a member of the pool, a selection returns a healthy backend of the
  pool, it returns nil exactly when none is healthy, and it keeps the sessions bound to
  members of the pool.
\<close>

theorem affinity_keeps_contract:
  assumes "sessions_in_pool p sa"
  shows "(fst (SelectWithClientIP RoundRobin_Select now1 now2 ip h p sa) = Inr None \<longleftrightarrow>
      Pool_Healthy h p = []) \<and>
    (\<forall>b. fst (SelectWithClientIP RoundRobin_Select now1 now2 ip h p sa) = Inr (Some b) \<longrightarrow>
      b \<in> set (p_backends p) \<and> b_healthy (h b)) \<and>
    sessions_in_pool p (snd (SelectWithClientIP RoundRobin_Select now1 now2 ip h p sa))"
  using assms sa_rr.select_nil_iff [of p sa now1 now2 ip h] sa_rr.select_healthy [of p sa now1 now2 ip h]
    rr.affinity_keeps_sessions_in_pool [of p sa now1 now2 ip h]
  by auto

theorem affinity_keeps_contract_witness:
  "fst (SelectWithClientIP RoundRobin_Select 5 5 ''c'' two_backends two_pool
     (NewSessionAffinity NewRoundRobin 0)) \<noteq> Inr None"
  using affinity_keeps_contract [of two_pool "NewSessionAffinity NewRoundRobin 0" 5 5 "''c''" two_backends]
  by (simp add: sessions_in_pool_def NewSessionAffinity_def)

end
