(* ===== verification/StateMachine.thy ===== *)
theory StateMachine
  imports Backends
begin

text \<open>
  Package \<^verbatim>\<open>pkg/backend\<close>, file \<^verbatim>\<open>state.go\<close>: the health state machine of one backend. Its
  operations act on the machine and on the store that holds the backend's health flag, and
  return the notifications sent to the registered listeners, in order. The 64-bit counters
  of checks and requests are unbounded integers. \<open>'l\<close> is the type of listeners.
\<close>

section \<open>States and metrics\<close>

datatype bstate = StateHealthy | StateUnhealthy | StateDraining

fun State_String :: "bstate \<Rightarrow> string" where
  "State_String StateHealthy = ''healthy''"
| "State_String StateUnhealthy = ''unhealthy''"
| "State_String StateDraining = ''draining''"

record health_metrics =
  hm_consecutiveSuccesses :: int
  hm_consecutiveFailures :: int
  hm_totalSuccesses :: int
  hm_totalFailures :: int
  hm_lastCheckTime :: time
  hm_lastStateChange :: time
  hm_totalRequests :: int
  hm_failedRequests :: int
  hm_totalResponseTime :: int

record 'l state_machine =
  sm_backend :: bref
  sm_state :: bstate
  sm_metrics :: health_metrics
  sm_healthyThreshold :: int
  sm_unhealthyThreshold :: int
  sm_listeners :: "'l list"

type_synonym 'l notice = "'l \<times> bref \<times> bstate \<times> bstate"
type_synonym 'l sm_result = "'l state_machine \<times> bstore \<times> 'l notice list"

definition NewStateMachine :: "time \<Rightarrow> bref \<Rightarrow> int \<Rightarrow> int \<Rightarrow> 'l state_machine" where
  "NewStateMachine now b healthyThreshold unhealthyThreshold =
     \<lparr>sm_backend = b, sm_state = StateHealthy,
      sm_metrics = \<lparr>hm_consecutiveSuccesses = 0, hm_consecutiveFailures = 0,
        hm_totalSuccesses = 0, hm_totalFailures = 0, hm_lastCheckTime = now,
        hm_lastStateChange = now, hm_totalRequests = 0, hm_failedRequests = 0,
        hm_totalResponseTime = 0\<rparr>,
      sm_healthyThreshold = healthyThreshold, sm_unhealthyThreshold = unhealthyThreshold,
      sm_listeners = []\<rparr>"

definition StateMachine_IsHealthy :: "'l state_machine \<Rightarrow> bool" where
  "StateMachine_IsHealthy sm \<longleftrightarrow> sm_state sm = StateHealthy"

definition IsDraining :: "'l state_machine \<Rightarrow> bool" where
  "IsDraining sm \<longleftrightarrow> sm_state sm = StateDraining"

section \<open>Transitions\<close>

definition transitionTo :: "time \<Rightarrow> bstate \<Rightarrow> 'l state_machine \<Rightarrow> bstore \<Rightarrow> 'l sm_result" where
  "transitionTo now newState sm h =
     (let oldState = sm_state sm in
      if oldState = newState then (sm, h, [])
      else
        (sm\<lparr>sm_state := newState, sm_metrics := (sm_metrics sm)\<lparr>hm_lastStateChange := now\<rparr>\<rparr>,
         (if newState = StateHealthy then MarkHealthy (sm_backend sm) h
          else MarkUnhealthy (sm_backend sm) h),
         map (\<lambda>l. (l, sm_backend sm, oldState, newState)) (sm_listeners sm)))"

definition RecordSuccess :: "time \<Rightarrow> 'l state_machine \<Rightarrow> bstore \<Rightarrow> 'l sm_result" where
  "RecordSuccess now sm h =
     (let m = sm_metrics sm;
          m' = m\<lparr>hm_consecutiveSuccesses := hm_consecutiveSuccesses m + 1,
                 hm_consecutiveFailures := 0,
                 hm_totalSuccesses := hm_totalSuccesses m + 1,
                 hm_lastCheckTime := now\<rparr>;
          sm' = sm\<lparr>sm_metrics := m'\<rparr>
      in if hm_consecutiveSuccesses m' \<ge> sm_healthyThreshold sm'
         then transitionTo now StateHealthy sm' h else (sm', h, []))"

definition RecordFailure :: "time \<Rightarrow> 'l state_machine \<Rightarrow> bstore \<Rightarrow> 'l sm_result" where
  "RecordFailure now sm h =
     (let m = sm_metrics sm;
          m' = m\<lparr>hm_consecutiveFailures := hm_consecutiveFailures m + 1,
                 hm_consecutiveSuccesses := 0,
                 hm_totalFailures := hm_totalFailures m + 1,
                 hm_lastCheckTime := now\<rparr>;
          sm' = sm\<lparr>sm_metrics := m'\<rparr>
      in if hm_consecutiveFailures m' \<ge> sm_unhealthyThreshold sm'
         then transitionTo now StateUnhealthy sm' h else (sm', h, []))"

definition RecordRequest :: "bool \<Rightarrow> duration \<Rightarrow> 'l state_machine \<Rightarrow> 'l state_machine" where
  "RecordRequest success responseTime sm =
     (let m = sm_metrics sm; m' = m\<lparr>hm_totalRequests := hm_totalRequests m + 1\<rparr>
      in sm\<lparr>sm_metrics :=
        (if success then m'\<lparr>hm_totalResponseTime := hm_totalResponseTime m + responseTime\<rparr>
         else m'\<lparr>hm_failedRequests := hm_failedRequests m + 1\<rparr>)\<rparr>)"

definition StartDraining :: "time \<Rightarrow> 'l state_machine \<Rightarrow> bstore \<Rightarrow> 'l sm_result" where
  "StartDraining now sm h = transitionTo now StateDraining sm h"

definition ForceHealthy :: "time \<Rightarrow> 'l state_machine \<Rightarrow> bstore \<Rightarrow> 'l sm_result" where
  "ForceHealthy now sm h =
     transitionTo now StateHealthy
       (sm\<lparr>sm_metrics := (sm_metrics sm)\<lparr>hm_consecutiveSuccesses := sm_healthyThreshold sm,
          hm_consecutiveFailures := 0\<rparr>\<rparr>) h"

definition ForceUnhealthy :: "time \<Rightarrow> 'l state_machine \<Rightarrow> bstore \<Rightarrow> 'l sm_result" where
  "ForceUnhealthy now sm h =
     transitionTo now StateUnhealthy
       (sm\<lparr>sm_metrics := (sm_metrics sm)\<lparr>hm_consecutiveFailures := sm_unhealthyThreshold sm,
          hm_consecutiveSuccesses := 0\<rparr>\<rparr>) h"

definition AddListener :: "'l \<Rightarrow> 'l state_machine \<Rightarrow> 'l state_machine" where
  "AddListener l sm = sm\<lparr>sm_listeners := sm_listeners sm @ [l]\<rparr>"

definition GetErrorRate :: "'l state_machine \<Rightarrow> real" where
  "GetErrorRate sm =
     (let total = hm_totalRequests (sm_metrics sm) in
      if total = 0 then 0
      else real_of_int (hm_failedRequests (sm_metrics sm)) / real_of_int total)"

definition GetAverageResponseTime :: "'l state_machine \<Rightarrow> duration" where
  "GetAverageResponseTime sm =
     (let total = hm_totalRequests (sm_metrics sm) - hm_failedRequests (sm_metrics sm) in
      if total = 0 then 0 else go_quot (hm_totalResponseTime (sm_metrics sm)) total)"

definition StateMachine_Reset :: "time \<Rightarrow> 'l state_machine \<Rightarrow> 'l state_machine" where
  "StateMachine_Reset now sm = sm\<lparr>sm_metrics :=
     \<lparr>hm_consecutiveSuccesses = 0, hm_consecutiveFailures = 0, hm_totalSuccesses = 0,
      hm_totalFailures = 0, hm_lastCheckTime = now, hm_lastStateChange = now,
      hm_totalRequests = 0, hm_failedRequests = 0, hm_totalResponseTime = 0\<rparr>\<rparr>"

section \<open>Sequences of calls\<close>

datatype sm_event =
    SM_Success time
  | SM_Failure time
  | SM_Request bool duration
  | SM_Drain time
  | SM_ForceHealthy time
  | SM_ForceUnhealthy time
  | SM_Reset time

fun sm_apply :: "'l state_machine \<times> bstore \<Rightarrow> sm_event \<Rightarrow> 'l sm_result" where
  "sm_apply (sm, h) (SM_Success now) = RecordSuccess now sm h"
| "sm_apply (sm, h) (SM_Failure now) = RecordFailure now sm h"
| "sm_apply (sm, h) (SM_Request ok d) = (RecordRequest ok d sm, h, [])"
| "sm_apply (sm, h) (SM_Drain now) = StartDraining now sm h"
| "sm_apply (sm, h) (SM_ForceHealthy now) = ForceHealthy now sm h"
| "sm_apply (sm, h) (SM_ForceUnhealthy now) = ForceUnhealthy now sm h"
| "sm_apply (sm, h) (SM_Reset now) = (StateMachine_Reset now sm, h, [])"

definition sm_step :: "'l state_machine \<times> bstore \<Rightarrow> sm_event \<Rightarrow> 'l state_machine \<times> bstore" where
  "sm_step s e = (let (sm, h, _) = sm_apply s e in (sm, h))"

lemmas sm_ops = RecordSuccess_def RecordFailure_def RecordRequest_def StartDraining_def
  ForceHealthy_def ForceUnhealthy_def StateMachine_Reset_def transitionTo_def Let_def

section \<open>Invariants\<close>

text \<open>The backend's flag says what the machine's state says.\<close>

definition flag_agrees :: "'l state_machine \<times> bstore \<Rightarrow> bool" where
  "flag_agrees s \<longleftrightarrow>
     (b_healthy (snd s (sm_backend (fst s))) \<longleftrightarrow> sm_state (fst s) = StateHealthy)"

text \<open>The counters of a machine: one of the two streaks is zero, requests are counted.\<close>

definition metrics_ok :: "health_metrics \<Rightarrow> bool" where
  "metrics_ok m \<longleftrightarrow>
     0 \<le> hm_failedRequests m \<and> hm_failedRequests m \<le> hm_totalRequests m \<and>
     0 \<le> hm_consecutiveSuccesses m \<and> 0 \<le> hm_consecutiveFailures m \<and>
     (hm_consecutiveSuccesses m = 0 \<or> hm_consecutiveFailures m = 0)"

definition sm_inv :: "'l state_machine \<times> bstore \<Rightarrow> bool" where
  "sm_inv s \<longleftrightarrow> flag_agrees s \<and> metrics_ok (sm_metrics (fst s)) \<and>
     0 \<le> sm_healthyThreshold (fst s) \<and> 0 \<le> sm_unhealthyThreshold (fst s)"

lemma sm_step_inv: "sm_inv s \<Longrightarrow> sm_inv (sm_step s e)"
  by (cases s; cases e)
    (auto simp: sm_inv_def sm_step_def sm_ops flag_agrees_def metrics_ok_def)

interpretation sm_calls: event_component sm_step sm_inv
  by unfold_locales (rule sm_step_inv)

lemma sm_step_static [simp]:
  "sm_backend (fst (sm_step s e)) = sm_backend (fst s)"
  "sm_listeners (fst (sm_step s e)) = sm_listeners (fst s)"
  "sm_healthyThreshold (fst (sm_step s e)) = sm_healthyThreshold (fst s)"
  "sm_unhealthyThreshold (fst (sm_step s e)) = sm_unhealthyThreshold (fst s)"
  by (cases s; cases e; simp add: sm_step_def sm_ops)+

lemma sm_step_frame: "b \<noteq> sm_backend (fst s) \<Longrightarrow> snd (sm_step s e) b = snd s b"
  by (cases s; cases e) (auto simp: sm_step_def sm_ops MarkHealthy_def MarkUnhealthy_def)

lemma NewStateMachine_simps [simp]:
  "sm_backend (NewStateMachine now b ht ut) = b"
  "sm_state (NewStateMachine now b ht ut) = StateHealthy"
  "sm_healthyThreshold (NewStateMachine now b ht ut) = ht"
  "sm_unhealthyThreshold (NewStateMachine now b ht ut) = ut"
  by (simp_all add: NewStateMachine_def)

lemma NewStateMachine_inv:
  "b_healthy (h b) \<Longrightarrow> 0 \<le> ht \<Longrightarrow> 0 \<le> ut \<Longrightarrow> sm_inv (NewStateMachine now b ht ut, h)"
  by (simp add: sm_inv_def NewStateMachine_def flag_agrees_def metrics_ok_def)

section \<open>The thresholds as windows over the results\<close>

text \<open>
  The reference definition looks at the results themselves, latest first: the latest
  success streak as long as the healthy threshold makes the backend healthy, the latest
  failure streak as long as the unhealthy threshold makes it unhealthy, anything shorter
  leaves it as it was.
\<close>

fun window_healthy :: "int \<Rightarrow> int \<Rightarrow> bool list \<Rightarrow> bool" where
  "window_healthy ht ut [] \<longleftrightarrow> True"
| "window_healthy ht ut (r # rs) \<longleftrightarrow>
     (if r \<and> ht \<le> int (length (takeWhile id (r # rs))) then True
      else if \<not> r \<and> ut \<le> int (length (takeWhile Not (r # rs))) then False
      else window_healthy ht ut rs)"

definition check_event :: "bool \<times> time \<Rightarrow> sm_event" where
  "check_event c = (if fst c then SM_Success (snd c) else SM_Failure (snd c))"

definition tracks :: "bool list \<Rightarrow> 'l state_machine \<times> bstore \<Rightarrow> bool" where
  "tracks rs s \<longleftrightarrow>
     hm_consecutiveSuccesses (sm_metrics (fst s)) = int (length (takeWhile id rs)) \<and>
     hm_consecutiveFailures (sm_metrics (fst s)) = int (length (takeWhile Not rs)) \<and>
     sm_state (fst s) = (if window_healthy (sm_healthyThreshold (fst s))
       (sm_unhealthyThreshold (fst s)) rs then StateHealthy else StateUnhealthy)"

lemma tracks_step:
  "tracks rs s \<Longrightarrow> tracks (fst c # rs) (sm_step s (check_event c))"
  by (cases s; cases c)
    (auto simp: tracks_def sm_step_def check_event_def RecordSuccess_def RecordFailure_def
      transitionTo_def Let_def)

lemma tracks_run:
  "tracks rs s \<Longrightarrow> tracks (rev (map fst cs) @ rs) (run sm_step s (map check_event cs))"
proof (induction cs arbitrary: rs s)
  case (Cons c cs)
  from Cons.IH [OF tracks_step [OF Cons.prems, of c]] show ?case by simp
qed simp

lemma run_static:
  "sm_backend (fst (run sm_step s es)) = sm_backend (fst s)"
  "sm_healthyThreshold (fst (run sm_step s es)) = sm_healthyThreshold (fst s)"
  "sm_unhealthyThreshold (fst (run sm_step s es)) = sm_unhealthyThreshold (fst s)"
  by (induction es arbitrary: s) simp_all

section \<open>Properties\<close>

text \<open>
  The health flag the balancers read agrees with the state machine. For a machine
  created on a healthy backend and any sequence of checks, request records, drains, forced
  transitions and resets, the backend is flagged healthy exactly in the healthy state, the
  error rate stays between zero and one, and no other backend is touched.
\<close>

theorem health_flag_agrees:
  assumes "b_healthy (h b)" and "0 \<le> ht" and "0 \<le> ut"
    and "run sm_step (NewStateMachine now b ht ut :: 'l state_machine, h) es = (sm, h')"
  shows "(b_healthy (h' b) \<longleftrightarrow> sm_state sm = StateHealthy) \<and>
    0 \<le> GetErrorRate sm \<and> GetErrorRate sm \<le> 1 \<and> (\<forall>c. c \<noteq> b \<longrightarrow> h' c = h c)"
proof -
  let ?s = "(NewStateMachine now b ht ut :: 'l state_machine, h)"
  have "sm_inv ?s" using assms(1-3) by (rule NewStateMachine_inv)
  from sm_calls.run_inv [OF this, of es] assms
  have inv: "flag_agrees (sm, h')" "metrics_ok (sm_metrics sm)" by (simp_all add: sm_inv_def)
  have b: "sm_backend sm = b"
    using run_static(1) [of ?s es] assms(4) by simp
  have "snd (run sm_step s es) c = snd s c" if "c \<noteq> sm_backend (fst s)"
    for c and s :: "'l state_machine \<times> bstore"
    using that by (induction es arbitrary: s) (simp_all add: sm_step_frame)
  from this [of _ ?s] assms(4) have "\<forall>c. c \<noteq> b \<longrightarrow> h' c = h c" by simp
  with inv b show ?thesis
    by (auto simp: flag_agrees_def metrics_ok_def GetErrorRate_def Let_def divide_le_eq)
qed

theorem health_flag_agrees_witness:
  "let (sm, h') = run sm_step (NewStateMachine 0 0 2 1 :: unit state_machine, two_backends)
      [SM_Failure 1, SM_Success 2, SM_Request True 5]
   in (b_healthy (h' 0) \<longleftrightarrow> sm_state sm = StateHealthy) \<and> sm_state sm = StateUnhealthy"
proof -
  obtain sm :: "unit state_machine" and h' where
    r: "run sm_step (NewStateMachine 0 0 2 1, two_backends)
      [SM_Failure 1, SM_Success 2, SM_Request True 5] = (sm, h')" by fastforce
  moreover have "sm_state sm = StateUnhealthy"
    using r by (auto simp: sm_step_def sm_ops NewStateMachine_def)
  ultimately show ?thesis
    using health_flag_agrees [OF _ _ _ r] by simp
qed



text \<open>
  A backend that the proxy itself marks unhealthy after a failed dial is never restored
  by the health checks. The machine is still in its healthy state, so neither successful
  checks, nor recorded requests, nor even a forced transition to healthy touch the flag.
\<close>

theorem proxy_mark_never_restored:
  assumes "sm_state sm = StateHealthy"
    and "\<forall>e \<in> set es. \<exists>t ok d. e \<in> {SM_Success t, SM_Request ok d, SM_ForceHealthy t}"
  shows "\<not> b_healthy (snd (run sm_step (sm, MarkUnhealthy (sm_backend sm) h) es) (sm_backend sm))"
proof -
  have "snd (run sm_step s es) = snd s" if "sm_state (fst s) = StateHealthy"
    for s :: "'a state_machine \<times> bstore"
    using that assms(2)
  proof (induction es arbitrary: s)
    case (Cons e es)
    have "sm_state (fst (sm_step s e)) = StateHealthy \<and> snd (sm_step s e) = snd s"
      using Cons.prems by (cases s) (auto simp: sm_step_def sm_ops)
    with Cons show ?case by simp
  qed simp
  from this [of "(sm, MarkUnhealthy (sm_backend sm) h)"] assms(1) show ?thesis by simp
qed

theorem proxy_mark_never_restored_witness:
  "\<not> b_healthy (snd (run sm_step (NewStateMachine 0 0 2 3 :: unit state_machine,
      MarkUnhealthy 0 two_backends) (replicate 5 (SM_Success 7))) 0)"
  using proxy_mark_never_restored [of "NewStateMachine 0 0 2 3 :: unit state_machine"
      "replicate 5 (SM_Success 7)" two_backends]
  by simp

text \<open>
  Draining does not last. A backend being drained goes back to the healthy state, flag
  included, with the first successful check that completes the healthy threshold, so it
  receives traffic again.
\<close>

theorem draining_cancelled_by_check:
  assumes "sm_state sm = StateDraining"
    and "sm_healthyThreshold sm \<le> hm_consecutiveSuccesses (sm_metrics sm) + 1"
  shows "let (sm', h', notices) = RecordSuccess now sm h in
    sm_state sm' = StateHealthy \<and> b_healthy (h' (sm_backend sm)) \<and>
    notices = map (\<lambda>l. (l, sm_backend sm, StateDraining, StateHealthy)) (sm_listeners sm)"
  using assms by (simp add: RecordSuccess_def transitionTo_def Let_def)

theorem draining_cancelled_by_check_witness:
  "let (sm', h', notices) = RecordSuccess 9 (fst (run sm_step
      (NewStateMachine 0 0 2 3 :: unit state_machine, two_backends) [SM_Success 1, SM_Drain 2]))
      (MarkUnhealthy 0 two_backends)
   in sm_state sm' = StateHealthy"
proof -
  let ?sm = "fst (run sm_step (NewStateMachine 0 0 2 3 :: unit state_machine, two_backends)
    [SM_Success 1, SM_Drain 2])"
  have "sm_state ?sm = StateDraining"
    "sm_healthyThreshold ?sm \<le> hm_consecutiveSuccesses (sm_metrics ?sm) + 1"
    by (simp_all add: sm_step_def sm_ops NewStateMachine_def)
  from draining_cancelled_by_check [OF this, of 9 "MarkUnhealthy 0 two_backends"]
  show ?thesis by (auto simp: Let_def split_beta)
qed

end
