(* ===== verification/Health.thy ===== *)
theory Health
  imports StateMachine
begin

text \<open>
  Package \<^verbatim>\<open>pkg/health\<close>: the active checker (\<^verbatim>\<open>active.go\<close>), the passive checker
  (\<^verbatim>\<open>passive.go\<close>) and the checker that owns one state machine per backend and feeds both
  kinds of results into it (\<^verbatim>\<open>checker.go\<close>). The network is an argument: whether a dial
  succeeds, what an HTTP request returns, when each check starts and ends, and the order in
  which the concurrent checks deliver their results.
\<close>

section \<open>Active checks (active.go)\<close>

datatype check_type = CheckTypeTCP | CheckTypeHTTP | CheckTypeHTTPS | CheckTypeUnset | CheckTypeOther string

datatype check_error =
    TCPConnectionFailed
  | HTTPRequestFailed
  | UnexpectedStatusCode int
  | UnsupportedCheckType check_type

record check_result =
  cr_Backend :: bref
  cr_Success :: bool
  cr_Error :: "check_error option"
  cr_Duration :: duration
  cr_Timestamp :: time
  cr_StatusCode :: int

record active_checker =
  ac_checkType :: check_type
  ac_timeout :: duration
  ac_httpPath :: string
  ac_expectedStatusCodes :: "int list"

text \<open>The network as the checks see it; \<open>ne_order\<close> lists the indices in order of arrival.\<close>

record net_env =
  ne_dial :: "string \<Rightarrow> bool"
  ne_http :: "string \<Rightarrow> int option"
  ne_times :: "nat \<Rightarrow> time \<times> time"
  ne_order :: "nat list"

definition NewActiveChecker :: "check_type \<Rightarrow> duration \<Rightarrow> string \<Rightarrow> int list \<Rightarrow> active_checker" where
  "NewActiveChecker checkType timeout httpPath codes =
     \<lparr>ac_checkType = (if checkType = CheckTypeUnset then CheckTypeTCP else checkType),
      ac_timeout = (if timeout = 0 then 3 * Second else timeout),
      ac_httpPath = (if httpPath = '''' then ''/health'' else httpPath),
      ac_expectedStatusCodes = (if length codes = 0 then [200] else codes)\<rparr>"

definition checkTCP :: "net_env \<Rightarrow> string \<Rightarrow> check_error option" where
  "checkTCP net address = (if ne_dial net address then None else Some TCPConnectionFailed)"

fun expected_code :: "int list \<Rightarrow> int \<Rightarrow> bool" where
  "expected_code [] status = False"
| "expected_code (code # codes) status = (if status = code then True else expected_code codes status)"

definition checkHTTP :: "net_env \<Rightarrow> active_checker \<Rightarrow> string \<Rightarrow> int \<times> check_error option" where
  "checkHTTP net ac url =
     (case ne_http net url of
        None \<Rightarrow> (0, Some HTTPRequestFailed)
      | Some status \<Rightarrow>
          if expected_code (ac_expectedStatusCodes ac) status then (status, None)
          else (status, Some (UnexpectedStatusCode status)))"

definition Check :: "net_env \<Rightarrow> active_checker \<Rightarrow> bstore \<Rightarrow> time \<times> time \<Rightarrow> bref \<Rightarrow> check_result" where
  "Check net ac h tm b =
     (let (start, finish) = tm;
          (status, err) =
            (case ac_checkType ac of
               CheckTypeTCP \<Rightarrow> (0, checkTCP net (b_address (h b)))
             | CheckTypeHTTP \<Rightarrow> checkHTTP net ac (''http://'' @ b_address (h b) @ ac_httpPath ac)
             | CheckTypeHTTPS \<Rightarrow> checkHTTP net ac (''https://'' @ b_address (h b) @ ac_httpPath ac)
             | t \<Rightarrow> (0, Some (UnsupportedCheckType t)))
      in \<lparr>cr_Backend = b, cr_Success = (err = None), cr_Error = err,
          cr_Duration = finish - start, cr_Timestamp = start, cr_StatusCode = status\<rparr>)"

definition empty_result :: check_result where
  "empty_result = \<lparr>cr_Backend = 0, cr_Success = False, cr_Error = None, cr_Duration = 0,
     cr_Timestamp = 0, cr_StatusCode = 0\<rparr>"

definition CheckMultiple :: "net_env \<Rightarrow> active_checker \<Rightarrow> bstore \<Rightarrow> bref list \<Rightarrow> check_result list" where
  "CheckMultiple net ac h backends =
     fold (\<lambda>i results. results[i := Check net ac h (ne_times net i) (backends ! i)])
       (ne_order net) (replicate (length backends) empty_result)"

section \<open>Passive checks (passive.go)\<close>

record passive_config =
  pcc_ErrorRateThreshold :: real
  pcc_MinRequests :: int
  pcc_ConsecutiveFailures :: int
  pcc_Window :: duration

record failure_tracker =
  ft_consecutiveFailures :: int
  ft_lastFailureTime :: "time option"
  ft_windowFailures :: "time list"

record passive_checker =
  pc_config :: passive_config
  pc_failures :: "(bref, failure_tracker) gomap"

definition NewPassiveChecker :: "passive_config \<Rightarrow> passive_checker" where
  "NewPassiveChecker config =
     \<lparr>pc_config =
        \<lparr>pcc_ErrorRateThreshold =
           (if pcc_ErrorRateThreshold config = 0 then 1 / 2 else pcc_ErrorRateThreshold config),
         pcc_MinRequests = (if pcc_MinRequests config = 0 then 10 else pcc_MinRequests config),
         pcc_ConsecutiveFailures =
           (if pcc_ConsecutiveFailures config = 0 then 5 else pcc_ConsecutiveFailures config),
         pcc_Window = (if pcc_Window config = 0 then 1 * Minute else pcc_Window config)\<rparr>,
      pc_failures = []\<rparr>"

definition get_tracker :: "bref \<Rightarrow> passive_checker \<Rightarrow> failure_tracker" where
  "get_tracker b pc =
     (case gm_get (pc_failures pc) b of
        Some tracker \<Rightarrow> tracker
      | None \<Rightarrow> \<lparr>ft_consecutiveFailures = 0, ft_lastFailureTime = None, ft_windowFailures = []\<rparr>)"

definition PassiveChecker_RecordSuccess :: "bref \<Rightarrow> passive_checker \<Rightarrow> passive_checker" where
  "PassiveChecker_RecordSuccess b pc =
     pc\<lparr>pc_failures := gm_set b ((get_tracker b pc)\<lparr>ft_consecutiveFailures := 0\<rparr>) (pc_failures pc)\<rparr>"

definition shouldMarkUnhealthy :: "passive_checker \<Rightarrow> failure_tracker \<Rightarrow> bool" where
  "shouldMarkUnhealthy pc tracker =
     (if ft_consecutiveFailures tracker \<ge> pcc_ConsecutiveFailures (pc_config pc) then True
      else if int (length (ft_windowFailures tracker)) \<ge> pcc_MinRequests (pc_config pc) then True
      else False)"

definition PassiveChecker_RecordFailure :: "time \<Rightarrow> bref \<Rightarrow> passive_checker \<Rightarrow> bool \<times> passive_checker" where
  "PassiveChecker_RecordFailure now b pc =
     (let t = get_tracker b pc;
          cutoff = now - pcc_Window (pc_config pc);
          validFailures = filter (\<lambda>t. t > cutoff) (ft_windowFailures t @ [now]);
          t' = \<lparr>ft_consecutiveFailures = ft_consecutiveFailures t + 1,
                ft_lastFailureTime = Some now, ft_windowFailures = validFailures\<rparr>
      in (shouldMarkUnhealthy pc t', pc\<lparr>pc_failures := gm_set b t' (pc_failures pc)\<rparr>))"

definition PassiveChecker_GetConsecutiveFailures :: "bref \<Rightarrow> passive_checker \<Rightarrow> int" where
  "PassiveChecker_GetConsecutiveFailures b pc =
     (case gm_get (pc_failures pc) b of None \<Rightarrow> 0 | Some t \<Rightarrow> ft_consecutiveFailures t)"

definition GetWindowFailures :: "time \<Rightarrow> bref \<Rightarrow> passive_checker \<Rightarrow> nat" where
  "GetWindowFailures now b pc =
     (case gm_get (pc_failures pc) b of None \<Rightarrow> 0
      | Some t \<Rightarrow> length (filter (\<lambda>t. t > now - pcc_Window (pc_config pc)) (ft_windowFailures t)))"

definition PassiveChecker_Reset :: "bref \<Rightarrow> passive_checker \<Rightarrow> passive_checker" where
  "PassiveChecker_Reset b pc = pc\<lparr>pc_failures := gm_del b (pc_failures pc)\<rparr>"

definition PassiveChecker_ResetAll :: "passive_checker \<Rightarrow> passive_checker" where
  "PassiveChecker_ResetAll pc = pc\<lparr>pc_failures := []\<rparr>"

section \<open>The checker (checker.go)\<close>

datatype listener = Checker_onStateChange

record checker_config =
  cc_Interval :: duration
  cc_Timeout :: duration
  cc_HealthyThreshold :: int
  cc_UnhealthyThreshold :: int
  cc_ActiveCheckType :: check_type
  cc_HTTPPath :: string
  cc_EnablePassiveChecks :: bool
  cc_ErrorRateThreshold :: real
  cc_ConsecutiveFailures :: int
  cc_PassiveCheckWindow :: duration

record checker =
  c_pool :: pool
  c_activeChecker :: active_checker
  c_passiveChecker :: "passive_checker option"
  c_stateMachines :: "(string, listener state_machine) gomap"
  c_interval :: duration
  c_healthyThreshold :: int
  c_unhealthyThreshold :: int
  c_cancelled :: bool
  c_totalChecks :: int
  c_successChecks :: int
  c_failedChecks :: int

definition new_machine :: "time \<Rightarrow> bref \<Rightarrow> int \<Rightarrow> int \<Rightarrow> listener state_machine" where
  "new_machine now b ht ut = AddListener Checker_onStateChange (NewStateMachine now b ht ut)"

definition NewChecker :: "time \<Rightarrow> bstore \<Rightarrow> pool \<Rightarrow> checker_config \<Rightarrow> checker" where
  "NewChecker now h p config =
     (let interval = (if cc_Interval config = 0 then 10 * Second else cc_Interval config);
          timeout = (if cc_Timeout config = 0 then 3 * Second else cc_Timeout config);
          ht = (if cc_HealthyThreshold config = 0 then 2 else cc_HealthyThreshold config);
          ut = (if cc_UnhealthyThreshold config = 0 then 3 else cc_UnhealthyThreshold config);
          ty = (if cc_ActiveCheckType config = CheckTypeUnset then CheckTypeTCP
                else cc_ActiveCheckType config)
      in \<lparr>c_pool = p,
          c_activeChecker = NewActiveChecker ty timeout (cc_HTTPPath config) [],
          c_passiveChecker =
            (if cc_EnablePassiveChecks config
             then Some (NewPassiveChecker
               \<lparr>pcc_ErrorRateThreshold = cc_ErrorRateThreshold config, pcc_MinRequests = 0,
                pcc_ConsecutiveFailures = cc_ConsecutiveFailures config,
                pcc_Window = cc_PassiveCheckWindow config\<rparr>)
             else None),
          c_stateMachines =
            fold (\<lambda>b m. gm_set (b_name (h b)) (new_machine now b ht ut) m) (Pool_All p) [],
          c_interval = interval, c_healthyThreshold = ht, c_unhealthyThreshold = ut,
          c_cancelled = False, c_totalChecks = 0, c_successChecks = 0, c_failedChecks = 0\<rparr>)"

definition onStateChange :: "bref \<Rightarrow> bstate \<Rightarrow> bstate \<Rightarrow> checker \<Rightarrow> checker" where
  "onStateChange b oldState newState c =
     (case c_passiveChecker c of
        Some pc \<Rightarrow> if newState = StateHealthy
          then c\<lparr>c_passiveChecker := Some (PassiveChecker_Reset b pc)\<rparr> else c
      | None \<Rightarrow> c)"

definition notify :: "listener notice list \<Rightarrow> checker \<Rightarrow> checker" where
  "notify = fold (\<lambda>(l, b, oldState, newState). onStateChange b oldState newState)"

text \<open>A machine of the checker runs one of its operations; the listeners run before it returns.\<close>

definition on_machine :: "string \<Rightarrow> listener sm_result \<Rightarrow> checker \<Rightarrow> checker \<times> bstore" where
  "on_machine name r c =
     (case r of (sm, h, notices) \<Rightarrow>
        (notify notices (c\<lparr>c_stateMachines := gm_set name sm (c_stateMachines c)\<rparr>), h))"

definition processResult :: "time \<Rightarrow> check_result \<Rightarrow> checker \<times> bstore \<Rightarrow> checker \<times> bstore" where
  "processResult now result s =
     (let (c, h) = s; b = cr_Backend result; name = b_name (h b);
          sm = (case gm_get (c_stateMachines c) name of Some sm \<Rightarrow> sm
                | None \<Rightarrow> new_machine now b (c_healthyThreshold c) (c_unhealthyThreshold c))
      in if cr_Success result then
           let (c', h') = on_machine name (RecordSuccess now sm h) c
           in (c'\<lparr>c_successChecks := c_successChecks c' + 1, c_totalChecks := c_totalChecks c' + 1\<rparr>, h')
         else
           let (c', h') = on_machine name (RecordFailure now sm h) c
           in (c'\<lparr>c_failedChecks := c_failedChecks c' + 1, c_totalChecks := c_totalChecks c' + 1\<rparr>, h'))"

definition performHealthChecks :: "time \<Rightarrow> net_env \<Rightarrow> checker \<times> bstore \<Rightarrow> checker \<times> bstore" where
  "performHealthChecks now net s =
     (let (c, h) = s; backends = Pool_All (c_pool c) in
      if length backends = 0 then (c, h)
      else fold (processResult now) (CheckMultiple net (c_activeChecker c) h backends) (c, h))"

text \<open>The loop of \<^verbatim>\<open>runHealthChecks\<close>: one round at the start, one per tick, until cancelled.\<close>

fun runHealthChecks :: "(time \<times> net_env) list \<Rightarrow> checker \<times> bstore \<Rightarrow> checker \<times> bstore" where
  "runHealthChecks [] s = s"
| "runHealthChecks ((now, net) # ticks) s =
     (if c_cancelled (fst s) then s else runHealthChecks ticks (performHealthChecks now net s))"

definition Checker_Stop :: "checker \<Rightarrow> checker" where
  "Checker_Stop c = c\<lparr>c_cancelled := True\<rparr>"

definition Checker_RecordRequest ::
    "time \<Rightarrow> bref \<Rightarrow> bool \<Rightarrow> duration \<Rightarrow> checker \<times> bstore \<Rightarrow> checker \<times> bstore" where
  "Checker_RecordRequest now b success responseTime s =
     (let (c, h) = s; name = b_name (h b) in
      case c_passiveChecker c of None \<Rightarrow> (c, h)
      | Some pc \<Rightarrow>
          (case gm_get (c_stateMachines c) name of None \<Rightarrow> (c, h)
           | Some sm0 \<Rightarrow>
               let sm = RecordRequest success responseTime sm0;
                   c = c\<lparr>c_stateMachines := gm_set name sm (c_stateMachines c)\<rparr>
               in if success then
                    (c\<lparr>c_passiveChecker := Some (PassiveChecker_RecordSuccess b pc)\<rparr>, h)
                  else
                    let (mark, pc') = PassiveChecker_RecordFailure now b pc;
                        c = c\<lparr>c_passiveChecker := Some pc'\<rparr>
                    in if mark then on_machine name (RecordFailure now sm h) c else (c, h)))"

definition GetStateMachine :: "string \<Rightarrow> checker \<Rightarrow> string + listener state_machine" where
  "GetStateMachine name c =
     (case gm_get (c_stateMachines c) name of
        None \<Rightarrow> Inl (''state machine not found for backend: '' @ name)
      | Some sm \<Rightarrow> Inr sm)"

definition GetStats :: "checker \<Rightarrow> int \<times> int \<times> int" where
  "GetStats c = (c_totalChecks c, c_successChecks c, c_failedChecks c)"

definition AddBackend :: "time \<Rightarrow> bref \<Rightarrow> bstore \<Rightarrow> checker \<Rightarrow> checker" where
  "AddBackend now b h c =
     (case gm_get (c_stateMachines c) (b_name (h b)) of
        Some _ \<Rightarrow> c
      | None \<Rightarrow> c\<lparr>c_stateMachines := gm_set (b_name (h b))
          (new_machine now b (c_healthyThreshold c) (c_unhealthyThreshold c)) (c_stateMachines c)\<rparr>)"

definition RemoveBackend :: "string \<Rightarrow> checker \<Rightarrow> checker" where
  "RemoveBackend name c = c\<lparr>c_stateMachines := gm_del name (c_stateMachines c)\<rparr>"

section \<open>Facts about the active checker\<close>

lemma expected_code_iff: "expected_code codes status \<longleftrightarrow> status \<in> set codes"
  by (induction codes) auto

lemma fold_list_update:
  assumes "\<forall>i \<in> set is. i < length xs"
  shows "fold (\<lambda>i ys. ys[i := f i]) is xs = map (\<lambda>i. if i \<in> set is then f i else xs ! i) [0..<length xs]"
  using assms
proof (induction "is" arbitrary: xs)
  case Nil
  then show ?case by (simp add: map_nth)
next
  case (Cons j js)
  then have "fold (\<lambda>i ys. ys[i := f i]) js (xs[j := f j]) =
      map (\<lambda>i. if i \<in> set js then f i else xs[j := f j] ! i) [0..<length xs]" by simp
  then show ?case using Cons.prems by (auto intro!: map_cong simp: nth_list_update)
qed

text \<open>The order of arrival does not matter.\<close>

lemma CheckMultiple_order:
  assumes "set (ne_order net) = {0..<length bs}"
  shows "CheckMultiple net ac h bs = map (\<lambda>i. Check net ac h (ne_times net i) (bs ! i)) [0..<length bs]"
  unfolding CheckMultiple_def using assms by (subst fold_list_update) auto

definition check_ok :: "net_env \<Rightarrow> active_checker \<Rightarrow> bstore \<Rightarrow> bref \<Rightarrow> bool" where
  "check_ok net ac h b \<longleftrightarrow>
     (case ac_checkType ac of
        CheckTypeTCP \<Rightarrow> ne_dial net (b_address (h b))
      | CheckTypeHTTP \<Rightarrow> (\<exists>s \<in> set (ac_expectedStatusCodes ac).
          ne_http net (''http://'' @ b_address (h b) @ ac_httpPath ac) = Some s)
      | CheckTypeHTTPS \<Rightarrow> (\<exists>s \<in> set (ac_expectedStatusCodes ac).
          ne_http net (''https://'' @ b_address (h b) @ ac_httpPath ac) = Some s)
      | _ \<Rightarrow> False)"

lemma Check_simps [simp]:
  "cr_Backend (Check net ac h tm b) = b"
  "cr_Success (Check net ac h tm b) \<longleftrightarrow> check_ok net ac h b"
  by (auto simp: Check_def Let_def split_beta check_ok_def checkTCP_def checkHTTP_def expected_code_iff
      split: check_type.splits option.splits)

section \<open>Facts about the checker\<close>

lemma onStateChange_simps [simp]:
  "c_stateMachines (onStateChange b old new c) = c_stateMachines c"
  "c_pool (onStateChange b old new c) = c_pool c"
  "c_activeChecker (onStateChange b old new c) = c_activeChecker c"
  "c_totalChecks (onStateChange b old new c) = c_totalChecks c"
  "c_successChecks (onStateChange b old new c) = c_successChecks c"
  "c_failedChecks (onStateChange b old new c) = c_failedChecks c"
  "c_healthyThreshold (onStateChange b old new c) = c_healthyThreshold c"
  "c_unhealthyThreshold (onStateChange b old new c) = c_unhealthyThreshold c"
  "c_cancelled (onStateChange b old new c) = c_cancelled c"
  by (simp_all add: onStateChange_def split: option.splits)

lemma notify_Nil [simp]: "notify [] c = c"
  by (simp add: notify_def)

lemma notify_Cons [simp]: "notify ((l, b, old, new) # ns) c = notify ns (onStateChange b old new c)"
  by (simp add: notify_def)

lemma notify_all:
  "c_stateMachines (notify ns c) = c_stateMachines c \<and>
   c_pool (notify ns c) = c_pool c \<and>
   c_activeChecker (notify ns c) = c_activeChecker c \<and>
   c_totalChecks (notify ns c) = c_totalChecks c \<and>
   c_successChecks (notify ns c) = c_successChecks c \<and>
   c_failedChecks (notify ns c) = c_failedChecks c \<and>
   c_healthyThreshold (notify ns c) = c_healthyThreshold c \<and>
   c_unhealthyThreshold (notify ns c) = c_unhealthyThreshold c \<and>
   c_cancelled (notify ns c) = c_cancelled c"
proof (induction ns arbitrary: c)
  case (Cons n ns)
  then show ?case by (cases n) simp
qed simp

lemma notify_simps [simp]:
  "c_stateMachines (notify ns c) = c_stateMachines c"
  "c_pool (notify ns c) = c_pool c"
  "c_activeChecker (notify ns c) = c_activeChecker c"
  "c_totalChecks (notify ns c) = c_totalChecks c"
  "c_successChecks (notify ns c) = c_successChecks c"
  "c_failedChecks (notify ns c) = c_failedChecks c"
  "c_healthyThreshold (notify ns c) = c_healthyThreshold c"
  "c_unhealthyThreshold (notify ns c) = c_unhealthyThreshold c"
  "c_cancelled (notify ns c) = c_cancelled c"
  using notify_all [of ns c] by simp_all

lemma on_machine_simps [simp]:
  "c_stateMachines (fst (on_machine name r c)) = gm_set name (fst r) (c_stateMachines c)"
  "c_pool (fst (on_machine name r c)) = c_pool c"
  "c_activeChecker (fst (on_machine name r c)) = c_activeChecker c"
  "c_totalChecks (fst (on_machine name r c)) = c_totalChecks c"
  "c_successChecks (fst (on_machine name r c)) = c_successChecks c"
  "c_failedChecks (fst (on_machine name r c)) = c_failedChecks c"
  "c_healthyThreshold (fst (on_machine name r c)) = c_healthyThreshold c"
  "c_unhealthyThreshold (fst (on_machine name r c)) = c_unhealthyThreshold c"
  "c_cancelled (fst (on_machine name r c)) = c_cancelled c"
  "snd (on_machine name r c) = fst (snd r)"
  by (simp_all add: on_machine_def split_beta)

text \<open>One result, as a step of the machine of the backend it is about.\<close>

definition result_event :: "time \<Rightarrow> check_result \<Rightarrow> sm_event" where
  "result_event now r = check_event (cr_Success r, now)"

lemma processResult_known:
  assumes "gm_get (c_stateMachines c) (b_name (h (cr_Backend r))) = Some sm"
  shows "c_stateMachines (fst (processResult now r (c, h))) =
      gm_set (b_name (h (cr_Backend r))) (fst (sm_step (sm, h) (result_event now r))) (c_stateMachines c)"
    and "snd (processResult now r (c, h)) = snd (sm_step (sm, h) (result_event now r))"
  using assms
  by (auto simp: processResult_def Let_def split_beta result_event_def check_event_def sm_step_def)

lemma processResult_static [simp]:
  "c_pool (fst (processResult now r s)) = c_pool (fst s)"
  "c_activeChecker (fst (processResult now r s)) = c_activeChecker (fst s)"
  "c_cancelled (fst (processResult now r s)) = c_cancelled (fst s)"
  "c_totalChecks (fst (processResult now r s)) = c_totalChecks (fst s) + 1"
  "c_successChecks (fst (processResult now r s)) + c_failedChecks (fst (processResult now r s)) =
     c_successChecks (fst s) + c_failedChecks (fst s) + 1"
  by (auto simp: processResult_def Let_def split_beta)

lemma sm_step_identity [simp]:
  "b_name (snd (sm_step s e) x) = b_name (snd s x)"
  "b_address (snd (sm_step s e) x) = b_address (snd s x)"
  by (cases s; cases e; simp add: sm_step_def sm_ops)+

text \<open>
  What the checker maintains for a backend \<open>b\<close> whose results so far, latest first, are
  \<open>rs\<close>: it has a machine under its name, the machine tracks the results, and the flag
  agrees with the machine.
\<close>

definition monitors :: "int \<Rightarrow> int \<Rightarrow> bref \<Rightarrow> bool list \<Rightarrow> checker \<times> bstore \<Rightarrow> bool" where
  "monitors ht ut b rs s \<longleftrightarrow>
     (\<exists>sm. gm_get (c_stateMachines (fst s)) (b_name (snd s b)) = Some sm \<and> sm_backend sm = b \<and>
       sm_healthyThreshold sm = ht \<and> sm_unhealthyThreshold sm = ut \<and>
       tracks rs (sm, snd s) \<and> sm_inv (sm, snd s))"

lemma monitors_flag: "monitors ht ut b rs s \<Longrightarrow> b_healthy (snd s b) \<longleftrightarrow> window_healthy ht ut rs"
  by (auto simp: monitors_def tracks_def sm_inv_def flag_agrees_def split: if_splits)

lemma monitors_processResult_own:
  assumes "monitors ht ut b rs s" and "cr_Backend r = b"
  shows "monitors ht ut b (cr_Success r # rs) (processResult now r s)"
proof -
  obtain c h where s: "s = (c, h)" by fastforce
  with assms obtain sm where
    sm: "gm_get (c_stateMachines c) (b_name (h b)) = Some sm" "sm_backend sm = b"
      "sm_healthyThreshold sm = ht" "sm_unhealthyThreshold sm = ut"
      "tracks rs (sm, h)" "sm_inv (sm, h)" by (auto simp: monitors_def)
  let ?e = "result_event now r"
  note known = processResult_known [of c h r sm now, unfolded assms(2), OF sm(1)]
  have "tracks (cr_Success r # rs) (sm_step (sm, h) ?e)"
    using tracks_step [OF sm(5), of "(cr_Success r, now)"] by (simp add: result_event_def)
  moreover have "sm_inv (sm_step (sm, h) ?e)" using sm(6) by (rule sm_step_inv)
  ultimately show ?thesis
    by (auto simp: s monitors_def known sm)
qed

lemma monitors_processResult_other:
  assumes "monitors ht ut b rs s" and "monitors ht' ut' x rs' s" and "cr_Backend r = x" and "x \<noteq> b"
    and "b_name (snd s x) \<noteq> b_name (snd s b)"
  shows "monitors ht ut b rs (processResult now r s)"
proof -
  obtain c h where s: "s = (c, h)" by fastforce
  with assms(2) obtain sm where
    sm: "gm_get (c_stateMachines c) (b_name (h x)) = Some sm" "sm_backend sm = x"
    by (auto simp: monitors_def)
  let ?e = "result_event now r"
  note known = processResult_known [of c h r sm now, unfolded assms(3), OF sm(1)]
  have "snd (sm_step (sm, h) ?e) b = h b" using assms(4) sm(2) by (simp add: sm_step_frame)
  with assms(1,5) known show ?thesis
    by (auto simp: s monitors_def tracks_def sm_inv_def flag_agrees_def)
qed

lemma processResult_names [simp]:
  "b_name (snd (processResult now r s) x) = b_name (snd s x)"
  "b_address (snd (processResult now r s) x) = b_address (snd s x)"
  by (cases s; auto simp: processResult_def Let_def split_beta RecordSuccess_def RecordFailure_def
      transitionTo_def)+

text \<open>A round: every member of the pool is checked once and its machine takes its result.\<close>

definition all_monitored :: "int \<Rightarrow> int \<Rightarrow> (bref \<Rightarrow> bool list) \<Rightarrow> bref list \<Rightarrow> checker \<times> bstore \<Rightarrow> bool" where
  "all_monitored ht ut rs bs s \<longleftrightarrow> (\<forall>b \<in> set bs. monitors ht ut b (rs b) s)"

lemma fold_processResult:
  assumes "all_monitored ht ut rs bs s" and "inj_on (\<lambda>b. b_name (snd s b)) (set bs)"
    and "distinct (map cr_Backend results)" and "cr_Backend ` set results \<subseteq> set bs"
  shows "all_monitored ht ut
    (\<lambda>b. case map_of (map (\<lambda>r. (cr_Backend r, cr_Success r)) results) b of
       Some ok \<Rightarrow> ok # rs b | None \<Rightarrow> rs b) bs (fold (processResult now) results s)"
  using assms
proof (induction results arbitrary: rs s)
  case (Cons r results)
  let ?s = "processResult now r s" and ?x = "cr_Backend r"
  let ?rs = "rs(?x := cr_Success r # rs ?x)"
  have "monitors ht ut b (?rs b) ?s" if b: "b \<in> set bs" for b
  proof (cases "b = ?x")
    case True
    with Cons.prems(1,4) show ?thesis by (auto simp: all_monitored_def monitors_processResult_own)
  next
    case False
    from Cons.prems(4) have x: "?x \<in> set bs" by simp
    then have "monitors ht ut b (rs b) ?s"
      using Cons.prems(1,2) b False
      by (intro monitors_processResult_other [of _ _ _ _ _ ht ut ?x "rs ?x"])
        (auto simp: all_monitored_def inj_on_def)
    with False show ?thesis by simp
  qed
  then have "all_monitored ht ut ?rs bs ?s" by (simp add: all_monitored_def)
  from Cons.IH [OF this] Cons.prems have "all_monitored ht ut
    (\<lambda>b. case map_of (map (\<lambda>r. (cr_Backend r, cr_Success r)) results) b of
       Some ok \<Rightarrow> ok # ?rs b | None \<Rightarrow> ?rs b) bs (fold (processResult now) results ?s)" by simp
  moreover have "map_of (map (\<lambda>r. (cr_Backend r, cr_Success r)) results) ?x = None"
    using Cons.prems(3) by (force simp: map_of_eq_None_iff)
  then have "(\<lambda>b. case map_of (map (\<lambda>r. (cr_Backend r, cr_Success r)) results) b of
        Some ok \<Rightarrow> ok # ?rs b | None \<Rightarrow> ?rs b) =
      (\<lambda>b. case map_of (map (\<lambda>r. (cr_Backend r, cr_Success r)) (r # results)) b of
        Some ok \<Rightarrow> ok # rs b | None \<Rightarrow> rs b)"
    by (auto simp: fun_eq_iff split: option.splits)
  ultimately show ?case by simp
qed (simp add: all_monitored_def)

lemma fold_processResult_static:
  "c_pool (fst (fold (processResult now) results s)) = c_pool (fst s) \<and>
   c_activeChecker (fst (fold (processResult now) results s)) = c_activeChecker (fst s) \<and>
   c_cancelled (fst (fold (processResult now) results s)) = c_cancelled (fst s) \<and>
   (\<forall>x. b_name (snd (fold (processResult now) results s) x) = b_name (snd s x)) \<and>
   (\<forall>x. b_address (snd (fold (processResult now) results s) x) = b_address (snd s x)) \<and>
   c_totalChecks (fst (fold (processResult now) results s)) = c_totalChecks (fst s) + int (length results) \<and>
   c_successChecks (fst (fold (processResult now) results s)) + c_failedChecks (fst (fold (processResult now) results s)) =
     c_successChecks (fst s) + c_failedChecks (fst s) + int (length results)"
proof (induction results arbitrary: s)
  case (Cons r results)
  from Cons.IH [of "processResult now r s"] show ?case by simp
qed simp

lemma check_ok_store: "b_address (h b) = b_address (h' b) \<Longrightarrow> check_ok net ac h b = check_ok net ac h' b"
  by (simp add: check_ok_def cong: check_type.case_cong)

lemma performHealthChecks_round:
  assumes "all_monitored ht ut rs bs s" and "p_backends (c_pool (fst s)) = bs"
    and "distinct (map (\<lambda>b. b_name (snd s b)) bs)" and "set (ne_order net) = {0..<length bs}"
  shows "all_monitored ht ut (\<lambda>b. check_ok net (c_activeChecker (fst s)) (snd s) b # rs b) bs
    (performHealthChecks now net s)"
proof (cases "bs = []")
  case False
  obtain c h where s: "s = (c, h)" by fastforce
  let ?results = "CheckMultiple net (c_activeChecker c) h bs"
  have results: "?results = map (\<lambda>i. Check net (c_activeChecker c) h (ne_times net i) (bs ! i)) [0..<length bs]"
    using assms(4) by (rule CheckMultiple_order)
  have bk: "map cr_Backend ?results = bs" by (simp add: results o_def map_nth)
  have "map_of (map (\<lambda>r. (cr_Backend r, cr_Success r)) ?results) b = Some (check_ok net (c_activeChecker c) h b)"
    if "b \<in> set bs" for b
  proof -
    have "map (\<lambda>r. (cr_Backend r, cr_Success r)) ?results =
        map (\<lambda>b. (b, check_ok net (c_activeChecker c) h b)) bs"
      by (rule nth_equalityI) (simp_all add: results)
    with that show ?thesis by (simp add: map_of_map_Pair)
  qed
  moreover from assms(3) have "inj_on (\<lambda>b. b_name (h b)) (set bs)" "distinct bs"
    by (simp_all add: s distinct_map)
  ultimately show ?thesis
    using fold_processResult [OF assms(1), of ?results now] False assms(2) bk
    by (auto simp: s performHealthChecks_def Pool_All_def all_monitored_def simp flip: set_map)
qed (auto simp: all_monitored_def)

lemma performHealthChecks_static:
  assumes "set (ne_order net) = {0..<length (p_backends (c_pool (fst s)))}"
  shows "c_pool (fst (performHealthChecks now net s)) = c_pool (fst s) \<and>
    c_activeChecker (fst (performHealthChecks now net s)) = c_activeChecker (fst s) \<and>
    c_cancelled (fst (performHealthChecks now net s)) = c_cancelled (fst s) \<and>
    (\<forall>x. b_name (snd (performHealthChecks now net s) x) = b_name (snd s x)) \<and>
    (\<forall>x. b_address (snd (performHealthChecks now net s) x) = b_address (snd s x)) \<and>
    c_totalChecks (fst (performHealthChecks now net s)) =
      c_totalChecks (fst s) + int (Pool_Size (c_pool (fst s))) \<and>
    c_successChecks (fst (performHealthChecks now net s)) + c_failedChecks (fst (performHealthChecks now net s)) =
      c_successChecks (fst s) + c_failedChecks (fst s) + int (Pool_Size (c_pool (fst s)))"
proof -
  let ?results = "CheckMultiple net (c_activeChecker (fst s)) (snd s) (p_backends (c_pool (fst s)))"
  have "length ?results = Pool_Size (c_pool (fst s))"
    using assms by (simp add: CheckMultiple_order Pool_Size_def)
  with fold_processResult_static [of now ?results s] show ?thesis
    by (cases s) (auto simp: performHealthChecks_def Pool_All_def Pool_Size_def Let_def)
qed

lemma fold_gm_set:
  assumes "distinct (map k bs)"
  shows "k x \<notin> k ` set bs \<Longrightarrow> gm_get (fold (\<lambda>b m. gm_set (k b) (f b) m) bs m0) (k x) = gm_get m0 (k x)"
    and "x \<in> set bs \<Longrightarrow> gm_get (fold (\<lambda>b m. gm_set (k b) (f b) m) bs m0) (k x) = Some (f x)"
proof -
  show fresh: "gm_get (fold (\<lambda>b m. gm_set (k b) (f b) m) bs m0) (k x) = gm_get m0 (k x)"
    if "k x \<notin> k ` set bs" for x bs m0
    using that by (induction bs arbitrary: m0) auto
  show "gm_get (fold (\<lambda>b m. gm_set (k b) (f b) m) bs m0) (k x) = Some (f x)" if "x \<in> set bs"
    using assms that by (induction bs arbitrary: m0) (auto simp: fresh)
qed

lemma new_machine_simps [simp]:
  "sm_backend (new_machine now b ht ut) = b"
  "sm_state (new_machine now b ht ut) = StateHealthy"
  "sm_healthyThreshold (new_machine now b ht ut) = ht"
  "sm_unhealthyThreshold (new_machine now b ht ut) = ut"
  "sm_metrics (new_machine now b ht ut) = sm_metrics (NewStateMachine now b ht ut :: listener state_machine)"
  by (simp_all add: new_machine_def AddListener_def)

lemma NewChecker_monitored:
  assumes "distinct (map (\<lambda>b. b_name (h b)) (p_backends p))" and "\<forall>b \<in> set (p_backends p). b_healthy (h b)"
    and "0 \<le> cc_HealthyThreshold config" and "0 \<le> cc_UnhealthyThreshold config"
  shows "all_monitored (c_healthyThreshold (NewChecker now h p config))
    (c_unhealthyThreshold (NewChecker now h p config)) (\<lambda>_. []) (p_backends p) (NewChecker now h p config, h)"
proof -
  let ?c = "NewChecker now h p config"
  let ?ht = "c_healthyThreshold ?c" and ?ut = "c_unhealthyThreshold ?c"
  have "gm_get (c_stateMachines ?c) (b_name (h b)) = Some (new_machine now b ?ht ?ut)"
    if "b \<in> set (p_backends p)" for b
    using fold_gm_set(2) [OF assms(1) that, of "\<lambda>b. new_machine now b ?ht ?ut" "[]"]
    by (simp add: NewChecker_def Let_def Pool_All_def)
  moreover have "0 \<le> ?ht" "0 \<le> ?ut" using assms(3,4) by (simp_all add: NewChecker_def Let_def)
  ultimately show ?thesis
    using assms(2)
    by (auto simp: all_monitored_def monitors_def tracks_def sm_inv_def flag_agrees_def
        metrics_ok_def) (auto simp: NewStateMachine_def)
qed

lemma runHealthChecks_monitored:
  assumes "all_monitored ht ut rs bs s" and "p_backends (c_pool (fst s)) = bs"
    and "distinct (map (\<lambda>b. b_name (snd s b)) bs)" and "\<not> c_cancelled (fst s)"
    and "\<forall>(now, net) \<in> set ticks. set (ne_order net) = {0..<length bs}"
  shows "all_monitored ht ut
      (\<lambda>b. rev (map (\<lambda>(_, net). check_ok net (c_activeChecker (fst s)) (snd s) b) ticks) @ rs b) bs
      (runHealthChecks ticks s) \<and>
    c_totalChecks (fst (runHealthChecks ticks s)) =
      c_totalChecks (fst s) + int (length ticks) * int (length bs) \<and>
    c_successChecks (fst (runHealthChecks ticks s)) + c_failedChecks (fst (runHealthChecks ticks s)) =
      c_successChecks (fst s) + c_failedChecks (fst s) + int (length ticks) * int (length bs)"
  using assms
proof (induction ticks arbitrary: s rs)
  case (Cons tick ticks)
  obtain now net where tick: "tick = (now, net)" by fastforce
  let ?s = "performHealthChecks now net s"
  from Cons.prems tick have order: "set (ne_order net) = {0..<length bs}" by auto
  note static = performHealthChecks_static [of net s now, unfolded Cons.prems(2), OF order]
  have "all_monitored ht ut (\<lambda>b. check_ok net (c_activeChecker (fst s)) (snd s) b # rs b) bs ?s"
    by (rule performHealthChecks_round [OF Cons.prems(1-3) order])
  from Cons.IH [OF this] static Cons.prems
  have "all_monitored ht ut (\<lambda>b. rev (map (\<lambda>(_, net). check_ok net (c_activeChecker (fst ?s)) (snd ?s) b) ticks)
        @ check_ok net (c_activeChecker (fst s)) (snd s) b # rs b) bs (runHealthChecks ticks ?s)"
    and counts: "c_totalChecks (fst (runHealthChecks ticks ?s)) =
        c_totalChecks (fst ?s) + int (length ticks) * int (length bs)"
      "c_successChecks (fst (runHealthChecks ticks ?s)) + c_failedChecks (fst (runHealthChecks ticks ?s)) =
        c_successChecks (fst ?s) + c_failedChecks (fst ?s) + int (length ticks) * int (length bs)"
    by simp_all
  moreover have "check_ok n (c_activeChecker (fst ?s)) (snd ?s) b = check_ok n (c_activeChecker (fst s)) (snd s) b" for n b
    using static check_ok_store [of "snd ?s" b "snd s"] by simp
  ultimately show ?case
    using Cons.prems(2,4) static by (simp add: tick Pool_Size_def algebra_simps)
qed simp

section \<open>Facts about passive checks\<close>

text \<open>
  After \<open>j\<close> failed requests in a row: the tracker has counted them, and the machine has
  received a failure for each from the configured number on.
\<close>

definition suspects :: "int \<Rightarrow> int \<Rightarrow> bref \<Rightarrow> int \<Rightarrow> checker \<times> bstore \<Rightarrow> bool" where
  "suspects cf ut b j s \<longleftrightarrow>
     (\<exists>pc sm. c_passiveChecker (fst s) = Some pc \<and> pcc_ConsecutiveFailures (pc_config pc) = cf \<and>
        gm_get (c_stateMachines (fst s)) (b_name (snd s b)) = Some sm \<and> sm_backend sm = b \<and>
        sm_unhealthyThreshold sm = ut \<and> sm_listeners sm = [Checker_onStateChange] \<and>
        j \<le> ft_consecutiveFailures (get_tracker b pc) \<and>
        j + 1 - cf \<le> hm_consecutiveFailures (sm_metrics sm) \<and>
        0 \<le> hm_consecutiveFailures (sm_metrics sm) \<and>
        (sm_state sm = StateHealthy \<longrightarrow> hm_consecutiveFailures (sm_metrics sm) < ut) \<and>
        flag_agrees (sm, snd s))"

lemma suspects_step:
  assumes "suspects cf ut b j s"
  shows "suspects cf ut b (j + 1) (Checker_RecordRequest now b False d s)"
proof -
  obtain c h where s: "s = (c, h)" by fastforce
  with assms obtain pc sm where
    st: "c_passiveChecker c = Some pc" "pcc_ConsecutiveFailures (pc_config pc) = cf"
      "gm_get (c_stateMachines c) (b_name (h b)) = Some sm" "sm_backend sm = b"
      "sm_unhealthyThreshold sm = ut" "sm_listeners sm = [Checker_onStateChange]"
      "j \<le> ft_consecutiveFailures (get_tracker b pc)"
      "j + 1 - cf \<le> hm_consecutiveFailures (sm_metrics sm)" "0 \<le> hm_consecutiveFailures (sm_metrics sm)"
      "sm_state sm = StateHealthy \<longrightarrow> hm_consecutiveFailures (sm_metrics sm) < ut"
      "flag_agrees (sm, h)"
    by (auto simp: suspects_def)
  show ?thesis
  proof (cases "fst (PassiveChecker_RecordFailure now b pc)")
    case True
    with st show ?thesis
      by (auto simp: s suspects_def Checker_RecordRequest_def Let_def split_beta RecordRequest_def
          RecordFailure_def transitionTo_def PassiveChecker_RecordFailure_def get_tracker_def
          on_machine_def onStateChange_def flag_agrees_def)
  next
    case False
    then have "ft_consecutiveFailures (get_tracker b pc) + 1 < cf"
      using st by (auto simp: PassiveChecker_RecordFailure_def Let_def shouldMarkUnhealthy_def
          split: if_splits)
    with False st show ?thesis
      by (auto simp: s suspects_def Checker_RecordRequest_def Let_def split_beta RecordRequest_def
          PassiveChecker_RecordFailure_def get_tracker_def flag_agrees_def)
  qed
qed

lemma suspects_fold:
  "suspects cf ut b j s \<Longrightarrow>
   suspects cf ut b (j + int (length nows)) (fold (\<lambda>now. Checker_RecordRequest now b False d) nows s)"
proof (induction nows arbitrary: j s)
  case (Cons now nows)
  from Cons.IH [OF suspects_step [OF Cons.prems, of now d]] show ?case by (simp add: algebra_simps)
qed simp

lemma suspects_NewChecker:
  assumes "distinct (map (\<lambda>b. b_name (h b)) (p_backends p))" and "b \<in> set (p_backends p)"
    and "b_healthy (h b)" and "cc_EnablePassiveChecks config"
    and "0 \<le> cc_ConsecutiveFailures config" and "0 \<le> cc_UnhealthyThreshold config"
  shows "suspects (if cc_ConsecutiveFailures config = 0 then 5 else cc_ConsecutiveFailures config)
    (c_unhealthyThreshold (NewChecker now h p config)) b 0 (NewChecker now h p config, h)"
proof -
  let ?c = "NewChecker now h p config"
  have "gm_get (c_stateMachines ?c) (b_name (h b)) =
      Some (new_machine now b (c_healthyThreshold ?c) (c_unhealthyThreshold ?c))"
    using fold_gm_set(2) [OF assms(1,2), of "\<lambda>b. new_machine now b (c_healthyThreshold ?c)
      (c_unhealthyThreshold ?c)" "[]"]
    by (simp add: NewChecker_def Let_def Pool_All_def)
  moreover have "0 < c_unhealthyThreshold ?c"
    using assms(6) by (simp add: NewChecker_def Let_def)
  ultimately show ?thesis
    using assms(3-5)
    by (auto simp: suspects_def flag_agrees_def get_tracker_def)
      (auto simp: NewChecker_def Let_def NewPassiveChecker_def new_machine_def AddListener_def
        NewStateMachine_def)
qed

definition demo_config :: checker_config where
  "demo_config = \<lparr>cc_Interval = 0, cc_Timeout = 0, cc_HealthyThreshold = 0,
     cc_UnhealthyThreshold = 2, cc_ActiveCheckType = CheckTypeUnset, cc_HTTPPath = '''',
     cc_EnablePassiveChecks = True, cc_ErrorRateThreshold = 0, cc_ConsecutiveFailures = 3,
     cc_PassiveCheckWindow = 0\<rparr>"

definition demo_net :: "bool \<Rightarrow> net_env" where
  "demo_net up = \<lparr>ne_dial = (\<lambda>a. up \<or> a = ''b:80''), ne_http = (\<lambda>_. None),
     ne_times = (\<lambda>_. (0, 1)), ne_order = [1, 0]\<rparr>"

section \<open>Properties\<close>

text \<open>
  C1: The flags the balancers read follow the check results. Starting from a checker on a
  pool of healthy backends with distinct names, after any number of rounds, in each of
  which the concurrent checks may deliver their results in any order, every backend is
  flagged healthy exactly when the windows over its own results say so, and the statistics
  count every check of every round once, as a success or as a failure.
\<close>

theorem checker_follows_results:
  assumes "distinct (map (\<lambda>b. b_name (h b)) (p_backends p))"
    and "\<forall>b \<in> set (p_backends p). b_healthy (h b)"
    and "0 \<le> cc_HealthyThreshold config" and "0 \<le> cc_UnhealthyThreshold config"
    and "\<forall>(now, net) \<in> set ticks. set (ne_order net) = {0..<Pool_Size p}"
    and "b \<in> set (p_backends p)"
  shows "let c = NewChecker now0 h p config; (c', h') = runHealthChecks ticks (c, h) in
    (b_healthy (h' b) \<longleftrightarrow> window_healthy (c_healthyThreshold c) (c_unhealthyThreshold c)
       (rev (map (\<lambda>(_, net). check_ok net (c_activeChecker c) h b) ticks))) \<and>
    GetStats c' = (int (length ticks * Pool_Size p), c_successChecks c', c_failedChecks c') \<and>
    c_successChecks c' + c_failedChecks c' = int (length ticks * Pool_Size p)"
proof -
  let ?c = "NewChecker now0 h p config"
  have "p_backends (c_pool (fst (?c, h))) = p_backends p" "\<not> c_cancelled (fst (?c, h))"
    "c_totalChecks ?c = 0" "c_successChecks ?c = 0" "c_failedChecks ?c = 0"
    by (simp_all add: NewChecker_def Let_def)
  with runHealthChecks_monitored [OF NewChecker_monitored [OF assms(1-4), of now0], of ticks] assms(1,5)
  have "all_monitored (c_healthyThreshold ?c) (c_unhealthyThreshold ?c)
      (\<lambda>b. rev (map (\<lambda>(_, net). check_ok net (c_activeChecker ?c) h b) ticks)) (p_backends p)
      (runHealthChecks ticks (?c, h))"
    and "c_totalChecks (fst (runHealthChecks ticks (?c, h))) = int (length ticks * Pool_Size p)"
    "c_successChecks (fst (runHealthChecks ticks (?c, h))) +
      c_failedChecks (fst (runHealthChecks ticks (?c, h))) = int (length ticks * Pool_Size p)"
    by (simp_all add: Pool_Size_def)
  with assms(6) show ?thesis
    by (auto simp: Let_def split_beta GetStats_def all_monitored_def dest!: bspec monitors_flag)
qed

theorem checker_follows_results_witness:
  "\<not> b_healthy (snd (runHealthChecks [(1, demo_net False), (2, demo_net False)]
     (NewChecker 0 two_backends two_pool demo_config, two_backends)) 0)"
proof -
  have "\<forall>(now, net) \<in> set [(1 :: time, demo_net False), (2, demo_net False)].
      set (ne_order net) = {0..<Pool_Size two_pool}"
    by (auto simp: demo_net_def Pool_Size_def)
  moreover have "c_activeChecker (NewChecker 0 two_backends two_pool demo_config) =
      NewActiveChecker CheckTypeTCP (3 * Second) '''' []"
    "c_unhealthyThreshold (NewChecker 0 two_backends two_pool demo_config) = 2"
    by (simp_all add: NewChecker_def demo_config_def Let_def)
  ultimately show ?thesis
    using checker_follows_results [of two_backends two_pool demo_config
        "[(1, demo_net False), (2, demo_net False)]" 0 0]
    by (simp add: Let_def split_beta check_ok_def NewActiveChecker_def demo_net_def demo_config_def
        del: runHealthChecks.simps)
qed

text \<open>
  Passive checks take a failing backend out. With passive checks enabled, once requests
  to a member of the pool have failed in a row as often as the passive limit and the
  unhealthy threshold together allow (their sum minus one), the backend is flagged
  unhealthy, without any active check.
\<close>

theorem passive_checks_detect:
  assumes "distinct (map (\<lambda>b. b_name (h b)) (p_backends p))" and "b \<in> set (p_backends p)"
    and "b_healthy (h b)" and "cc_EnablePassiveChecks config"
    and "0 < cc_ConsecutiveFailures config" and "0 < cc_UnhealthyThreshold config"
    and "cc_ConsecutiveFailures config + cc_UnhealthyThreshold config - 1 \<le> int (length nows)"
  shows "\<not> b_healthy (snd (fold (\<lambda>now. Checker_RecordRequest now b False d) nows
      (NewChecker now0 h p config, h)) b)"
proof -
  let ?s = "fold (\<lambda>now. Checker_RecordRequest now b False d) nows (NewChecker now0 h p config, h)"
  have "suspects (cc_ConsecutiveFailures config) (cc_UnhealthyThreshold config) b 0
      (NewChecker now0 h p config, h)"
    using suspects_NewChecker [OF assms(1-4), of now0] assms(5,6)
    by (simp add: NewChecker_def Let_def)
  from suspects_fold [OF this, where d = d and nows = nows] show ?thesis
    using assms(7) by (auto simp: suspects_def flag_agrees_def)
qed

theorem passive_checks_detect_witness:
  "\<not> b_healthy (snd (fold (\<lambda>now. Checker_RecordRequest now 1 False 5) [1, 2, 3, 4]
     (NewChecker 0 two_backends two_pool demo_config, two_backends)) 1)"
  by (rule passive_checks_detect) (simp_all add: demo_config_def)

end
