(* ===== verification/CircuitBreaker.thy ===== *)
theory CircuitBreaker
  imports Prelude
begin

text \<open>
  Package \<^verbatim>\<open>pkg/resilience\<close>, file \<^verbatim>\<open>circuit.go\<close>. The counters that decide the behaviour keep
  their 32 bits; the totals are statistics. A request is two calls, \<^verbatim>\<open>beforeRequest\<close> and
  \<^verbatim>\<open>afterRequest\<close>, between which other requests may run: the step relation at the end
  interleaves them. \<open>cb_calls\<close> records the listener calls made, in order.
\<close>

unbundle bit_operations_syntax

section \<open>State\<close>

datatype circuit_state = StateClosed | StateOpen | StateHalfOpen

fun CircuitState_String :: "circuit_state \<Rightarrow> string" where
  "CircuitState_String StateClosed = ''closed''"
| "CircuitState_String StateOpen = ''open''"
| "CircuitState_String StateHalfOpen = ''half-open''"

datatype circuit_error = ErrCircuitOpen | ErrTooManyRequests

record 'l circuit_breaker =
  cb_name :: string
  cb_maxFailures :: "32 word"
  cb_timeout :: duration
  cb_halfOpenMaxReqs :: "32 word"
  cb_state :: circuit_state
  cb_failures :: "32 word"
  cb_successes :: "32 word"
  cb_consecutiveFails :: "32 word"
  cb_halfOpenReqs :: "32 word"
  cb_lastFailTime :: "time option"
  cb_stateChangedTime :: time
  cb_totalRequests :: int
  cb_totalSuccesses :: int
  cb_totalFailures :: int
  cb_totalRejected :: int
  cb_listeners :: "'l list"
  cb_calls :: "('l \<times> string \<times> circuit_state \<times> circuit_state) list"

definition NewCircuitBreaker ::
    "time \<Rightarrow> string \<Rightarrow> 32 word \<Rightarrow> duration \<Rightarrow> 32 word \<Rightarrow> 'l circuit_breaker" where
  "NewCircuitBreaker now name maxFailures timeout maxConcurrent =
     \<lparr>cb_name = name,
      cb_maxFailures = (if maxFailures = 0 then 5 else maxFailures),
      cb_timeout = (if timeout = 0 then 60 * Second else timeout),
      cb_halfOpenMaxReqs = (if maxConcurrent = 0 then 1 else maxConcurrent),
      cb_state = StateClosed, cb_failures = 0, cb_successes = 0, cb_consecutiveFails = 0,
      cb_halfOpenReqs = 0, cb_lastFailTime = None, cb_stateChangedTime = now,
      cb_totalRequests = 0, cb_totalSuccesses = 0, cb_totalFailures = 0, cb_totalRejected = 0,
      cb_listeners = [], cb_calls = []\<rparr>"

section \<open>Operations\<close>

definition setState :: "time \<Rightarrow> circuit_state \<Rightarrow> 'l circuit_breaker \<Rightarrow> 'l circuit_breaker" where
  "setState now newState cb =
     (let oldState = cb_state cb in
      if oldState = newState then cb
      else cb\<lparr>cb_state := newState, cb_stateChangedTime := now,
              cb_calls := cb_calls cb @ map (\<lambda>l. (l, cb_name cb, oldState, newState)) (cb_listeners cb)\<rparr>)"

text \<open>\<^verbatim>\<open>time.Since\<close> of the zero time saturates at the largest duration.\<close>

definition since_last_fail :: "time \<Rightarrow> 'l circuit_breaker \<Rightarrow> duration" where
  "since_last_fail now cb = (case cb_lastFailTime cb of None \<Rightarrow> 2 ^ 63 - 1 | Some t \<Rightarrow> now - t)"

definition beforeRequest :: "time \<Rightarrow> 'l circuit_breaker \<Rightarrow> circuit_error option \<times> 'l circuit_breaker" where
  "beforeRequest now cb0 =
     (let cb = cb0\<lparr>cb_totalRequests := cb_totalRequests cb0 + 1\<rparr> in
      case cb_state cb of
        StateClosed \<Rightarrow> (None, cb)
      | StateOpen \<Rightarrow>
          if since_last_fail now cb > cb_timeout cb then (None, setState now StateHalfOpen cb)
          else (Some ErrCircuitOpen, cb\<lparr>cb_totalRejected := cb_totalRejected cb + 1\<rparr>)
      | StateHalfOpen \<Rightarrow>
          let current = cb_halfOpenReqs cb + 1 in
          if current > cb_halfOpenMaxReqs cb then
            (Some ErrTooManyRequests,
             cb\<lparr>cb_halfOpenReqs := current + NOT 0, cb_totalRejected := cb_totalRejected cb + 1\<rparr>)
          else (None, cb\<lparr>cb_halfOpenReqs := current\<rparr>))"

definition onSuccess :: "time \<Rightarrow> circuit_state \<Rightarrow> 'l circuit_breaker \<Rightarrow> 'l circuit_breaker" where
  "onSuccess now state cb0 =
     (let cb = cb0\<lparr>cb_totalSuccesses := cb_totalSuccesses cb0 + 1\<rparr> in
      case state of
        StateClosed \<Rightarrow> cb\<lparr>cb_failures := 0, cb_consecutiveFails := 0\<rparr>
      | StateHalfOpen \<Rightarrow>
          let cb = cb\<lparr>cb_successes := cb_successes cb + 1\<rparr> in
          if cb_successes cb \<ge> cb_maxFailures cb div 2 then
            (setState now StateClosed cb)\<lparr>cb_failures := 0, cb_consecutiveFails := 0, cb_successes := 0\<rparr>
          else cb
      | StateOpen \<Rightarrow> cb)"

definition onFailure :: "time \<Rightarrow> circuit_state \<Rightarrow> 'l circuit_breaker \<Rightarrow> 'l circuit_breaker" where
  "onFailure now state cb0 =
     (let cb = cb0\<lparr>cb_totalFailures := cb_totalFailures cb0 + 1, cb_failures := cb_failures cb0 + 1,
            cb_consecutiveFails := cb_consecutiveFails cb0 + 1, cb_lastFailTime := Some now\<rparr> in
      case state of
        StateClosed \<Rightarrow> if cb_failures cb \<ge> cb_maxFailures cb then setState now StateOpen cb else cb
      | StateHalfOpen \<Rightarrow> (setState now StateOpen cb)\<lparr>cb_successes := 0\<rparr>
      | StateOpen \<Rightarrow> cb)"

definition afterRequest :: "time \<Rightarrow> bool \<Rightarrow> 'l circuit_breaker \<Rightarrow> 'l circuit_breaker" where
  "afterRequest now ok cb =
     (let state = cb_state cb;
          cb = (if ok then onSuccess now state cb else onFailure now state cb)
      in if state = StateHalfOpen then cb\<lparr>cb_halfOpenReqs := cb_halfOpenReqs cb + NOT 0\<rparr> else cb)"

text \<open>
  \<^verbatim>\<open>Execute\<close> with a function that succeeds or fails as \<open>ok\<close> says: \<open>Inl\<close> when the breaker
  rejects the request, otherwise the function's outcome.
\<close>

definition Execute :: "time \<Rightarrow> time \<Rightarrow> bool \<Rightarrow> 'l circuit_breaker \<Rightarrow> (circuit_error + bool) \<times> 'l circuit_breaker" where
  "Execute now now' ok cb =
     (case beforeRequest now cb of
        (Some err, cb') \<Rightarrow> (Inl err, cb')
      | (None, cb') \<Rightarrow> (Inr ok, afterRequest now' ok cb'))"

definition CircuitBreaker_AddListener :: "'l \<Rightarrow> 'l circuit_breaker \<Rightarrow> 'l circuit_breaker" where
  "CircuitBreaker_AddListener l cb = cb\<lparr>cb_listeners := cb_listeners cb @ [l]\<rparr>"

definition CircuitBreaker_Reset :: "time \<Rightarrow> 'l circuit_breaker \<Rightarrow> 'l circuit_breaker" where
  "CircuitBreaker_Reset now cb =
     (setState now StateClosed cb)\<lparr>cb_failures := 0, cb_successes := 0, cb_consecutiveFails := 0,
        cb_halfOpenReqs := 0\<rparr>"

record circuit_metrics =
  cm_State :: circuit_state
  cm_TotalRequests :: int
  cm_TotalSuccesses :: int
  cm_TotalFailures :: int
  cm_TotalRejected :: int
  cm_ConsecutiveFailures :: "32 word"
  cm_StateChangedAt :: time

definition CircuitBreaker_GetMetrics :: "'l circuit_breaker \<Rightarrow> circuit_metrics" where
  "CircuitBreaker_GetMetrics cb =
     \<lparr>cm_State = cb_state cb, cm_TotalRequests = cb_totalRequests cb,
      cm_TotalSuccesses = cb_totalSuccesses cb, cm_TotalFailures = cb_totalFailures cb,
      cm_TotalRejected = cb_totalRejected cb, cm_ConsecutiveFailures = cb_consecutiveFails cb,
      cm_StateChangedAt = cb_stateChangedTime cb\<rparr>"

section \<open>Interleaved requests\<close>

datatype cb_event = CB_Begin time | CB_End bool time | CB_Reset time

text \<open>The second component counts the requests that were admitted and have not ended.\<close>

inductive cb_step :: "'l circuit_breaker \<times> nat \<Rightarrow> cb_event \<Rightarrow> 'l circuit_breaker \<times> nat \<Rightarrow> bool" where
  admitted: "beforeRequest now cb = (None, cb') \<Longrightarrow> cb_step (cb, n) (CB_Begin now) (cb', Suc n)"
| rejected: "beforeRequest now cb = (Some e, cb') \<Longrightarrow> cb_step (cb, n) (CB_Begin now) (cb', n)"
| ended: "cb_step (cb, Suc n) (CB_End ok now) (afterRequest now ok cb, n)"
| reset: "cb_step (cb, n) (CB_Reset now) (CircuitBreaker_Reset now cb, n)"

inductive cb_reach :: "'l circuit_breaker \<Rightarrow> 'l circuit_breaker \<times> nat \<Rightarrow> bool" for cb0 where
  start: "cb_reach cb0 (cb0, 0)"
| step: "cb_reach cb0 s \<Longrightarrow> cb_step s e s' \<Longrightarrow> cb_reach cb0 s'"

inductive_cases cb_step_cases: "cb_step (cb, n) e s'"

lemmas cb_ops = beforeRequest_def afterRequest_def onSuccess_def onFailure_def setState_def
  CircuitBreaker_Reset_def Let_def

section \<open>Invariant\<close>

definition cb_inv :: "'l circuit_breaker \<times> nat \<Rightarrow> bool" where
  "cb_inv s \<longleftrightarrow>
     (let cb = fst s in
      cb_totalRequests cb = cb_totalRejected cb + cb_totalSuccesses cb + cb_totalFailures cb + int (snd s) \<and>
      cb_maxFailures cb > 0 \<and>
      (cb_state cb = StateClosed \<longrightarrow> cb_failures cb < cb_maxFailures cb))"

lemma cb_inv_step: "cb_inv s \<Longrightarrow> cb_step s e s' \<Longrightarrow> cb_inv s'"
  by (cases s; auto elim!: cb_step_cases simp: cb_inv_def cb_ops not_le
      split: circuit_state.splits if_splits)

lemma cb_inv_reach: "cb_reach cb0 s \<Longrightarrow> cb_inv (cb0, 0) \<Longrightarrow> cb_inv s"
  by (induction rule: cb_reach.induct) (auto intro: cb_inv_step)

lemma cb_inv_New: "cb_inv (NewCircuitBreaker now name maxFailures timeout maxConcurrent, 0)"
  by (simp add: cb_inv_def NewCircuitBreaker_def word_gt_0)

section \<open>Requests one after the other\<close>

text \<open>A list of outcomes executed in sequence, each request at its own two instants.\<close>

fun executes :: "(time \<times> time \<times> bool) list \<Rightarrow> 'l circuit_breaker \<Rightarrow> 'l circuit_breaker" where
  "executes [] cb = cb"
| "executes ((now, now', ok) # es) cb = executes es (snd (Execute now now' ok cb))"

lemma executes_append: "executes (es @ fs) cb = executes fs (executes es cb)"
  by (induction es cb rule: executes.induct) auto

definition fail_streak :: "(time \<times> time \<times> bool) list \<Rightarrow> nat" where
  "fail_streak es = length (takeWhile (\<lambda>(_, _, ok). \<not> ok) (rev es))"

lemma fail_streak_snoc:
  "fail_streak (es @ [(now, now', ok)]) = (if ok then 0 else Suc (fail_streak es))"
  by (simp add: fail_streak_def)

lemma fail_streak_Nil [simp]: "fail_streak [] = 0"
  by (simp add: fail_streak_def)

lemma Execute_closed:
  assumes "cb_state cb = StateClosed"
  shows "snd (Execute now now' ok cb) =
    (let cb = cb\<lparr>cb_totalRequests := cb_totalRequests cb + 1\<rparr>
     in if ok then onSuccess now' StateClosed cb else onFailure now' StateClosed cb)"
  using assms by (simp add: Execute_def beforeRequest_def afterRequest_def Let_def)

lemma unat_succ_less:
  fixes w m :: "'a::len word"
  assumes "unat w < unat m"
  shows "unat (w + 1) = Suc (unat w)"
proof -
  have "unat m < 2 ^ LENGTH('a)" by (rule unsigned_less)
  with assms have "Suc (unat w) < 2 ^ LENGTH('a)" by linarith
  then show ?thesis by (simp add: unat_word_ariths)
qed

lemma closed_streak:
  assumes "cb_state cb = StateClosed" "cb_failures cb = 0"
    and "\<forall>n \<le> length es. fail_streak (take n es) < unat (cb_maxFailures cb)"
  shows "cb_state (executes es cb) = StateClosed \<and>
    unat (cb_failures (executes es cb)) = fail_streak es \<and>
    cb_maxFailures (executes es cb) = cb_maxFailures cb"
  using assms(3)
proof (induction es rule: rev_induct)
  case (snoc e es)
  obtain now now' ok where e: "e = (now, now', ok)" by (cases e) auto
  have "\<forall>n \<le> length es. fail_streak (take n es) < unat (cb_maxFailures cb)"
  proof (intro allI impI)
    fix n assume "n \<le> length es"
    with snoc.prems [rule_format, of n] show "fail_streak (take n es) < unat (cb_maxFailures cb)" by simp
  qed
  with snoc.IH have IH: "cb_state (executes es cb) = StateClosed"
    "unat (cb_failures (executes es cb)) = fail_streak es"
    "cb_maxFailures (executes es cb) = cb_maxFailures cb" by auto
  have last: "fail_streak (es @ [e]) < unat (cb_maxFailures cb)"
    using snoc.prems [rule_format, of "Suc (length es)"] by simp
  show ?case
  proof (cases ok)
    case True
    with IH show ?thesis
      by (simp add: executes_append e Execute_closed onSuccess_def Let_def fail_streak_snoc)
  next
    case False
    with last have lt: "Suc (fail_streak es) < unat (cb_maxFailures cb)"
      by (simp add: e fail_streak_snoc)
    with IH have u: "unat (cb_failures (executes es cb) + 1) = Suc (fail_streak es)"
      using unat_succ_less [of "cb_failures (executes es cb)" "cb_maxFailures cb"] by simp
    with lt have "\<not> cb_maxFailures cb \<le> cb_failures (executes es cb) + 1"
      by (simp add: word_le_nat_alt)
    with IH False u show ?thesis
      by (simp add: executes_append e Execute_closed onFailure_def Let_def fail_streak_snoc)
  qed
qed (simp add: assms)

text \<open>
  The trap: half-open with the counter of half-open requests one below its wrap-around.
  The increment of the next request lands on the largest value, which is above any limit.
\<close>

definition locked :: "'l circuit_breaker \<Rightarrow> bool" where
  "locked cb \<longleftrightarrow> cb_state cb = StateHalfOpen \<and> cb_halfOpenReqs cb = - 2 \<and> cb_halfOpenMaxReqs cb < - 1"

lemma one_less_max: "(1 :: 32 word) < - 1"
  by code_simp

lemma locked_Execute:
  assumes "locked cb"
  shows "fst (Execute now now' ok cb) = Inl ErrTooManyRequests \<and> locked (snd (Execute now now' ok cb))"
  using assms by (simp add: locked_def Execute_def beforeRequest_def Let_def)

lemma locked_executes: "locked cb \<Longrightarrow> locked (executes es cb)"
  by (induction es cb rule: executes.induct) (simp_all add: locked_Execute)

text \<open>How a breaker with the default configuration gets there.\<close>

definition default_params :: "'l circuit_breaker \<Rightarrow> bool" where
  "default_params cb \<longleftrightarrow> cb_maxFailures cb = 5 \<and> cb_timeout cb = 60 * Second \<and>
     cb_halfOpenMaxReqs cb = 1 \<and> cb_successes cb = 0"

lemma default_closed_failure:
  assumes "default_params cb" "cb_state cb = StateClosed"
  shows "default_params (snd (Execute now now' False cb)) \<and>
    cb_halfOpenReqs (snd (Execute now now' False cb)) = cb_halfOpenReqs cb \<and>
    cb_failures (snd (Execute now now' False cb)) = cb_failures cb + 1 \<and>
    cb_lastFailTime (snd (Execute now now' False cb)) = Some now' \<and>
    cb_state (snd (Execute now now' False cb)) = (if cb_failures cb + 1 \<ge> 5 then StateOpen else StateClosed)"
  using assms by (simp add: Execute_closed onFailure_def setState_def default_params_def Let_def)

lemma default_probe_failure:
  assumes "default_params cb" "cb_state cb = StateOpen" "cb_lastFailTime cb = Some t" "60 * Second < now - t"
  shows "default_params (snd (Execute now now' False cb)) \<and>
    cb_halfOpenReqs (snd (Execute now now' False cb)) = cb_halfOpenReqs cb - 1 \<and>
    cb_lastFailTime (snd (Execute now now' False cb)) = Some now' \<and>
    cb_state (snd (Execute now now' False cb)) = StateOpen"
  using assms by (simp add: Execute_def cb_ops since_last_fail_def default_params_def)

lemma default_probe_success:
  assumes "default_params cb" "cb_state cb = StateOpen" "cb_lastFailTime cb = Some t" "60 * Second < now - t"
  shows "cb_halfOpenMaxReqs (snd (Execute now now' True cb)) = 1 \<and>
    cb_halfOpenReqs (snd (Execute now now' True cb)) = cb_halfOpenReqs cb - 1 \<and>
    cb_state (snd (Execute now now' True cb)) = StateHalfOpen"
proof -
  have "\<not> (5 :: 32 word) div 2 \<le> 1" by (simp add: word_le_nat_alt)
  with assms show ?thesis
    by (simp add: Execute_def cb_ops since_last_fail_def default_params_def)
qed

lemma replicate_5: "replicate 5 x = [x, x, x, x, x]"
  by (simp add: eval_nat_numeral)

lemma five_failures_open:
  "let cb = executes (replicate 5 (5, 5, False)) (NewCircuitBreaker 0 name 0 0 0 :: 'l circuit_breaker) in
   default_params cb \<and> cb_state cb = StateOpen \<and> cb_lastFailTime cb = Some 5 \<and> cb_halfOpenReqs cb = 0"
proof -
  let ?f = "\<lambda>cb :: 'l circuit_breaker. snd (Execute 5 5 False cb)"
  let ?P = "\<lambda>k cb. default_params cb \<and> cb_halfOpenReqs cb = 0 \<and> cb_failures cb = k \<and> cb_state cb = StateClosed"
  have step: "?P (k + 1) (?f cb)" if "?P k cb" "\<not> 5 \<le> k + 1" for k cb
    using default_closed_failure [of cb 5 5] that by simp
  have "?P 0 (NewCircuitBreaker 0 name 0 0 0)" by (simp add: NewCircuitBreaker_def default_params_def)
  from step [OF this] have "?P 1 (?f (NewCircuitBreaker 0 name 0 0 0))" by (simp add: word_le_nat_alt)
  from step [OF this] have "?P 2 (?f (?f (NewCircuitBreaker 0 name 0 0 0)))" by (simp add: word_le_nat_alt)
  from step [OF this] have "?P 3 (?f (?f (?f (NewCircuitBreaker 0 name 0 0 0))))" by (simp add: word_le_nat_alt)
  from step [OF this] have "?P 4 (?f (?f (?f (?f (NewCircuitBreaker 0 name 0 0 0)))))" by (simp add: word_le_nat_alt)
  from default_closed_failure [of "?f (?f (?f (?f (NewCircuitBreaker 0 name 0 0 0))))" 5 5] this
  show ?thesis by (simp add: replicate_5 Let_def)
qed

section \<open>Properties\<close>



text \<open>
  The breaker opens at the limit and not before. Requests executed one after the other
  leave a fresh breaker closed as long as no streak of failures reaches the limit; the
  failure that completes such a streak opens it.
\<close>

theorem breaker_opens_at_limit:
  assumes "\<forall>n \<le> length es. fail_streak (take n es) <
      unat (cb_maxFailures (NewCircuitBreaker t0 name mf timeout mc :: 'l circuit_breaker))"
  shows "let cb = NewCircuitBreaker t0 name mf timeout mc :: 'l circuit_breaker in
    cb_state (executes es cb) = StateClosed \<and>
    (Suc (fail_streak es) = unat (cb_maxFailures cb) \<longrightarrow>
      cb_state (executes (es @ [(now, now', False)]) cb) = StateOpen \<and>
      cb_lastFailTime (executes (es @ [(now, now', False)]) cb) = Some now')"
proof -
  let ?cb = "NewCircuitBreaker t0 name mf timeout mc :: 'l circuit_breaker"
  have "cb_state ?cb = StateClosed" "cb_failures ?cb = 0" by (simp_all add: NewCircuitBreaker_def)
  from closed_streak [OF this assms] have
    cl: "cb_state (executes es ?cb) = StateClosed"
      "unat (cb_failures (executes es ?cb)) = fail_streak es"
      "cb_maxFailures (executes es ?cb) = cb_maxFailures ?cb" by auto
  moreover have "cb_maxFailures ?cb \<le> cb_failures (executes es ?cb) + 1"
    if "Suc (fail_streak es) = unat (cb_maxFailures ?cb)"
    using that cl(2) unat_succ_less [of "cb_failures (executes es ?cb)" "cb_maxFailures ?cb"]
    by (simp add: word_le_nat_alt)
  ultimately show ?thesis
    by (simp add: Let_def executes_append Execute_closed onFailure_def setState_def)
qed

theorem breaker_opens_at_limit_witness:
  "cb_state (executes [(1, 2, False), (3, 4, False)]
     (NewCircuitBreaker 0 ''cb'' 2 0 0 :: unit circuit_breaker)) = StateOpen"
proof -
  let ?cb = "NewCircuitBreaker 0 ''cb'' 2 0 0 :: unit circuit_breaker"
  have "unat (cb_maxFailures ?cb) = 2" by (simp add: NewCircuitBreaker_def)
  moreover have "fail_streak [(1, 2, False)] = 1" by (simp add: fail_streak_def)
  moreover have "\<forall>n \<le> length [(1 :: time, 2 :: time, False)].
      fail_streak (take n [(1, 2, False)]) < 2"
    by (auto simp: le_Suc_eq fail_streak_def)
  ultimately show ?thesis
    using breaker_opens_at_limit [of "[(1, 2, False)]" 0 "''cb''" 2 0 0 3 4, where 'l = unit]
    by (simp add: Let_def)
qed



text \<open>
  A breaker can lock itself up. The request that turns an open breaker half-open is not
  counted on entry but is on exit, so the unsigned counter wraps. With the default
  configuration, after five failures, one failed probe and one successful probe, every
  later request is rejected as one too many, at any time and for ever, although nothing is
  running and the backend works.
\<close>

theorem breaker_locks_up:
  assumes "60 * Second < t1 - 5" and "60 * Second < t3 - t2"
  shows "let cb = executes (replicate 5 (5, 5, False) @ [(t1, t2, False), (t3, t4, True)])
      (NewCircuitBreaker 0 name 0 0 0 :: 'l circuit_breaker)
    in fst (Execute now now' ok (executes es cb)) = Inl ErrTooManyRequests"
proof -
  let ?cb = "executes (replicate 5 (5, 5, False)) (NewCircuitBreaker 0 name 0 0 0 :: 'l circuit_breaker)"
  from five_failures_open [of name, where 'l = 'l] have cb: "default_params ?cb" "cb_state ?cb = StateOpen"
    "cb_lastFailTime ?cb = Some 5" "cb_halfOpenReqs ?cb = 0" by (simp_all add: Let_def)
  let ?cb' = "snd (Execute t1 t2 False ?cb)"
  from default_probe_failure [OF cb(1-3) assms(1), of t2] cb(4)
  have cb': "default_params ?cb'" "cb_state ?cb' = StateOpen" "cb_lastFailTime ?cb' = Some t2"
    "cb_halfOpenReqs ?cb' = - 1" by simp_all
  from default_probe_success [OF cb'(1-3) assms(2), of t4] cb'(4)
  have "locked (snd (Execute t3 t4 True ?cb'))" by (simp add: locked_def one_less_max)
  from locked_Execute [OF locked_executes [OF this]] show ?thesis
    by (simp add: Let_def executes_append)
qed

theorem breaker_locks_up_witness:
  "fst (Execute 999000000000 999000000000 True (executes [(300000000000, 300000000000, True)]
     (executes (replicate 5 (5, 5, False) @
        [(100000000000, 100000000000, False), (200000000000, 200000000000, True)])
      (NewCircuitBreaker 0 ''cb'' 0 0 0 :: unit circuit_breaker)))) = Inl ErrTooManyRequests"
  using breaker_locks_up [where ?t1.0 = 100000000000 and ?t2.0 = 100000000000 and
      ?t3.0 = 200000000000 and ?t4.0 = 200000000000 and name = "''cb''" and now = 999000000000 and
      now' = 999000000000 and ok = True and es = "[(300000000000, 300000000000, True)]" and 'l = unit]
  by (simp add: Let_def del: executes.simps)

end
