(* ===== verification/Retry.thy ===== *)
theory Retry
  imports Prelude
begin

text \<open>
  Package \<^verbatim>\<open>pkg/resilience\<close>, file \<^verbatim>\<open>retry.go\<close>. The retried function, the context and the
  random source are arguments indexed by the attempt. The loop may run for ever, so it is a
  partial function: \<open>None\<close> means that it does not return. Durations computed in floating
  point are exact reals truncated towards zero at the conversion.
\<close>

section \<open>Policy and backoff\<close>

datatype ctx_error = Canceled | DeadlineExceeded

record 'e retry_policy =
  rp_MaxAttempts :: int
  rp_InitialDelay :: duration
  rp_MaxDelay :: duration
  rp_Multiplier :: real
  rp_Jitter :: real
  rp_RetryableErrors :: "('e \<Rightarrow> bool) option"

text \<open>An error of the retried function is a context error or another one.\<close>

datatype op_error = CtxErr ctx_error | OpErr string

definition DefaultRetryPolicy :: "op_error retry_policy" where
  "DefaultRetryPolicy =
     \<lparr>rp_MaxAttempts = 3, rp_InitialDelay = 100 * Millisecond, rp_MaxDelay = 10 * Second,
      rp_Multiplier = 2, rp_Jitter = 1 / 10,
      rp_RetryableErrors = Some (\<lambda>err. err \<noteq> CtxErr Canceled \<and> err \<noteq> CtxErr DeadlineExceeded)\<rparr>"

definition calculateBackoff :: "real \<Rightarrow> nat \<Rightarrow> 'e retry_policy \<Rightarrow> duration" where
  "calculateBackoff rand attempt policy =
     (let delay = real_of_int (rp_InitialDelay policy) * rp_Multiplier policy ^ (attempt - 1);
          delay = (if delay > real_of_int (rp_MaxDelay policy) then real_of_int (rp_MaxDelay policy)
                   else delay);
          delay =
            (if rp_Jitter policy > 0 then
               let jitter = delay * rp_Jitter policy * (rand * 2 - 1);
                   delay = delay + jitter
               in if delay < 0 then 0 else delay
             else delay)
      in go_trunc delay)"

section \<open>The loop\<close>

datatype 'e retry_result =
    RetryOk
  | NonRetryable 'e
  | ErrMaxRetriesExceeded nat 'e
  | CancelledAfter nat ctx_error
  | CancelledDuringBackoff ctx_error

record 'e retry_env =
  re_fn :: "nat \<Rightarrow> 'e option"
  re_ctxErr :: "nat \<Rightarrow> ctx_error option"
  re_backoffErr :: "nat \<Rightarrow> ctx_error option"
  re_rand :: "nat \<Rightarrow> real"

text \<open>
  \<open>attempts\<close> is the number of attempts made before the iteration; \<open>calls\<close> collects what
  \<^verbatim>\<open>OnRetry\<close> is called with.
\<close>

partial_function (option) retry_loop ::
    "'e retry_env \<Rightarrow> 'e retry_policy \<Rightarrow> nat \<Rightarrow> (nat \<times> 'e \<times> duration) list
      \<Rightarrow> ('e retry_result \<times> nat \<times> (nat \<times> 'e \<times> duration) list) option" where
  "retry_loop env policy n calls =
     (let attempts = Suc n in
      case re_fn env attempts of
        None \<Rightarrow> Some (RetryOk, attempts, calls)
      | Some err \<Rightarrow>
          if (case rp_RetryableErrors policy of None \<Rightarrow> False | Some f \<Rightarrow> \<not> f err) then
            Some (NonRetryable err, attempts, calls)
          else if rp_MaxAttempts policy > 0 \<and> int attempts \<ge> rp_MaxAttempts policy then
            Some (ErrMaxRetriesExceeded attempts err, attempts, calls)
          else (case re_ctxErr env attempts of
              Some c \<Rightarrow> Some (CancelledAfter attempts c, attempts, calls)
            | None \<Rightarrow>
                let delay = calculateBackoff (re_rand env attempts) attempts policy;
                    calls = calls @ [(attempts, err, delay)]
                in (case re_backoffErr env attempts of
                      Some c \<Rightarrow> Some (CancelledDuringBackoff c, attempts, calls)
                    | None \<Rightarrow> retry_loop env policy attempts calls)))"

declare retry_loop.simps [code]

definition RetryWithContext ::
    "'e retry_env \<Rightarrow> 'e retry_policy \<Rightarrow> ('e retry_result \<times> nat \<times> (nat \<times> 'e \<times> duration) list) option" where
  "RetryWithContext env policy = retry_loop env policy 0 []"

text \<open>\<^verbatim>\<open>Retry\<close> uses the background context, which is never done.\<close>

definition Retry ::
    "(nat \<Rightarrow> 'e option) \<Rightarrow> (nat \<Rightarrow> real) \<Rightarrow> 'e retry_policy
      \<Rightarrow> ('e retry_result \<times> nat \<times> (nat \<times> 'e \<times> duration) list) option" where
  "Retry fn rand policy =
     RetryWithContext \<lparr>re_fn = fn, re_ctxErr = (\<lambda>_. None), re_backoffErr = (\<lambda>_. None), re_rand = rand\<rparr> policy"

section \<open>Retry budget\<close>

record retry_budget =
  rb_TTL :: duration
  rb_MinRetriesPerSecond :: int
  rb_RetryRatio :: real
  rb_requests :: int
  rb_retries :: int
  rb_lastReset :: time

definition NewRetryBudget :: "time \<Rightarrow> duration \<Rightarrow> int \<Rightarrow> real \<Rightarrow> retry_budget" where
  "NewRetryBudget now ttl minRetriesPerSec retryRatio =
     \<lparr>rb_TTL = ttl, rb_MinRetriesPerSecond = minRetriesPerSec, rb_RetryRatio = retryRatio,
      rb_requests = 0, rb_retries = 0, rb_lastReset = now\<rparr>"

definition maybeReset :: "time \<Rightarrow> retry_budget \<Rightarrow> retry_budget" where
  "maybeReset now rb =
     (if now - rb_lastReset rb > rb_TTL rb
      then rb\<lparr>rb_requests := 0, rb_retries := 0, rb_lastReset := now\<rparr> else rb)"

definition CanRetry :: "time \<Rightarrow> retry_budget \<Rightarrow> bool \<times> retry_budget" where
  "CanRetry now rb0 =
     (let rb = maybeReset now rb0;
          elapsed = now - rb_lastReset rb;
          minRetries = go_trunc (real_of_int (rb_MinRetriesPerSecond rb) * Seconds elapsed);
          ratioRetries = go_trunc (real_of_int (rb_requests rb) * rb_RetryRatio rb);
          allowed = (rb_retries rb < minRetries \<or> rb_retries rb < ratioRetries)
      in (allowed, if allowed then rb\<lparr>rb_retries := rb_retries rb + 1\<rparr> else rb))"

definition RetryBudget_RecordRequest :: "time \<Rightarrow> retry_budget \<Rightarrow> retry_budget" where
  "RetryBudget_RecordRequest now rb0 =
     (let rb = maybeReset now rb0 in rb\<lparr>rb_requests := rb_requests rb + 1\<rparr>)"

definition RetryBudget_GetStats :: "retry_budget \<Rightarrow> int \<times> int \<times> real" where
  "RetryBudget_GetStats rb =
     (rb_requests rb, rb_retries rb,
      if rb_requests rb > 0 then real_of_int (rb_retries rb) / real_of_int (rb_requests rb) else 0)"

section \<open>Facts about the loop\<close>

lemma retry_loop_bounded:
  assumes "0 < rp_MaxAttempts policy" and "int n < rp_MaxAttempts policy"
  shows "\<exists>r k cs. retry_loop env policy n calls = Some (r, k, cs) \<and>
    n < k \<and> int k \<le> rp_MaxAttempts policy \<and> length cs + n \<le> k + length calls \<and>
    (r = RetryOk \<longleftrightarrow> re_fn env k = None)"
  using assms(2)
proof (induction "nat (rp_MaxAttempts policy) - n" arbitrary: n calls)
  case 0
  then show ?case by simp
next
  case (Suc d)
  show ?case
  proof (cases "int (Suc n) < rp_MaxAttempts policy")
    case True
    then have d: "d = nat (rp_MaxAttempts policy) - Suc n" using Suc.hyps(2) by simp
    let ?cs = "\<lambda>err. calls @ [(Suc n, err, calculateBackoff (re_rand env (Suc n)) (Suc n) policy)]"
    have "\<exists>r k cs'. retry_loop env policy (Suc n) (?cs err) = Some (r, k, cs') \<and> Suc n < k \<and>
        int k \<le> rp_MaxAttempts policy \<and> length cs' + Suc n \<le> k + length (?cs err) \<and>
        (r = RetryOk \<longleftrightarrow> re_fn env k = None)" for err
      using Suc.hyps(1) [OF d True] .
    then show ?thesis
      using True by (subst retry_loop.simps) (auto simp: Let_def split: option.splits, fastforce+)
  next
    case False
    with Suc.prems assms(1) show ?thesis
      by (subst retry_loop.simps) (auto simp: Let_def split: option.splits)
  qed
qed

lemma retry_loop_forever:
  assumes "\<And>k. \<exists>err. re_fn env k = Some err \<and>
      (\<forall>f. rp_RetryableErrors policy = Some f \<longrightarrow> f err)"
    and "\<And>k. re_ctxErr env k = None" and "\<And>k. re_backoffErr env k = None"
    and "rp_MaxAttempts policy \<le> 0"
  shows "retry_loop env policy n calls = None"
proof -
  have "\<not> (env' = env \<and> policy' = policy)" if "retry_loop env' policy' n calls = Some r"
    for env' :: "'a retry_env" and policy' n calls r
  proof (rule retry_loop.raw_induct [where P = "\<lambda>e p n c r. \<not> (e = env \<and> p = policy)", OF _ that],
      goal_cases)
    case (1 loop env' policy' n calls r)
    show ?case
    proof
      assume eq: "env' = env \<and> policy' = policy"
      obtain err where err: "re_fn env (Suc n) = Some err"
        "\<forall>f. rp_RetryableErrors policy = Some f \<longrightarrow> f err" using assms(1) by blast
      from 1(2) eq err assms(2-4)
      have "loop env policy (Suc n)
          (calls @ [(Suc n, err, calculateBackoff (re_rand env (Suc n)) (Suc n) policy)]) = Some r"
        by (auto simp: Let_def split: option.splits)
      from 1(1) [OF this] show False by simp
    qed
  qed
  then show ?thesis by (metis option.exhaust)
qed

section \<open>Facts about the backoff\<close>

definition capped_delay :: "'e retry_policy \<Rightarrow> nat \<Rightarrow> real" where
  "capped_delay policy attempt =
     min (real_of_int (rp_InitialDelay policy) * rp_Multiplier policy ^ (attempt - 1))
       (real_of_int (rp_MaxDelay policy))"

lemma calculateBackoff_capped:
  "calculateBackoff r attempt policy =
     go_trunc (if rp_Jitter policy > 0
       then max 0 (capped_delay policy attempt * (1 + rp_Jitter policy * (2 * r - 1)))
       else capped_delay policy attempt)"
  by (simp add: calculateBackoff_def capped_delay_def Let_def min_def max_def algebra_simps)

section \<open>Facts about the budget\<close>

definition rb_limit :: "retry_budget \<Rightarrow> int" where
  "rb_limit rb = max (go_trunc (real_of_int (rb_MinRetriesPerSecond rb) * Seconds (rb_TTL rb)))
     (go_trunc (real_of_int (rb_requests rb) * rb_RetryRatio rb))"

definition rb_inv :: "retry_budget \<Rightarrow> bool" where
  "rb_inv rb \<longleftrightarrow> 0 \<le> rb_TTL rb \<and> 0 \<le> rb_MinRetriesPerSecond rb \<and> 0 \<le> rb_RetryRatio rb \<and>
     0 \<le> rb_requests rb \<and> 0 \<le> rb_retries rb \<and> rb_retries rb \<le> rb_limit rb"

datatype rb_event = RB_CanRetry time | RB_Request time

fun rb_step :: "retry_budget \<Rightarrow> rb_event \<Rightarrow> retry_budget" where
  "rb_step rb (RB_CanRetry now) = snd (CanRetry now rb)"
| "rb_step rb (RB_Request now) = RetryBudget_RecordRequest now rb"

lemma rb_limit_nonneg:
  "\<lbrakk>0 \<le> rb_TTL rb; 0 \<le> rb_MinRetriesPerSecond rb\<rbrakk> \<Longrightarrow> 0 \<le> rb_limit rb"
  by (simp add: rb_limit_def go_trunc_def le_max_iff_disj)

lemma rb_inv_maybeReset: "rb_inv rb \<Longrightarrow> rb_inv (maybeReset now rb)"
  by (auto simp: rb_inv_def maybeReset_def intro: rb_limit_nonneg)

lemma maybeReset_recent:
  "0 \<le> rb_TTL rb \<Longrightarrow> now - rb_lastReset (maybeReset now rb) \<le> rb_TTL (maybeReset now rb)"
  by (simp add: maybeReset_def)

lemma rb_inv_CanRetry:
  assumes "rb_inv rb"
  shows "rb_inv (snd (CanRetry now rb))"
proof -
  let ?rb = "maybeReset now rb"
  from assms have inv: "rb_inv ?rb" by (rule rb_inv_maybeReset)
  have "now - rb_lastReset ?rb \<le> rb_TTL ?rb"
    using assms by (intro maybeReset_recent) (simp add: rb_inv_def)
  then have "Seconds (now - rb_lastReset ?rb) \<le> Seconds (rb_TTL ?rb)"
    by (simp add: Seconds_def divide_right_mono)
  then have "go_trunc (real_of_int (rb_MinRetriesPerSecond ?rb) * Seconds (now - rb_lastReset ?rb)) \<le>
      go_trunc (real_of_int (rb_MinRetriesPerSecond ?rb) * Seconds (rb_TTL ?rb))"
    using inv by (intro go_trunc_mono mult_left_mono) (simp_all add: rb_inv_def)
  with inv show ?thesis
    by (auto simp: CanRetry_def Let_def rb_inv_def rb_limit_def)
qed

lemma rb_inv_RecordRequest:
  assumes "rb_inv rb"
  shows "rb_inv (RetryBudget_RecordRequest now rb)"
proof -
  let ?rb = "maybeReset now rb"
  from assms have inv: "rb_inv ?rb" by (rule rb_inv_maybeReset)
  have "go_trunc (real_of_int (rb_requests ?rb) * rb_RetryRatio ?rb) \<le>
      go_trunc (real_of_int (rb_requests ?rb + 1) * rb_RetryRatio ?rb)"
    using inv by (intro go_trunc_mono mult_right_mono) (simp_all add: rb_inv_def)
  with inv show ?thesis
    by (auto simp: RetryBudget_RecordRequest_def Let_def rb_inv_def rb_limit_def)
qed

interpretation rb_calls: event_component rb_step rb_inv
proof
  fix s e
  assume "rb_inv s"
  then show "rb_inv (rb_step s e)"
    by (cases e) (simp_all add: rb_inv_CanRetry rb_inv_RecordRequest)
qed

section \<open>Properties\<close>

text \<open>
  C27: With a positive limit the retry loop always returns, after at least one and at most
  that many attempts, calling \<^verbatim>\<open>OnRetry\<close> no more often than it makes attempts, and it reports
  success exactly when its last attempt succeeded.
\<close>

theorem retry_terminates_within_limit:
  assumes "0 < rp_MaxAttempts policy"
  shows "\<exists>r k cs. RetryWithContext env policy = Some (r, k, cs) \<and> 0 < k \<and>
    int k \<le> rp_MaxAttempts policy \<and> length cs \<le> k \<and> (r = RetryOk \<longleftrightarrow> re_fn env k = None)"
  using retry_loop_bounded [of policy 0 env "[]"] assms by (simp add: RetryWithContext_def)

theorem retry_terminates_within_limit_witness:
  "\<exists>r k cs. RetryWithContext \<lparr>re_fn = (\<lambda>_. Some (OpErr ''refused'')), re_ctxErr = (\<lambda>_. None),
      re_backoffErr = (\<lambda>_. None), re_rand = (\<lambda>_. 0)\<rparr> DefaultRetryPolicy = Some (r, k, cs) \<and>
    k \<le> 3 \<and> r \<noteq> RetryOk"
  using retry_terminates_within_limit [of DefaultRetryPolicy "\<lparr>re_fn = (\<lambda>_. Some (OpErr ''refused'')),
      re_ctxErr = (\<lambda>_. None), re_backoffErr = (\<lambda>_. None), re_rand = (\<lambda>_. 0)\<rparr>"]
  by (auto simp: DefaultRetryPolicy_def)

text \<open>
  A limit of zero means no limit. When every attempt fails with a retryable error and
  the context stays alive, a policy with \<^verbatim>\<open>MaxAttempts\<close> zero never returns, although the field
  is documented as "0 = no retries".
\<close>

theorem zero_limit_never_returns:
  assumes "rp_MaxAttempts policy = 0" and "\<And>k. fn k = Some err"
    and "\<And>f. rp_RetryableErrors policy = Some f \<Longrightarrow> f err"
  shows "Retry fn rnd policy = None"
  unfolding Retry_def RetryWithContext_def using assms by (intro retry_loop_forever) auto

theorem zero_limit_never_returns_witness:
  "Retry (\<lambda>_. Some (OpErr ''refused'')) (\<lambda>_. 0) (DefaultRetryPolicy\<lparr>rp_MaxAttempts := 0\<rparr>) = None"
  by (rule zero_limit_never_returns [where err = "OpErr ''refused''"])
    (auto simp: DefaultRetryPolicy_def)

text \<open>
  Backoff delays are bounded and follow the schedule. For non-negative delays and
  multiplier, a jitter of at most one and a random value between zero and one, the delay is
  never negative and never above the maximum plus its jitter share; without jitter it is
  exactly the initial delay times the power of the multiplier, capped at the maximum.
\<close>

theorem backoff_bounded:
  assumes "0 \<le> rp_InitialDelay policy" and "0 \<le> rp_MaxDelay policy" and "0 \<le> rp_Multiplier policy"
    and "rp_Jitter policy \<le> 1" and "0 \<le> r" and "r \<le> 1"
  shows "0 \<le> calculateBackoff r attempt policy \<and>
    real_of_int (calculateBackoff r attempt policy) \<le>
      real_of_int (rp_MaxDelay policy) * (1 + max 0 (rp_Jitter policy)) \<and>
    (rp_Jitter policy \<le> 0 \<longrightarrow> calculateBackoff r attempt policy =
      \<lfloor>min (real_of_int (rp_InitialDelay policy) * rp_Multiplier policy ^ (attempt - 1))
        (real_of_int (rp_MaxDelay policy))\<rfloor>)"
proof -
  let ?d = "capped_delay policy attempt" and ?m = "real_of_int (rp_MaxDelay policy)"
  let ?j = "rp_Jitter policy"
  have d: "0 \<le> ?d" "?d \<le> ?m" using assms by (auto simp: capped_delay_def)
  show ?thesis
  proof (cases "0 < ?j")
    case True
    have "\<bar>2 * r - 1\<bar> \<le> 1" using assms(5,6) by (auto simp: abs_le_iff)
    then have "\<bar>?j * (2 * r - 1)\<bar> \<le> ?j * 1"
      using True by (simp add: abs_mult)
    then have "0 \<le> 1 + ?j * (2 * r - 1)" "1 + ?j * (2 * r - 1) \<le> 1 + ?j"
      using assms(4) by (auto simp: abs_le_iff)
    with d have "0 \<le> ?d * (1 + ?j * (2 * r - 1))" "?d * (1 + ?j * (2 * r - 1)) \<le> ?m * (1 + ?j)"
      by (simp, intro mult_mono) auto
    with True show ?thesis
      using go_trunc_bounds [of "max 0 (?d * (1 + ?j * (2 * r - 1)))" "?m * (1 + ?j)"]
      by (simp add: calculateBackoff_capped max_def)
  next
    case False
    with d go_trunc_bounds [of ?d ?m] show ?thesis
      by (simp add: calculateBackoff_capped go_trunc_def capped_delay_def)
  qed
qed

theorem backoff_bounded_witness:
  "real_of_int (calculateBackoff (1 / 2) 20 DefaultRetryPolicy) \<le> 11 * 1000000000"
  using backoff_bounded [of DefaultRetryPolicy "1 / 2" 20] by (simp add: DefaultRetryPolicy_def)

text \<open>
  The retry budget holds. After any sequence of recorded requests and retry questions,
  at any times, the retries granted in the current window exceed neither bound: they are at
  most the larger of what the minimum rate allows over a whole window and the configured
  share of the requests recorded.
\<close>

theorem retry_budget_respected:
  assumes "0 \<le> ttl" and "0 \<le> minRetries" and "0 \<le> ratio"
  shows "let rb = run rb_step (NewRetryBudget now ttl minRetries ratio) es in
    rb_retries rb \<le> max (go_trunc (real_of_int (rb_MinRetriesPerSecond rb) * Seconds (rb_TTL rb)))
      (go_trunc (real_of_int (rb_requests rb) * rb_RetryRatio rb))"
proof -
  have "rb_inv (NewRetryBudget now ttl minRetries ratio)"
    using assms rb_limit_nonneg [of "NewRetryBudget now ttl minRetries ratio"]
    by (simp add: rb_inv_def NewRetryBudget_def)
  from rb_calls.run_inv [OF this, of es] show ?thesis
    by (simp add: rb_inv_def rb_limit_def Let_def)
qed

theorem retry_budget_respected_witness:
  "let rb = run rb_step (NewRetryBudget 0 (10 * Second) 0 (1 / 5)) (replicate 10 (RB_Request 1) @ [RB_CanRetry 2])
   in rb_retries rb \<le> max (go_trunc (real_of_int (rb_MinRetriesPerSecond rb) * Seconds (rb_TTL rb)))
      (go_trunc (real_of_int (rb_requests rb) * rb_RetryRatio rb))"
  by (rule retry_budget_respected) simp_all

end
