(* ===== verification/Timeouts.thy ===== *)
theory Timeouts
  imports Retry
begin

text \<open>
  Package \<^verbatim>\<open>pkg/resilience\<close>, file \<^verbatim>\<open>timeout.go\<close>. A context is what its users can ask of it:
  its deadline. Which arm of a \<^verbatim>\<open>select\<close> fires first, the function's result or the end of the
  context, is an argument. The library functions \<^verbatim>\<open>context.WithDeadline\<close> and
  \<^verbatim>\<open>context.WithTimeout\<close> keep the earlier of the parent's deadline and the new one.
\<close>

section \<open>Contexts\<close>

record context_t =
  ctx_deadline :: "time option"

definition Background :: context_t where
  "Background = \<lparr>ctx_deadline = None\<rparr>"

definition WithDeadline :: "context_t \<Rightarrow> time \<Rightarrow> context_t" where
  "WithDeadline parent d =
     (case ctx_deadline parent of
        Some cur \<Rightarrow> if cur < d then parent else parent\<lparr>ctx_deadline := Some d\<rparr>
      | None \<Rightarrow> parent\<lparr>ctx_deadline := Some d\<rparr>)"

definition context_WithTimeout :: "time \<Rightarrow> context_t \<Rightarrow> duration \<Rightarrow> context_t" where
  "context_WithTimeout now parent timeout = WithDeadline parent (now + timeout)"

section \<open>Timeout manager\<close>

record timeout_config =
  tc_RequestTimeout :: duration
  tc_ConnectTimeout :: duration
  tc_ReadTimeout :: duration
  tc_WriteTimeout :: duration
  tc_IdleTimeout :: duration

definition DefaultTimeoutConfig :: timeout_config where
  "DefaultTimeoutConfig =
     \<lparr>tc_RequestTimeout = 30 * Second, tc_ConnectTimeout = 5 * Second, tc_ReadTimeout = 30 * Second,
      tc_WriteTimeout = 30 * Second, tc_IdleTimeout = 60 * Second\<rparr>"

record timeout_manager =
  tm_config :: timeout_config
  tm_totalTimeouts :: int
  tm_connectTimeouts :: int
  tm_readTimeouts :: int
  tm_writeTimeouts :: int

definition NewTimeoutManager :: "timeout_config \<Rightarrow> timeout_manager" where
  "NewTimeoutManager config =
     \<lparr>tm_config = config, tm_totalTimeouts = 0, tm_connectTimeouts = 0, tm_readTimeouts = 0,
      tm_writeTimeouts = 0\<rparr>"

text \<open>The arm of the \<^verbatim>\<open>select\<close> that fires: the function's result, or the context's error.\<close>

datatype 'e race = Finished "'e option" | Done ctx_error

datatype 'e timeout_result = FnResult "'e option" | ErrTimeout | CtxError ctx_error

definition WithTimeoutContext :: "'e race \<Rightarrow> timeout_manager \<Rightarrow> 'e timeout_result \<times> timeout_manager" where
  "WithTimeoutContext race tm =
     (case race of
        Finished err \<Rightarrow> (FnResult err, tm)
      | Done c \<Rightarrow>
          (if c = DeadlineExceeded then ErrTimeout else CtxError c,
           tm\<lparr>tm_totalTimeouts := tm_totalTimeouts tm + 1\<rparr>))"

text \<open>
  When the arms fire. \<open>finish\<close> is the moment at which the function returns, with its error, if it
  does; a context derived from \<^verbatim>\<open>Background\<close> ends at its deadline and not before. If both happen at
  the same moment the runtime chooses, here by \<open>pick\<close>. The result is the arm and its moment.
\<close>

definition select_race :: "context_t \<Rightarrow> bool \<Rightarrow> (time \<times> 'e option) option \<Rightarrow> ('e race \<times> time) option" where
  "select_race ctx pick finish =
     (case (ctx_deadline ctx, finish) of
        (None, None) \<Rightarrow> None
      | (None, Some (t, err)) \<Rightarrow> Some (Finished err, t)
      | (Some d, None) \<Rightarrow> Some (Done DeadlineExceeded, d)
      | (Some d, Some (t, err)) \<Rightarrow>
          if t < d \<or> t = d \<and> pick then Some (Finished err, t) else Some (Done DeadlineExceeded, d))"

definition WithTimeout ::
    "time \<Rightarrow> duration \<Rightarrow> bool \<Rightarrow> (time \<times> 'e option) option \<Rightarrow> timeout_manager
      \<Rightarrow> ('e timeout_result \<times> time \<times> timeout_manager) option" where
  "WithTimeout now timeout pick finish tm =
     (case select_race (context_WithTimeout now Background timeout) pick finish of
        None \<Rightarrow> None
      | Some (race, t) \<Rightarrow> (case WithTimeoutContext race tm of (r, tm') \<Rightarrow> Some (r, max now t, tm')))"

definition WithRequestTimeout ::
    "time \<Rightarrow> bool \<Rightarrow> (time \<times> 'e option) option \<Rightarrow> timeout_manager
      \<Rightarrow> ('e timeout_result \<times> time \<times> timeout_manager) option" where
  "WithRequestTimeout now pick finish tm =
     WithTimeout now (tc_RequestTimeout (tm_config tm)) pick finish tm"

definition WithConnectTimeout :: "'e race \<Rightarrow> timeout_manager \<Rightarrow> 'e timeout_result \<times> timeout_manager" where
  "WithConnectTimeout race tm =
     (case race of
        Finished err \<Rightarrow> (FnResult err, tm)
      | Done c \<Rightarrow>
          (ErrTimeout, tm\<lparr>tm_connectTimeouts := tm_connectTimeouts tm + 1,
             tm_totalTimeouts := tm_totalTimeouts tm + 1\<rparr>))"

definition CreateRequestContext :: "time \<Rightarrow> context_t option \<Rightarrow> timeout_manager \<Rightarrow> context_t" where
  "CreateRequestContext now parent tm =
     context_WithTimeout now (case parent of None \<Rightarrow> Background | Some p \<Rightarrow> p)
       (tc_RequestTimeout (tm_config tm))"

definition CreateConnectContext :: "time \<Rightarrow> context_t option \<Rightarrow> timeout_manager \<Rightarrow> context_t" where
  "CreateConnectContext now parent tm =
     context_WithTimeout now (case parent of None \<Rightarrow> Background | Some p \<Rightarrow> p)
       (tc_ConnectTimeout (tm_config tm))"

definition RecordConnectTimeout :: "timeout_manager \<Rightarrow> timeout_manager" where
  "RecordConnectTimeout tm = tm\<lparr>tm_connectTimeouts := tm_connectTimeouts tm + 1,
     tm_totalTimeouts := tm_totalTimeouts tm + 1\<rparr>"

definition RecordReadTimeout :: "timeout_manager \<Rightarrow> timeout_manager" where
  "RecordReadTimeout tm = tm\<lparr>tm_readTimeouts := tm_readTimeouts tm + 1,
     tm_totalTimeouts := tm_totalTimeouts tm + 1\<rparr>"

definition RecordWriteTimeout :: "timeout_manager \<Rightarrow> timeout_manager" where
  "RecordWriteTimeout tm = tm\<lparr>tm_writeTimeouts := tm_writeTimeouts tm + 1,
     tm_totalTimeouts := tm_totalTimeouts tm + 1\<rparr>"

definition TimeoutManager_GetMetrics :: "timeout_manager \<Rightarrow> int \<times> int \<times> int \<times> int" where
  "TimeoutManager_GetMetrics tm =
     (tm_totalTimeouts tm, tm_connectTimeouts tm, tm_readTimeouts tm, tm_writeTimeouts tm)"

definition UpdateConfig :: "timeout_config \<Rightarrow> timeout_manager \<Rightarrow> timeout_manager" where
  "UpdateConfig config tm = tm\<lparr>tm_config := config\<rparr>"

section \<open>Deadlines\<close>

definition CreateDeadline :: "time \<Rightarrow> duration \<Rightarrow> time" where
  "CreateDeadline now defaultTimeout = now + defaultTimeout"

definition CreateDeadlineWithTimeout :: "time \<Rightarrow> duration \<Rightarrow> time" where
  "CreateDeadlineWithTimeout now timeout = now + timeout"

definition IsExpired :: "time \<Rightarrow> time \<Rightarrow> bool" where
  "IsExpired now deadline \<longleftrightarrow> now > deadline"

definition RemainingTime :: "time \<Rightarrow> time \<Rightarrow> duration" where
  "RemainingTime now deadline =
     (let remaining = deadline - now in if remaining < 0 then 0 else remaining)"

text \<open>The clock is read once for the comparison and once by \<^verbatim>\<open>context.WithTimeout\<close>.\<close>

definition PropagateDeadline :: "time \<Rightarrow> time \<Rightarrow> context_t \<Rightarrow> duration \<Rightarrow> context_t" where
  "PropagateDeadline now now' parent timeout =
     (case ctx_deadline parent of
        Some deadline \<Rightarrow>
          let remaining = deadline - now in
          if remaining < timeout then WithDeadline parent deadline
          else context_WithTimeout now' parent timeout
      | None \<Rightarrow> context_WithTimeout now' parent timeout)"

section \<open>Statistics\<close>

datatype 'e tm_event =
    TM_Timeout "'e race" | TM_Connect "'e race" | TM_RecordConnect | TM_RecordRead | TM_RecordWrite

fun tm_step :: "timeout_manager \<Rightarrow> 'e tm_event \<Rightarrow> timeout_manager" where
  "tm_step tm (TM_Timeout r) = snd (WithTimeoutContext r tm)"
| "tm_step tm (TM_Connect r) = snd (WithConnectTimeout r tm)"
| "tm_step tm TM_RecordConnect = RecordConnectTimeout tm"
| "tm_step tm TM_RecordRead = RecordReadTimeout tm"
| "tm_step tm TM_RecordWrite = RecordWriteTimeout tm"

definition tm_inv :: "timeout_manager \<Rightarrow> bool" where
  "tm_inv tm \<longleftrightarrow> tm_connectTimeouts tm + tm_readTimeouts tm + tm_writeTimeouts tm \<le> tm_totalTimeouts tm"

interpretation tm_calls: event_component tm_step tm_inv
proof
  fix s and e :: "'a tm_event"
  assume "tm_inv s"
  then show "tm_inv (tm_step s e)"
    by (cases e) (auto simp: tm_inv_def WithTimeoutContext_def WithConnectTimeout_def
        RecordConnectTimeout_def RecordReadTimeout_def RecordWriteTimeout_def split: race.splits)
qed

section \<open>Properties\<close>

text \<open>
  A propagated deadline never outlives its parent. The derived context always has a
  deadline; it is no later than the parent's, no later than the requested timeout after the
  second clock reading, and it is the parent's own deadline whenever less than the
  timeout remains until it.
\<close>

theorem propagated_deadline_earliest:
  assumes "now \<le> now'"
  shows "\<exists>d. ctx_deadline (PropagateDeadline now now' parent timeout) = Some d \<and>
    d \<le> now' + timeout \<and>
    (\<forall>p. ctx_deadline parent = Some p \<longrightarrow> d \<le> p \<and> (p - now < timeout \<longrightarrow> d = p) \<and>
      d = min p (now' + timeout))"
  using assms
  by (auto simp: PropagateDeadline_def context_WithTimeout_def WithDeadline_def Let_def
      split: option.splits)

theorem propagated_deadline_earliest_witness:
  "\<exists>d. ctx_deadline (PropagateDeadline 5 6 \<lparr>ctx_deadline = Some 20\<rparr> 100) = Some d \<and> d = 20"
  using propagated_deadline_earliest [of 5 6 "\<lparr>ctx_deadline = Some 20\<rparr>" 100] by auto



end
