(* ===== verification/RateLimit.thy ===== *)
theory RateLimit
  imports Prelude
begin

text \<open>
  Package \<^verbatim>\<open>pkg/security\<close>, file \<^verbatim>\<open>ratelimit.go\<close>: the token bucket, the sliding window, the
  per-IP wrapper and the conjunction of several limiters. One clock reading per call: the
  second reading of a token bucket's first request only refills a full bucket. The
  \<^verbatim>\<open>RateLimiter\<close> interface is the locale \<open>rate_limiter\<close>, whose law is that keys do not
  influence each other; limiters stored behind the interface are the datatype \<open>limiter\<close>.
\<close>

section \<open>Token bucket\<close>

record bucket =
  bk_tokens :: real
  bk_lastRefill :: time

record token_bucket =
  tb_rate :: real
  tb_capacity :: int
  tb_buckets :: "(string, bucket) gomap"
  tb_bucketTTL :: duration
  tb_totalRequests :: int
  tb_allowedCount :: int
  tb_blockedCount :: int

definition NewTokenBucket :: "real \<Rightarrow> int \<Rightarrow> token_bucket" where
  "NewTokenBucket rate capacity =
     \<lparr>tb_rate = rate, tb_capacity = capacity, tb_buckets = [], tb_bucketTTL = 5 * Minute,
      tb_totalRequests = 0, tb_allowedCount = 0, tb_blockedCount = 0\<rparr>"

definition TokenBucket_Allow :: "time \<Rightarrow> string \<Rightarrow> token_bucket \<Rightarrow> bool \<times> token_bucket" where
  "TokenBucket_Allow now key tb0 =
     (let tb = tb0\<lparr>tb_totalRequests := tb_totalRequests tb0 + 1\<rparr>;
          b = (case gm_get (tb_buckets tb) key of
                 Some b \<Rightarrow> b
               | None \<Rightarrow> \<lparr>bk_tokens = real_of_int (tb_capacity tb), bk_lastRefill = now\<rparr>);
          elapsed = Seconds (now - bk_lastRefill b);
          tokens = bk_tokens b + elapsed * tb_rate tb;
          tokens = (if tokens > real_of_int (tb_capacity tb) then real_of_int (tb_capacity tb) else tokens)
      in if tokens \<ge> 1 then
           (True, tb\<lparr>tb_buckets := gm_set key \<lparr>bk_tokens = tokens - 1, bk_lastRefill = now\<rparr> (tb_buckets tb),
              tb_allowedCount := tb_allowedCount tb + 1\<rparr>)
         else
           (False, tb\<lparr>tb_buckets := gm_set key \<lparr>bk_tokens = tokens, bk_lastRefill = now\<rparr> (tb_buckets tb),
              tb_blockedCount := tb_blockedCount tb + 1\<rparr>))"

definition TokenBucket_Reset :: "string \<Rightarrow> token_bucket \<Rightarrow> token_bucket" where
  "TokenBucket_Reset key tb = tb\<lparr>tb_buckets := gm_del key (tb_buckets tb)\<rparr>"

text \<open>One round of the cleanup goroutine.\<close>

definition TokenBucket_cleanup :: "time \<Rightarrow> token_bucket \<Rightarrow> token_bucket" where
  "TokenBucket_cleanup now tb =
     tb\<lparr>tb_buckets := gm_filter (\<lambda>_ b. \<not> now - bk_lastRefill b > tb_bucketTTL tb) (tb_buckets tb)\<rparr>"

section \<open>Sliding window\<close>

record sliding_window =
  sw_limit :: int
  sw_window :: duration
  sw_windows :: "(string, time list) gomap"
  sw_totalRequests :: int
  sw_allowedCount :: int
  sw_blockedCount :: int

definition NewSlidingWindow :: "int \<Rightarrow> duration \<Rightarrow> sliding_window" where
  "NewSlidingWindow limit window =
     \<lparr>sw_limit = limit, sw_window = window, sw_windows = [], sw_totalRequests = 0,
      sw_allowedCount = 0, sw_blockedCount = 0\<rparr>"

definition SlidingWindow_Allow :: "time \<Rightarrow> string \<Rightarrow> sliding_window \<Rightarrow> bool \<times> sliding_window" where
  "SlidingWindow_Allow now key sw0 =
     (let sw = sw0\<lparr>sw_totalRequests := sw_totalRequests sw0 + 1\<rparr>;
          requests = (case gm_get (sw_windows sw) key of Some w \<Rightarrow> w | None \<Rightarrow> []);
          cutoff = now - sw_window sw;
          validRequests = filter (\<lambda>t. t > cutoff) requests
      in if int (length validRequests) < sw_limit sw then
           (True, sw\<lparr>sw_windows := gm_set key (validRequests @ [now]) (sw_windows sw),
              sw_allowedCount := sw_allowedCount sw + 1\<rparr>)
         else
           (False, sw\<lparr>sw_windows := gm_set key validRequests (sw_windows sw),
              sw_blockedCount := sw_blockedCount sw + 1\<rparr>))"

definition SlidingWindow_Reset :: "string \<Rightarrow> sliding_window \<Rightarrow> sliding_window" where
  "SlidingWindow_Reset key sw = sw\<lparr>sw_windows := gm_del key (sw_windows sw)\<rparr>"

definition SlidingWindow_cleanup :: "time \<Rightarrow> sliding_window \<Rightarrow> sliding_window" where
  "SlidingWindow_cleanup now sw =
     (let cutoff = now - sw_window sw * 2
      in sw\<lparr>sw_windows := gm_filter (\<lambda>_ w. \<not> (w = [] \<or> last w < cutoff)) (sw_windows sw)\<rparr>)"

section \<open>Limiters behind the interface\<close>

datatype limiter =
    TokenBucketLimiter token_bucket
  | SlidingWindowLimiter sliding_window
  | CombinedLimiter "limiter list"

definition NewCombinedRateLimiter :: "limiter list \<Rightarrow> string + limiter" where
  "NewCombinedRateLimiter limiters =
     (if length limiters = 0 then Inl ''at least one rate limiter is required''
      else Inr (CombinedLimiter limiters))"

fun limiter_Allow :: "time \<Rightarrow> string \<Rightarrow> limiter \<Rightarrow> bool \<times> limiter"
  and CombinedRateLimiter_Allow :: "time \<Rightarrow> string \<Rightarrow> limiter list \<Rightarrow> bool \<times> limiter list" where
  "limiter_Allow now key (TokenBucketLimiter tb) =
     (let (ok, tb') = TokenBucket_Allow now key tb in (ok, TokenBucketLimiter tb'))"
| "limiter_Allow now key (SlidingWindowLimiter sw) =
     (let (ok, sw') = SlidingWindow_Allow now key sw in (ok, SlidingWindowLimiter sw'))"
| "limiter_Allow now key (CombinedLimiter ls) =
     (let (ok, ls') = CombinedRateLimiter_Allow now key ls in (ok, CombinedLimiter ls'))"
| "CombinedRateLimiter_Allow now key [] = (True, [])"
| "CombinedRateLimiter_Allow now key (l # ls) =
     (let (ok, l') = limiter_Allow now key l in
      if \<not> ok then (False, l' # ls)
      else let (ok, ls') = CombinedRateLimiter_Allow now key ls in (ok, l' # ls'))"

fun limiter_Reset :: "string \<Rightarrow> limiter \<Rightarrow> limiter" where
  "limiter_Reset key (TokenBucketLimiter tb) = TokenBucketLimiter (TokenBucket_Reset key tb)"
| "limiter_Reset key (SlidingWindowLimiter sw) = SlidingWindowLimiter (SlidingWindow_Reset key sw)"
| "limiter_Reset key (CombinedLimiter ls) = CombinedLimiter (map (limiter_Reset key) ls)"

definition AllowIP :: "time \<Rightarrow> string \<Rightarrow> limiter \<Rightarrow> bool \<times> limiter" where
  "AllowIP now ip l = limiter_Allow now ip l"

definition ResetIP :: "string \<Rightarrow> limiter \<Rightarrow> limiter" where
  "ResetIP ip l = limiter_Reset ip l"

section \<open>The interface\<close>

text \<open>The outcomes of a trace of requests, and the state it leaves.\<close>

fun allows :: "(time \<Rightarrow> string \<Rightarrow> 's \<Rightarrow> bool \<times> 's) \<Rightarrow> (time \<times> string) list \<Rightarrow> 's \<Rightarrow> bool list" where
  "allows allow [] s = []"
| "allows allow ((now, key) # rs) s = fst (allow now key s) # allows allow rs (snd (allow now key s))"

text \<open>
  What a client of the interface relies on: the part of the state a key can see (\<open>view\<close>)
  decides the outcome of its requests, and requests for other keys do not change it. Then a
  key's outcomes in any trace are those of the trace without the other keys' requests.
\<close>

locale rate_limiter =
  fixes allow :: "time \<Rightarrow> string \<Rightarrow> 's \<Rightarrow> bool \<times> 's"
    and view :: "'s \<Rightarrow> string \<Rightarrow> 'v"
  assumes allow_view: "view s k = view s' k \<Longrightarrow>
      fst (allow now k s) = fst (allow now k s') \<and>
      view (snd (allow now k s)) k = view (snd (allow now k s')) k"
    and allow_other: "k' \<noteq> k \<Longrightarrow> view (snd (allow now k s)) k' = view s k'"
begin

lemma outcomes_isolated:
  "view s k = view s' k \<Longrightarrow>
   map snd (filter (\<lambda>e. snd (fst e) = k) (zip rs (allows allow rs s))) =
   allows allow (filter (\<lambda>r. snd r = k) rs) s'"
proof (induction rs arbitrary: s s')
  case (Cons r rs)
  obtain now key where r: "r = (now, key)" by fastforce
  show ?case
  proof (cases "key = k")
    case True
    from allow_view [OF Cons.prems, of now] have
      "fst (allow now k s) = fst (allow now k s')"
      "view (snd (allow now k s)) k = view (snd (allow now k s')) k" by auto
    with True Cons.IH show ?thesis by (simp add: r)
  next
    case False
    then have "view (snd (allow now key s)) k = view s' k"
      using allow_other [of k key now s] Cons.prems by simp
    with False Cons.IH show ?thesis by (simp add: r)
  qed
qed simp

end

definition tb_view :: "token_bucket \<Rightarrow> string \<Rightarrow> real \<times> int \<times> bucket option" where
  "tb_view tb k = (tb_rate tb, tb_capacity tb, gm_get (tb_buckets tb) k)"

definition sw_view :: "sliding_window \<Rightarrow> string \<Rightarrow> int \<times> duration \<times> time list option" where
  "sw_view sw k = (sw_limit sw, sw_window sw, gm_get (sw_windows sw) k)"

text \<open>The tokens a request for \<open>k\<close> finds at time \<open>now\<close>.\<close>

definition tb_available :: "time \<Rightarrow> token_bucket \<Rightarrow> string \<Rightarrow> real" where
  "tb_available now tb k =
     (case gm_get (tb_buckets tb) k of
        None \<Rightarrow> real_of_int (tb_capacity tb)
      | Some b \<Rightarrow> min (real_of_int (tb_capacity tb))
          (bk_tokens b + Seconds (now - bk_lastRefill b) * tb_rate tb))"

lemma TokenBucket_Allow_available:
  "TokenBucket_Allow now k tb =
     (let a = tb_available now tb k in
      (a \<ge> 1, tb\<lparr>tb_totalRequests := tb_totalRequests tb + 1,
         tb_buckets := gm_set k \<lparr>bk_tokens = (if a \<ge> 1 then a - 1 else a), bk_lastRefill = now\<rparr> (tb_buckets tb),
         tb_allowedCount := tb_allowedCount tb + (if a \<ge> 1 then 1 else 0),
         tb_blockedCount := tb_blockedCount tb + (if a \<ge> 1 then 0 else 1)\<rparr>))"
  by (auto simp: TokenBucket_Allow_def tb_available_def Let_def min_def split: option.splits)

interpretation tb: rate_limiter TokenBucket_Allow tb_view
  by unfold_locales
    (auto simp: TokenBucket_Allow_available tb_available_def tb_view_def Let_def split: option.splits)

interpretation sw: rate_limiter SlidingWindow_Allow sw_view
  by unfold_locales (auto simp: SlidingWindow_Allow_def sw_view_def Let_def)

text \<open>A limiter behind the interface shows a key what its parts show it.\<close>

datatype limiter_view =
    BucketView "real \<times> int \<times> bucket option"
  | WindowView "int \<times> duration \<times> time list option"
  | CombinedView "limiter_view list"

fun lim_view :: "limiter \<Rightarrow> string \<Rightarrow> limiter_view" where
  "lim_view (TokenBucketLimiter tb) k = BucketView (tb_view tb k)"
| "lim_view (SlidingWindowLimiter sw) k = WindowView (sw_view sw k)"
| "lim_view (CombinedLimiter ls) k = CombinedView (map (\<lambda>l. lim_view l k) ls)"

lemma Combined_Allow_Cons:
  "CombinedRateLimiter_Allow now k (l # ls) =
     (if fst (limiter_Allow now k l)
      then (fst (CombinedRateLimiter_Allow now k ls),
            snd (limiter_Allow now k l) # snd (CombinedRateLimiter_Allow now k ls))
      else (False, snd (limiter_Allow now k l) # ls))"
  by (simp add: split_beta Let_def)

declare CombinedRateLimiter_Allow.simps(2) [simp del]

lemma lim_allow_other:
  assumes "k' \<noteq> k"
  shows "lim_view (snd (limiter_Allow now k l)) k' = lim_view l k'"
proof (induction l)
  case (CombinedLimiter ls)
  then have "map (\<lambda>l. lim_view l k') (snd (CombinedRateLimiter_Allow now k ls)) = map (\<lambda>l. lim_view l k') ls"
    by (induction ls) (auto simp: Combined_Allow_Cons)
  then show ?case by (simp add: split_beta Let_def)
qed (use assms in \<open>simp_all add: split_beta Let_def tb.allow_other sw.allow_other\<close>)

definition same_step :: "time \<Rightarrow> string \<Rightarrow> limiter \<Rightarrow> limiter \<Rightarrow> bool" where
  "same_step now k l l' \<longleftrightarrow>
     fst (limiter_Allow now k l) = fst (limiter_Allow now k l') \<and>
     lim_view (snd (limiter_Allow now k l)) k = lim_view (snd (limiter_Allow now k l')) k"

lemma combined_allow_view:
  assumes "\<And>l l'. l \<in> set ls \<Longrightarrow> lim_view l k = lim_view l' k \<Longrightarrow> same_step now k l l'"
    and "map (\<lambda>l. lim_view l k) ls = map (\<lambda>l. lim_view l k) ls'"
  shows "fst (CombinedRateLimiter_Allow now k ls) = fst (CombinedRateLimiter_Allow now k ls') \<and>
    map (\<lambda>l. lim_view l k) (snd (CombinedRateLimiter_Allow now k ls)) =
      map (\<lambda>l. lim_view l k) (snd (CombinedRateLimiter_Allow now k ls'))"
  using assms
proof (induction ls arbitrary: ls')
  case (Cons l ls)
  then obtain m ms where ls': "ls' = m # ms" "lim_view l k = lim_view m k"
    "map (\<lambda>l. lim_view l k) ls = map (\<lambda>l. lim_view l k) ms" by (cases ls') auto
  from Cons.prems(1) [of l m] ls'(2) have "same_step now k l m" by simp
  moreover from Cons.IH [of ms] Cons.prems(1) ls'(3)
  have "fst (CombinedRateLimiter_Allow now k ls) = fst (CombinedRateLimiter_Allow now k ms) \<and>
    map (\<lambda>l. lim_view l k) (snd (CombinedRateLimiter_Allow now k ls)) =
      map (\<lambda>l. lim_view l k) (snd (CombinedRateLimiter_Allow now k ms))" by simp
  ultimately show ?case by (simp add: ls' same_step_def Combined_Allow_Cons)
qed simp

lemma lim_allow_view: "lim_view l k = lim_view l' k \<Longrightarrow> same_step now k l l'"
proof (induction l arbitrary: l')
  case (TokenBucketLimiter tb)
  then obtain tb' where l': "l' = TokenBucketLimiter tb'" "tb_view tb k = tb_view tb' k"
    by (cases l') auto
  from tb.allow_view [OF l'(2), of now] show ?case by (simp add: same_step_def l' split_beta Let_def)
next
  case (SlidingWindowLimiter sw)
  then obtain sw' where l': "l' = SlidingWindowLimiter sw'" "sw_view sw k = sw_view sw' k"
    by (cases l') auto
  from sw.allow_view [OF l'(2), of now] show ?case by (simp add: same_step_def l' split_beta Let_def)
next
  case (CombinedLimiter ls)
  then obtain ls' where l': "l' = CombinedLimiter ls'"
    "map (\<lambda>l. lim_view l k) ls = map (\<lambda>l. lim_view l k) ls'" by (cases l') auto
  from combined_allow_view [OF CombinedLimiter.IH l'(2)] show ?case
    by (simp add: same_step_def l'(1) split_beta Let_def)
qed

interpretation lim: rate_limiter limiter_Allow lim_view
proof
  fix s s' k now
  assume "lim_view s k = lim_view s' k"
  then show "fst (limiter_Allow now k s) = fst (limiter_Allow now k s') \<and>
      lim_view (snd (limiter_Allow now k s)) k = lim_view (snd (limiter_Allow now k s')) k"
    by (rule lim_allow_view [unfolded same_step_def])
next
  fix k' k now s
  assume "k' \<noteq> (k :: string)"
  then show "lim_view (snd (limiter_Allow now k s)) k' = lim_view s k'"
    by (rule lim_allow_other)
qed

section \<open>Traces with cleanup\<close>

datatype rl_event = RL_Allow time string | RL_Cleanup time

fun rl_time :: "rl_event \<Rightarrow> time" where
  "rl_time (RL_Allow now key) = now"
| "rl_time (RL_Cleanup now) = now"

fun tb_step :: "token_bucket \<Rightarrow> rl_event \<Rightarrow> token_bucket" where
  "tb_step tb (RL_Allow now key) = snd (TokenBucket_Allow now key tb)"
| "tb_step tb (RL_Cleanup now) = TokenBucket_cleanup now tb"

text \<open>The times at which requests for \<open>k\<close> were granted.\<close>

fun tb_grants :: "string \<Rightarrow> rl_event list \<Rightarrow> token_bucket \<Rightarrow> time list" where
  "tb_grants k [] tb = []"
| "tb_grants k (e # es) tb =
     (case e of RL_Allow now key \<Rightarrow> if key = k \<and> fst (TokenBucket_Allow now key tb) then [now] else []
      | RL_Cleanup now \<Rightarrow> []) @ tb_grants k es (tb_step tb e)"

fun sw_step :: "sliding_window \<Rightarrow> rl_event \<Rightarrow> sliding_window" where
  "sw_step sw (RL_Allow now key) = snd (SlidingWindow_Allow now key sw)"
| "sw_step sw (RL_Cleanup now) = SlidingWindow_cleanup now sw"

fun sw_grants :: "string \<Rightarrow> rl_event list \<Rightarrow> sliding_window \<Rightarrow> time list" where
  "sw_grants k [] sw = []"
| "sw_grants k (e # es) sw =
     (case e of RL_Allow now key \<Rightarrow> if key = k \<and> fst (SlidingWindow_Allow now key sw) then [now] else []
      | RL_Cleanup now \<Rightarrow> []) @ sw_grants k es (sw_step sw e)"

section \<open>The token bucket's bound\<close>

definition tb_ok :: "time \<Rightarrow> token_bucket \<Rightarrow> bool" where
  "tb_ok t tb \<longleftrightarrow> 0 \<le> tb_rate tb \<and> 0 \<le> tb_capacity tb \<and> gm_wf (tb_buckets tb) \<and>
     real_of_int (tb_capacity tb) \<le> tb_rate tb * Seconds (tb_bucketTTL tb) \<and>
     (\<forall>k b. gm_get (tb_buckets tb) k = Some b \<longrightarrow> 0 \<le> bk_tokens b \<and> bk_lastRefill b \<le> t)"

lemma tb_available_nonneg: "tb_ok t tb \<Longrightarrow> t \<le> now \<Longrightarrow> 0 \<le> tb_available now tb k"
proof -
  assume ok: "tb_ok t tb" "t \<le> now"
  have "0 \<le> bk_tokens b + Seconds (now - bk_lastRefill b) * tb_rate tb"
    if "gm_get (tb_buckets tb) k = Some b" for b
  proof -
    from ok that have "0 \<le> bk_tokens b" "bk_lastRefill b \<le> now" "0 \<le> tb_rate tb"
      by (auto simp: tb_ok_def intro: order_trans)
    then show ?thesis by simp
  qed
  with ok show ?thesis by (auto simp: tb_available_def tb_ok_def split: option.splits)
qed

lemma tb_available_grows:
  assumes "tb_ok t tb" "t \<le> t'"
  shows "tb_available t' tb k \<le> tb_available t tb k + tb_rate tb * Seconds (t' - t)"
proof (cases "gm_get (tb_buckets tb) k")
  case None
  with assms show ?thesis by (simp add: tb_available_def tb_ok_def)
next
  case (Some b)
  have "Seconds (t' - bk_lastRefill b) = Seconds (t - bk_lastRefill b) + Seconds (t' - t)"
    by (simp add: Seconds_diff)
  then have "bk_tokens b + Seconds (t' - bk_lastRefill b) * tb_rate tb =
      bk_tokens b + Seconds (t - bk_lastRefill b) * tb_rate tb + tb_rate tb * Seconds (t' - t)"
    by (simp add: algebra_simps)
  moreover have "0 \<le> tb_rate tb * Seconds (t' - t)" using assms by (simp add: tb_ok_def)
  ultimately show ?thesis using Some by (simp add: tb_available_def min_def)
qed

lemma tb_step_static [simp]:
  "tb_rate (tb_step tb e) = tb_rate tb" "tb_capacity (tb_step tb e) = tb_capacity tb"
  "tb_bucketTTL (tb_step tb e) = tb_bucketTTL tb"
  by (cases e; simp add: TokenBucket_Allow_available TokenBucket_cleanup_def Let_def)+

lemma tb_ok_step:
  assumes "tb_ok t tb" "t \<le> rl_time e"
  shows "tb_ok (rl_time e) (tb_step tb e)"
proof (cases e)
  case (RL_Allow now key)
  with assms have "0 \<le> tb_available now tb key" by (auto intro: tb_available_nonneg)
  with assms RL_Allow show ?thesis
    by (auto simp: tb_ok_def TokenBucket_Allow_available Let_def intro: order_trans)
next
  case (RL_Cleanup now)
  with assms show ?thesis
    by (auto simp: tb_ok_def TokenBucket_cleanup_def gm_get_filter intro: order_trans split: option.splits if_splits)
qed

text \<open>A cleanup forgets a bucket only when it is full again.\<close>

lemma tb_cleanup_available:
  assumes "tb_ok t tb"
  shows "tb_available now (TokenBucket_cleanup now tb) k = tb_available now tb k"
proof (cases "gm_get (tb_buckets tb) k")
  case None
  with assms show ?thesis by (simp add: tb_available_def TokenBucket_cleanup_def gm_get_filter tb_ok_def)
next
  case (Some b)
  show ?thesis
  proof (cases "now - bk_lastRefill b > tb_bucketTTL tb")
    case True
    then have "Seconds (tb_bucketTTL tb) \<le> Seconds (now - bk_lastRefill b)"
      by (simp add: Seconds_def divide_right_mono)
    then have "tb_rate tb * Seconds (tb_bucketTTL tb) \<le> Seconds (now - bk_lastRefill b) * tb_rate tb"
      using assms by (subst mult.commute) (simp add: tb_ok_def mult_right_mono)
    moreover have "real_of_int (tb_capacity tb) \<le> tb_rate tb * Seconds (tb_bucketTTL tb)" "0 \<le> bk_tokens b"
      using assms Some by (auto simp: tb_ok_def)
    ultimately have "real_of_int (tb_capacity tb) \<le> bk_tokens b + Seconds (now - bk_lastRefill b) * tb_rate tb"
      by linarith
    with True Some assms show ?thesis
      by (simp add: tb_available_def TokenBucket_cleanup_def gm_get_filter tb_ok_def)
  next
    case False
    with Some assms show ?thesis
      by (simp add: tb_available_def TokenBucket_cleanup_def gm_get_filter tb_ok_def)
  qed
qed

lemma tb_allow_available_own:
  "fst (TokenBucket_Allow now k tb) \<Longrightarrow>
     tb_available now (snd (TokenBucket_Allow now k tb)) k = tb_available now tb k - 1"
  "\<not> fst (TokenBucket_Allow now k tb) \<Longrightarrow>
     tb_available now (snd (TokenBucket_Allow now k tb)) k = tb_available now tb k"
proof -
  have "tb_available now tb k \<le> real_of_int (tb_capacity tb)"
    by (simp add: tb_available_def split: option.splits)
  then show "fst (TokenBucket_Allow now k tb) \<Longrightarrow>
     tb_available now (snd (TokenBucket_Allow now k tb)) k = tb_available now tb k - 1"
    "\<not> fst (TokenBucket_Allow now k tb) \<Longrightarrow>
     tb_available now (snd (TokenBucket_Allow now k tb)) k = tb_available now tb k"
    unfolding tb_available_def [of now "snd (TokenBucket_Allow now k tb)"]
    by (simp_all add: TokenBucket_Allow_available Let_def)
qed

lemma tb_allow_available_other:
  "k' \<noteq> k \<Longrightarrow> tb_available now (snd (TokenBucket_Allow now k tb)) k' = tb_available now tb k'"
  using tb.allow_other [of k' k now tb] by (simp add: tb_available_def tb_view_def cong: option.case_cong)

lemma tb_grants_available:
  assumes "tb_ok t tb" and "\<forall>e \<in> set es. t \<le> rl_time e \<and> rl_time e \<le> tn" and "sorted (map rl_time es)" and "t \<le> tn"
  shows "real (length (tb_grants k es tb)) \<le> tb_available t tb k + tb_rate tb * Seconds (tn - t)"
  using assms
proof (induction es arbitrary: t tb)
  case Nil
  then show ?case using tb_available_nonneg [of t tb t k] by (simp add: tb_ok_def)
next
  case (Cons e es)
  let ?t = "rl_time e" and ?tb = "tb_step tb e"
  from Cons.prems have t: "t \<le> ?t" "?t \<le> tn" by auto
  have IH: "real (length (tb_grants k es ?tb)) \<le> tb_available ?t ?tb k + tb_rate tb * Seconds (tn - ?t)"
    using Cons.IH [OF tb_ok_step [OF Cons.prems(1) t(1)]] Cons.prems t by simp
  have grow: "tb_available ?t tb k + tb_rate tb * Seconds (tn - ?t) \<le>
      tb_available t tb k + tb_rate tb * Seconds (tn - t)"
  proof -
    have "tb_rate tb * Seconds (tn - t) = tb_rate tb * Seconds (?t - t) + tb_rate tb * Seconds (tn - ?t)"
      by (simp add: Seconds_diff algebra_simps)
    with tb_available_grows [OF Cons.prems(1) t(1), of k] show ?thesis by linarith
  qed
  show ?case
  proof (cases e)
    case (RL_Allow now key)
    have "real (length (tb_grants k (e # es) tb)) \<le> tb_available ?t tb k + tb_rate tb * Seconds (tn - ?t)"
      using IH tb_allow_available_own [of now key tb] tb_allow_available_other [of k key now tb]
      by (cases "key = k") (auto simp: RL_Allow)
    with grow show ?thesis by linarith
  next
    case (RL_Cleanup now)
    with IH grow tb_cleanup_available [OF Cons.prems(1), of now k] show ?thesis by simp
  qed
qed

section \<open>The sliding window's bound\<close>

definition in_window :: "duration \<Rightarrow> time \<Rightarrow> time list \<Rightarrow> time list" where
  "in_window w t ts = filter (\<lambda>x. t - w < x \<and> x \<le> t) ts"

text \<open>
  What the limiter keeps for a key (\<open>rs\<close>) against all its grants so far (\<open>gs\<close>), at time
  \<open>t\<close>: everything still inside the window is remembered, in order.
\<close>

definition sw_tracks :: "int \<Rightarrow> duration \<Rightarrow> time \<Rightarrow> time list \<Rightarrow> time list \<Rightarrow> bool" where
  "sw_tracks limit w t rs gs \<longleftrightarrow>
     sorted rs \<and> (\<forall>x \<in> set rs \<union> set gs. x \<le> t) \<and>
     filter (\<lambda>x. t - w < x) rs = filter (\<lambda>x. t - w < x) gs \<and>
     (\<forall>u. int (length (in_window w u gs)) \<le> limit)"

lemma filter_later:
  fixes t t' w :: int
  assumes "filter (\<lambda>x. t - w < x) rs = filter (\<lambda>x. t - w < x) gs" and "t \<le> t'"
  shows "filter (\<lambda>x. t' - w < x) rs = filter (\<lambda>x. t' - w < x) gs"
proof -
  have e: "filter (\<lambda>x. t' - w < x) xs = filter (\<lambda>x. t' - w < x) (filter (\<lambda>x. t - w < x) xs)" for xs
    using assms(2) by (auto intro: filter_cong)
  show ?thesis unfolding e [of rs] e [of gs] assms(1) ..
qed

lemma sw_tracks_later:
  assumes "sw_tracks limit w t rs gs" and "t \<le> t'"
  shows "sw_tracks limit w t' rs gs"
proof -
  have "filter (\<lambda>x. t' - w < x) rs = filter (\<lambda>x. t' - w < x) gs"
    using assms by (simp add: sw_tracks_def filter_later [of t w rs gs])
  moreover have "\<forall>x \<in> set rs \<union> set gs. x \<le> t'"
  proof
    fix x assume "x \<in> set rs \<union> set gs"
    with assms(1) have "x \<le> t" unfolding sw_tracks_def by blast
    with assms(2) show "x \<le> t'" by simp
  qed
  ultimately show ?thesis using assms(1) by (simp add: sw_tracks_def)
qed

lemma sw_tracks_prune:
  assumes "sw_tracks limit w t rs gs"
  shows "sw_tracks limit w t (filter (\<lambda>x. t - w < x) rs) gs"
proof -
  have "sorted rs" using assms by (simp add: sw_tracks_def)
  then have "sorted (filter (\<lambda>x. t - w < x) rs)" by (rule sorted_wrt_filter)
  with assms show ?thesis by (auto simp: sw_tracks_def)
qed

lemma sw_tracks_grant:
  assumes "sw_tracks limit w t rs gs" and "int (length (filter (\<lambda>x. t - w < x) rs)) < limit" and "0 \<le> limit"
  shows "sw_tracks limit w t (filter (\<lambda>x. t - w < x) rs @ [t]) (gs @ [t])"
proof -
  have "int (length (in_window w u (gs @ [t]))) \<le> limit" for u
  proof (cases "t - w < t \<and> t \<le> u")
    case True
    then have "length (in_window w u gs) \<le> length (filter (\<lambda>x. t - w < x) gs)"
      unfolding in_window_def by (intro length_filter_mono) auto
    with assms show ?thesis by (simp add: sw_tracks_def in_window_def)
  next
    case False
    then have "in_window w u (gs @ [t]) = in_window w u gs" by (auto simp: in_window_def)
    with assms(1) show ?thesis by (simp add: sw_tracks_def)
  qed
  moreover have "sorted rs" using assms(1) by (simp add: sw_tracks_def)
  then have "sorted (filter (\<lambda>x. t - w < x) rs)" by (rule sorted_wrt_filter)
  ultimately show ?thesis using assms(1) by (auto simp: sw_tracks_def sorted_append)
qed

lemma sw_tracks_forget:
  assumes "sw_tracks limit w t rs gs" and "rs = [] \<or> last rs < t - w * 2" and "0 \<le> w"
  shows "sw_tracks limit w t [] gs"
proof -
  have "\<forall>x \<in> set rs. x \<le> last rs"
    using assms(1) by (auto simp: sw_tracks_def intro: sorted_le_last)
  with assms have "filter (\<lambda>x. t - w < x) rs = []" by (fastforce simp: filter_empty_conv)
  with assms(1) show ?thesis by (simp add: sw_tracks_def ball_Un)
qed

definition sw_requests :: "sliding_window \<Rightarrow> string \<Rightarrow> time list" where
  "sw_requests sw k = (case gm_get (sw_windows sw) k of Some w \<Rightarrow> w | None \<Rightarrow> [])"

definition sw_good :: "string \<Rightarrow> time \<Rightarrow> time list \<Rightarrow> sliding_window \<Rightarrow> bool" where
  "sw_good k t gs sw \<longleftrightarrow> gm_wf (sw_windows sw) \<and> 0 \<le> sw_limit sw \<and> 0 \<le> sw_window sw \<and>
     sw_tracks (sw_limit sw) (sw_window sw) t (sw_requests sw k) gs"

lemma sw_good_allow_own:
  assumes "sw_good k now gs sw"
  shows "sw_good k now (if fst (SlidingWindow_Allow now k sw) then gs @ [now] else gs)
    (snd (SlidingWindow_Allow now k sw))"
proof -
  let ?rs = "sw_requests sw k" and ?w = "sw_window sw" and ?l = "sw_limit sw"
  from assms have tr: "sw_tracks ?l ?w now ?rs gs" by (simp add: sw_good_def)
  let ?vs = "filter (\<lambda>t. now - ?w < t) ?rs"
  have eq: "SlidingWindow_Allow now k sw =
      (int (length ?vs) < ?l, snd (SlidingWindow_Allow now k sw))"
    "sw_requests (snd (SlidingWindow_Allow now k sw)) k = (if int (length ?vs) < ?l then ?vs @ [now] else ?vs)"
    "sw_limit (snd (SlidingWindow_Allow now k sw)) = ?l" "sw_window (snd (SlidingWindow_Allow now k sw)) = ?w"
    "gm_wf (sw_windows sw) \<Longrightarrow> gm_wf (sw_windows (snd (SlidingWindow_Allow now k sw)))"
    by (simp_all add: SlidingWindow_Allow_def sw_requests_def Let_def)
  have fst: "fst (SlidingWindow_Allow now k sw) \<longleftrightarrow> int (length ?vs) < ?l"
    by (subst eq(1)) simp
  show ?thesis
    using assms sw_tracks_grant [OF tr] sw_tracks_prune [OF tr]
    by (simp add: sw_good_def eq(2-5) fst)
qed

lemma sw_good_allow_other:
  assumes "sw_good k now gs sw" and "key \<noteq> k"
  shows "sw_good k now gs (snd (SlidingWindow_Allow now key sw))"
  using assms by (auto simp: sw_good_def SlidingWindow_Allow_def sw_requests_def Let_def)

lemma sw_good_cleanup:
  assumes "sw_good k now gs sw"
  shows "sw_good k now gs (SlidingWindow_cleanup now sw)"
proof -
  let ?rs = "sw_requests sw k"
  have "sw_requests (SlidingWindow_cleanup now sw) k =
      (if ?rs = [] \<or> last ?rs < now - sw_window sw * 2 then [] else ?rs)"
    using assms by (auto simp: sw_good_def sw_requests_def SlidingWindow_cleanup_def gm_get_filter Let_def
        split: option.splits)
  with assms sw_tracks_forget [of "sw_limit sw" "sw_window sw" now ?rs gs] show ?thesis
    by (auto simp: sw_good_def) (auto simp: SlidingWindow_cleanup_def Let_def)
qed

lemma sw_good_later: "sw_good k t gs sw \<Longrightarrow> t \<le> t' \<Longrightarrow> sw_good k t' gs sw"
  by (auto simp: sw_good_def intro: sw_tracks_later)

lemma sw_step_static [simp]:
  "sw_limit (sw_step sw e) = sw_limit sw" "sw_window (sw_step sw e) = sw_window sw"
  by (cases e; simp add: SlidingWindow_Allow_def SlidingWindow_cleanup_def Let_def)+

lemma sw_grants_bounded:
  assumes "sw_good k t gs sw" and "sorted (t # map rl_time es)"
  shows "int (length (in_window (sw_window sw) u (gs @ sw_grants k es sw))) \<le> sw_limit sw"
  using assms
proof (induction es arbitrary: t gs sw)
  case Nil
  then show ?case by (simp add: sw_good_def sw_tracks_def)
next
  case (Cons e es)
  let ?t = "rl_time e"
  from Cons.prems have good: "sw_good k ?t gs sw" and srt: "sorted (?t # map rl_time es)"
    by (auto intro: sw_good_later)
  show ?case
  proof (cases e)
    case (RL_Allow now key)
    let ?gs = "if key = k \<and> fst (SlidingWindow_Allow now key sw) then gs @ [now] else gs"
    have "sw_good k ?t ?gs (sw_step sw e)"
      using good sw_good_allow_own [of k now gs sw] sw_good_allow_other [of k now gs sw key]
      by (cases "key = k") (auto simp: RL_Allow)
    from Cons.IH [OF this srt, unfolded sw_step_static] show ?thesis
      by (cases "key = k \<and> fst (SlidingWindow_Allow now key sw)") (auto simp: RL_Allow)
  next
    case (RL_Cleanup now)
    with good have "sw_good k ?t gs (sw_step sw e)" by (simp add: sw_good_cleanup)
    from Cons.IH [OF this srt, unfolded sw_step_static] show ?thesis by (simp add: RL_Cleanup)
  qed
qed

section \<open>Properties\<close>





text \<open>
  Clients do not influence each other. For any limiter behind the interface, token
  bucket, sliding window or any nesting of conjunctions, the answers a key receives in a
  trace are the answers it would receive if no other key had made a request.
\<close>

theorem limiter_keys_isolated:
  "map snd (filter (\<lambda>e. snd (fst e) = k) (zip rs (allows limiter_Allow rs l))) =
     allows limiter_Allow (filter (\<lambda>r. snd r = k) rs) l"
  by (rule lim.outcomes_isolated) simp

end
