(* ===== verification/Protection.thy ===== *)
theory Protection
  imports RateLimit
begin

text \<open>
  Package \<^verbatim>\<open>pkg/security\<close>, file \<^verbatim>\<open>protection.go\<close>: the guard that limits concurrent connections
  per address, the request size guard, the blocklist, and the security manager that asks
  them in order. Maps are Go maps keyed by the address; a round of a cleanup goroutine is
  an operation of its own.
\<close>

section \<open>Configuration\<close>

record protection_config =
  pr_MaxConnectionsPerIP :: int
  pr_MaxConnectionRate :: real
  pr_ReadTimeout :: duration
  pr_WriteTimeout :: duration
  pr_MaxRequestSize :: int
  pr_MaxHeaderSize :: int
  pr_ConnectionTimeout :: duration

definition DefaultProtectionConfig :: protection_config where
  "DefaultProtectionConfig =
     \<lparr>pr_MaxConnectionsPerIP = 100, pr_MaxConnectionRate = 10, pr_ReadTimeout = 10 * Second,
      pr_WriteTimeout = 10 * Second, pr_MaxRequestSize = 10 * 1024 * 1024,
      pr_MaxHeaderSize = 1024 * 1024, pr_ConnectionTimeout = 300 * Second\<rparr>"

section \<open>Connection guard\<close>

record ip_connections =
  ic_count :: int
  ic_lastActivity :: time

record connection_guard =
  cg_config :: protection_config
  cg_connectionsPerIP :: "(string, ip_connections) gomap"
  cg_connectionRateLimiter :: token_bucket
  cg_totalConnections :: int
  cg_rejectedConnections :: int
  cg_activeConnections :: int
  cg_slowlorisDetections :: int

definition NewConnectionGuard :: "protection_config option \<Rightarrow> connection_guard" where
  "NewConnectionGuard config0 =
     (let config = (case config0 of None \<Rightarrow> DefaultProtectionConfig | Some c \<Rightarrow> c)
      in \<lparr>cg_config = config, cg_connectionsPerIP = [],
          cg_connectionRateLimiter =
            NewTokenBucket (pr_MaxConnectionRate config) (go_trunc (pr_MaxConnectionRate config * 10)),
          cg_totalConnections = 0, cg_rejectedConnections = 0, cg_activeConnections = 0,
          cg_slowlorisDetections = 0\<rparr>)"

definition ConnectionGuard_AllowConnection :: "time \<Rightarrow> string \<Rightarrow> connection_guard \<Rightarrow> bool \<times> connection_guard" where
  "ConnectionGuard_AllowConnection now ip cg0 =
     (let cg = cg0\<lparr>cg_totalConnections := cg_totalConnections cg0 + 1\<rparr>;
          (ok, tb) = TokenBucket_Allow now ip (cg_connectionRateLimiter cg);
          cg = cg\<lparr>cg_connectionRateLimiter := tb\<rparr>
      in if \<not> ok then (False, cg\<lparr>cg_rejectedConnections := cg_rejectedConnections cg + 1\<rparr>)
         else (case gm_get (cg_connectionsPerIP cg) ip of
             Some ipConns \<Rightarrow>
               if ic_count ipConns \<ge> pr_MaxConnectionsPerIP (cg_config cg) then
                 (False, cg\<lparr>cg_rejectedConnections := cg_rejectedConnections cg + 1\<rparr>)
               else
                 (True, cg\<lparr>cg_connectionsPerIP := gm_set ip
                     \<lparr>ic_count = ic_count ipConns + 1, ic_lastActivity = now\<rparr> (cg_connectionsPerIP cg),
                   cg_activeConnections := cg_activeConnections cg + 1\<rparr>)
           | None \<Rightarrow>
               (True, cg\<lparr>cg_connectionsPerIP := gm_set ip
                   \<lparr>ic_count = 1, ic_lastActivity = now\<rparr> (cg_connectionsPerIP cg),
                 cg_activeConnections := cg_activeConnections cg + 1\<rparr>)))"

definition ConnectionGuard_ReleaseConnection :: "time \<Rightarrow> string \<Rightarrow> connection_guard \<Rightarrow> connection_guard" where
  "ConnectionGuard_ReleaseConnection now ip cg0 =
     (let cg =
        (case gm_get (cg_connectionsPerIP cg0) ip of
           Some ipConns \<Rightarrow>
             let ipConns = \<lparr>ic_count = ic_count ipConns - 1, ic_lastActivity = now\<rparr> in
             cg0\<lparr>cg_connectionsPerIP :=
               (if ic_count ipConns \<le> 0 then gm_del ip (cg_connectionsPerIP cg0)
                else gm_set ip ipConns (cg_connectionsPerIP cg0))\<rparr>
         | None \<Rightarrow> cg0)
      in cg\<lparr>cg_activeConnections := cg_activeConnections cg - 1\<rparr>)"

definition ConnectionGuard_cleanup :: "time \<Rightarrow> connection_guard \<Rightarrow> connection_guard" where
  "ConnectionGuard_cleanup now cg =
     cg\<lparr>cg_connectionsPerIP := gm_filter
       (\<lambda>_ c. \<not> (ic_count c = 0 \<and> now - ic_lastActivity c > 5 * Minute)) (cg_connectionsPerIP cg)\<rparr>"

text \<open>
  \<^verbatim>\<open>DetectSlowloris\<close>: the read deadline of the connection is set, where \<open>err\<close> says whether this fails.
  The result is the answer, the deadline of the connection, and the guard.
\<close>

definition DetectSlowloris ::
    "string option \<Rightarrow> time \<Rightarrow> time option \<Rightarrow> connection_guard \<Rightarrow> bool \<times> time option \<times> connection_guard" where
  "DetectSlowloris err readDeadline deadline cg =
     (if err \<noteq> None then (False, deadline, cg) else (False, Some readDeadline, cg))"

section \<open>Request size guard\<close>

record request_size_guard =
  rg_maxRequestSize :: int
  rg_maxHeaderSize :: int
  rg_totalRequests :: int
  rg_rejectedRequests :: int

definition NewRequestSizeGuard :: "int \<Rightarrow> int \<Rightarrow> request_size_guard" where
  "NewRequestSizeGuard maxRequestSize maxHeaderSize =
     \<lparr>rg_maxRequestSize = maxRequestSize, rg_maxHeaderSize = maxHeaderSize,
      rg_totalRequests = 0, rg_rejectedRequests = 0\<rparr>"

definition CheckRequestSize :: "int \<Rightarrow> request_size_guard \<Rightarrow> bool \<times> request_size_guard" where
  "CheckRequestSize sz g0 =
     (let g = g0\<lparr>rg_totalRequests := rg_totalRequests g0 + 1\<rparr> in
      if sz > rg_maxRequestSize g
      then (False, g\<lparr>rg_rejectedRequests := rg_rejectedRequests g + 1\<rparr>) else (True, g))"

definition CheckHeaderSize :: "int \<Rightarrow> request_size_guard \<Rightarrow> bool" where
  "CheckHeaderSize sz g = (if sz > rg_maxHeaderSize g then False else True)"

section \<open>Blocklist\<close>

record ip_blocklist =
  bl_blocked :: "(string, time) gomap"
  bl_permanent :: "(string, bool) gomap"
  bl_totalBlocks :: int
  bl_activeBlocks :: int
  bl_blockedRequests :: int

definition NewIPBlocklist :: ip_blocklist where
  "NewIPBlocklist = \<lparr>bl_blocked = [], bl_permanent = [], bl_totalBlocks = 0, bl_activeBlocks = 0,
     bl_blockedRequests = 0\<rparr>"

definition Block :: "time \<Rightarrow> string \<Rightarrow> duration \<Rightarrow> ip_blocklist \<Rightarrow> ip_blocklist" where
  "Block now ip d bl = bl\<lparr>bl_blocked := gm_set ip (now + d) (bl_blocked bl),
     bl_totalBlocks := bl_totalBlocks bl + 1, bl_activeBlocks := bl_activeBlocks bl + 1\<rparr>"

definition BlockPermanent :: "string \<Rightarrow> ip_blocklist \<Rightarrow> ip_blocklist" where
  "BlockPermanent ip bl = bl\<lparr>bl_permanent := gm_set ip True (bl_permanent bl),
     bl_totalBlocks := bl_totalBlocks bl + 1, bl_activeBlocks := bl_activeBlocks bl + 1\<rparr>"

definition Unblock :: "string \<Rightarrow> ip_blocklist \<Rightarrow> ip_blocklist" where
  "Unblock ip bl0 =
     (let bl = (case gm_get (bl_blocked bl0) ip of
            Some _ \<Rightarrow> bl0\<lparr>bl_blocked := gm_del ip (bl_blocked bl0), bl_activeBlocks := bl_activeBlocks bl0 - 1\<rparr>
          | None \<Rightarrow> bl0)
      in case gm_get (bl_permanent bl) ip of
           Some _ \<Rightarrow> bl\<lparr>bl_permanent := gm_del ip (bl_permanent bl), bl_activeBlocks := bl_activeBlocks bl - 1\<rparr>
         | None \<Rightarrow> bl)"

definition IsBlocked :: "time \<Rightarrow> string \<Rightarrow> ip_blocklist \<Rightarrow> bool \<times> ip_blocklist" where
  "IsBlocked now ip bl =
     (if gm_get (bl_permanent bl) ip = Some True then
        (True, bl\<lparr>bl_blockedRequests := bl_blockedRequests bl + 1\<rparr>)
      else (case gm_get (bl_blocked bl) ip of
          Some expiry \<Rightarrow>
            if now < expiry then (True, bl\<lparr>bl_blockedRequests := bl_blockedRequests bl + 1\<rparr>)
            else (False, bl)
        | None \<Rightarrow> (False, bl)))"

definition IPBlocklist_cleanup :: "time \<Rightarrow> ip_blocklist \<Rightarrow> ip_blocklist" where
  "IPBlocklist_cleanup now bl =
     (let kept = gm_filter (\<lambda>_ expiry. \<not> now > expiry) (bl_blocked bl)
      in bl\<lparr>bl_blocked := kept,
            bl_activeBlocks := bl_activeBlocks bl - int (length (bl_blocked bl) - length kept)\<rparr>)"

section \<open>Security manager\<close>

record security_manager =
  sec_connectionGuard :: connection_guard
  sec_requestSizeGuard :: request_size_guard
  sec_rateLimiter :: "limiter option"
  sec_blocklist :: ip_blocklist

definition NewSecurityManager :: "protection_config option \<Rightarrow> limiter option \<Rightarrow> security_manager" where
  "NewSecurityManager config0 rateLimiter =
     (let config = (case config0 of None \<Rightarrow> DefaultProtectionConfig | Some c \<Rightarrow> c)
      in \<lparr>sec_connectionGuard = NewConnectionGuard (Some config),
          sec_requestSizeGuard = NewRequestSizeGuard (pr_MaxRequestSize config) (pr_MaxHeaderSize config),
          sec_rateLimiter = rateLimiter, sec_blocklist = NewIPBlocklist\<rparr>)"

definition SecurityManager_AllowConnection ::
    "time \<Rightarrow> string \<Rightarrow> security_manager \<Rightarrow> (bool \<times> string) \<times> security_manager" where
  "SecurityManager_AllowConnection now ip sm0 =
     (let (blocked, bl) = IsBlocked now ip (sec_blocklist sm0);
          sm = sm0\<lparr>sec_blocklist := bl\<rparr>
      in if blocked then ((False, ''IP is blocked''), sm)
         else
           let (allowed, sm) =
             (case sec_rateLimiter sm of
                None \<Rightarrow> (True, sm)
              | Some l \<Rightarrow>
                  let (ok, l') = limiter_Allow now ip l in (ok, sm\<lparr>sec_rateLimiter := Some l'\<rparr>))
           in if \<not> allowed then ((False, ''Rate limit exceeded''), sm)
              else
                let (ok, cg) = ConnectionGuard_AllowConnection now ip (sec_connectionGuard sm);
                    sm = sm\<lparr>sec_connectionGuard := cg\<rparr>
                in if \<not> ok then ((False, ''Too many connections''), sm) else ((True, ''''), sm))"

definition SecurityManager_ReleaseConnection :: "time \<Rightarrow> string \<Rightarrow> security_manager \<Rightarrow> security_manager" where
  "SecurityManager_ReleaseConnection now ip sm =
     sm\<lparr>sec_connectionGuard := ConnectionGuard_ReleaseConnection now ip (sec_connectionGuard sm)\<rparr>"

definition SecurityManager_CheckRequestSize :: "int \<Rightarrow> security_manager \<Rightarrow> bool \<times> security_manager" where
  "SecurityManager_CheckRequestSize sz sm =
     (let (ok, g) = CheckRequestSize sz (sec_requestSizeGuard sm) in (ok, sm\<lparr>sec_requestSizeGuard := g\<rparr>))"

definition BlockIP :: "time \<Rightarrow> string \<Rightarrow> duration \<Rightarrow> security_manager \<Rightarrow> security_manager" where
  "BlockIP now ip d sm = sm\<lparr>sec_blocklist := Block now ip d (sec_blocklist sm)\<rparr>"

text \<open>A network address is a TCP address with its printed IP, or another one with its text.\<close>

datatype net_addr = TCPAddr string | OtherAddr string

fun GetClientIP :: "net_addr \<Rightarrow> string" where
  "GetClientIP (TCPAddr ip) = ip"
| "GetClientIP (OtherAddr s) = (case SplitHostPort s of None \<Rightarrow> s | Some (host, _) \<Rightarrow> host)"

section \<open>Facts about the connection guard\<close>

definition cg_count :: "connection_guard \<Rightarrow> string \<Rightarrow> int" where
  "cg_count cg ip = (case gm_get (cg_connectionsPerIP cg) ip of None \<Rightarrow> 0 | Some c \<Rightarrow> ic_count c)"

definition cg_inv :: "connection_guard \<Rightarrow> bool" where
  "cg_inv cg \<longleftrightarrow> gm_wf (cg_connectionsPerIP cg) \<and>
     (\<forall>ip c. gm_get (cg_connectionsPerIP cg) ip = Some c \<longrightarrow>
        0 < ic_count c \<and> (0 < pr_MaxConnectionsPerIP (cg_config cg) \<longrightarrow>
          ic_count c \<le> pr_MaxConnectionsPerIP (cg_config cg)))"

lemma cg_allow_cases:
  assumes "ConnectionGuard_AllowConnection now ip cg = (ok, cg')"
  obtains (rejected) "\<not> ok" "cg_connectionsPerIP cg' = cg_connectionsPerIP cg" "cg_config cg' = cg_config cg"
    "cg_activeConnections cg' = cg_activeConnections cg"
    "cg_totalConnections cg' = cg_totalConnections cg + 1"
    "cg_rejectedConnections cg' = cg_rejectedConnections cg + 1"
  | (admitted) "ok" "cg_connectionsPerIP cg' =
        gm_set ip \<lparr>ic_count = cg_count cg ip + 1, ic_lastActivity = now\<rparr> (cg_connectionsPerIP cg)"
    "cg_config cg' = cg_config cg" "cg_activeConnections cg' = cg_activeConnections cg + 1"
    "cg_totalConnections cg' = cg_totalConnections cg + 1"
    "cg_rejectedConnections cg' = cg_rejectedConnections cg"
    "gm_get (cg_connectionsPerIP cg) ip = None \<or> cg_count cg ip < pr_MaxConnectionsPerIP (cg_config cg)"
  using assms
  by (auto simp: ConnectionGuard_AllowConnection_def cg_count_def Let_def split_beta
      split: option.splits if_splits)

lemma cg_inv_allow: "cg_inv cg \<Longrightarrow> cg_inv (snd (ConnectionGuard_AllowConnection now ip cg))"
proof -
  assume inv: "cg_inv cg"
  obtain ok cg' where r: "ConnectionGuard_AllowConnection now ip cg = (ok, cg')" by fastforce
  from r have "cg_inv cg'"
  proof (cases rule: cg_allow_cases)
    case rejected
    with inv show ?thesis by (simp add: cg_inv_def)
  next
    case admitted
    with inv show ?thesis
      by (auto simp: cg_inv_def cg_count_def split: option.splits) (meson less_imp_le)
  qed
  with r show ?thesis by simp
qed

lemma cg_inv_release: "cg_inv cg \<Longrightarrow> cg_inv (ConnectionGuard_ReleaseConnection now ip cg)"
  by (auto simp: cg_inv_def ConnectionGuard_ReleaseConnection_def Let_def split: option.splits)
    fastforce+

lemma cg_inv_cleanup: "cg_inv cg \<Longrightarrow> cg_inv (ConnectionGuard_cleanup now cg)"
  by (auto simp: cg_inv_def ConnectionGuard_cleanup_def gm_get_filter split: option.splits if_splits)

datatype cg_event = CG_Allow time string | CG_Release time string | CG_Cleanup time

fun cg_step :: "connection_guard \<Rightarrow> cg_event \<Rightarrow> connection_guard" where
  "cg_step cg (CG_Allow now ip) = snd (ConnectionGuard_AllowConnection now ip cg)"
| "cg_step cg (CG_Release now ip) = ConnectionGuard_ReleaseConnection now ip cg"
| "cg_step cg (CG_Cleanup now) = ConnectionGuard_cleanup now cg"

interpretation cg_calls: event_component cg_step cg_inv
proof
  fix s e
  assume "cg_inv s"
  then show "cg_inv (cg_step s e)"
    by (cases e) (simp_all add: cg_inv_allow cg_inv_release cg_inv_cleanup)
qed

text \<open>
  The specification: the multiset of open connections, one element per connection that was
  admitted and not yet released. A connection is released once, by the caller that opened it.
\<close>

inductive cg_reach :: "connection_guard \<Rightarrow> connection_guard \<times> string multiset \<Rightarrow> bool" for cg0 where
  start: "cg_reach cg0 (cg0, {#})"
| admit: "cg_reach cg0 (cg, M) \<Longrightarrow> ConnectionGuard_AllowConnection now ip cg = (True, cg') \<Longrightarrow>
    cg_reach cg0 (cg', add_mset ip M)"
| reject: "cg_reach cg0 (cg, M) \<Longrightarrow> ConnectionGuard_AllowConnection now ip cg = (False, cg') \<Longrightarrow>
    cg_reach cg0 (cg', M)"
| release: "cg_reach cg0 (cg, add_mset ip M) \<Longrightarrow>
    cg_reach cg0 (ConnectionGuard_ReleaseConnection now ip cg, M)"
| cleanup: "cg_reach cg0 (cg, M) \<Longrightarrow> cg_reach cg0 (ConnectionGuard_cleanup now cg, M)"

definition cg_refines :: "connection_guard \<times> string multiset \<Rightarrow> bool" where
  "cg_refines s \<longleftrightarrow> cg_inv (fst s) \<and> (\<forall>ip. cg_count (fst s) ip = int (count (snd s) ip)) \<and>
     cg_activeConnections (fst s) = int (size (snd s))"

lemma cg_count_release:
  "cg_count (ConnectionGuard_ReleaseConnection now ip cg) x =
     (if x = ip \<and> cg_count cg ip > 0 then cg_count cg ip - 1 else if x = ip then 0 else cg_count cg x)"
  if "cg_inv cg"
  using that
  by (auto simp: cg_count_def ConnectionGuard_ReleaseConnection_def Let_def cg_inv_def split: option.splits)
    force+

lemma cg_count_cleanup: "cg_inv cg \<Longrightarrow> cg_count (ConnectionGuard_cleanup now cg) ip = cg_count cg ip"
  by (auto simp: cg_count_def ConnectionGuard_cleanup_def gm_get_filter cg_inv_def split: option.splits)

lemma cg_release_active:
  "cg_activeConnections (ConnectionGuard_ReleaseConnection now ip cg) = cg_activeConnections cg - 1"
  by (simp add: ConnectionGuard_ReleaseConnection_def Let_def split: option.splits)

lemma cg_config_ops [simp]:
  "cg_config (snd (ConnectionGuard_AllowConnection now ip cg)) = cg_config cg"
  "cg_config (ConnectionGuard_ReleaseConnection now ip cg) = cg_config cg"
  "cg_config (ConnectionGuard_cleanup now cg) = cg_config cg"
  by (auto simp: ConnectionGuard_AllowConnection_def ConnectionGuard_ReleaseConnection_def
      ConnectionGuard_cleanup_def Let_def split_beta split: option.splits)

lemma cg_reach_refines: "cg_reach cg0 s \<Longrightarrow> cg_refines (cg0, {#}) \<Longrightarrow> cg_refines s"
proof (induction rule: cg_reach.induct)
  case (admit cg M now ip cg')
  then have "cg_refines (cg, M)" by simp
  moreover have "cg_inv cg'" using cg_inv_allow [of cg now ip] admit by (simp add: cg_refines_def)
  moreover from admit.hyps(2) have "(\<forall>x. cg_count cg' x = cg_count cg x + (if x = ip then 1 else 0)) \<and>
      cg_activeConnections cg' = cg_activeConnections cg + 1"
    by (cases rule: cg_allow_cases) (auto simp: cg_count_def)
  ultimately show ?case by (auto simp: cg_refines_def)
next
  case (reject cg M now ip cg')
  then have "cg_refines (cg, M)" by simp
  moreover from reject.hyps(2) have "cg_connectionsPerIP cg' = cg_connectionsPerIP cg \<and>
      cg_config cg' = cg_config cg \<and> cg_activeConnections cg' = cg_activeConnections cg"
    by (cases rule: cg_allow_cases) auto
  ultimately show ?case by (simp add: cg_refines_def cg_inv_def cg_count_def)
next
  case (release cg ip M now)
  then have r: "cg_refines (cg, add_mset ip M)" by simp
  then have "cg_inv cg" "cg_count cg ip = 1 + int (count M ip)" by (simp_all add: cg_refines_def)
  with r show ?case
    by (auto simp: cg_refines_def cg_inv_release cg_count_release cg_release_active)
next
  case (cleanup cg M now)
  then show ?case
    by (simp add: cg_refines_def cg_inv_cleanup cg_count_cleanup) (simp add: ConnectionGuard_cleanup_def)
qed simp

lemma cg_reach_config: "cg_reach cg0 s \<Longrightarrow> cg_config (fst s) = cg_config cg0"
proof (induction rule: cg_reach.induct)
  case (admit cg M now ip cg')
  then show ?case using cg_config_ops(1) [of now ip cg] by simp
next
  case (reject cg M now ip cg')
  then show ?case using cg_config_ops(1) [of now ip cg] by simp
qed simp_all

section \<open>Facts about the blocklist\<close>

datatype bl_event =
    BL_Block time string duration | BL_Permanent string | BL_Unblock string
  | BL_Query time string | BL_Cleanup time

fun bl_step :: "ip_blocklist \<Rightarrow> bl_event \<Rightarrow> ip_blocklist" where
  "bl_step bl (BL_Block now ip d) = Block now ip d bl"
| "bl_step bl (BL_Permanent ip) = BlockPermanent ip bl"
| "bl_step bl (BL_Unblock ip) = Unblock ip bl"
| "bl_step bl (BL_Query now ip) = snd (IsBlocked now ip bl)"
| "bl_step bl (BL_Cleanup now) = IPBlocklist_cleanup now bl"

definition bl_wf :: "ip_blocklist \<Rightarrow> bool" where
  "bl_wf bl \<longleftrightarrow> gm_wf (bl_blocked bl) \<and> gm_wf (bl_permanent bl)"

lemmas bl_ops = Block_def BlockPermanent_def Unblock_def IsBlocked_def IPBlocklist_cleanup_def Let_def

interpretation bl_calls: event_component bl_step bl_wf
proof
  fix s e
  assume "bl_wf s"
  then show "bl_wf (bl_step s e)"
    by (cases e) (auto simp: bl_wf_def bl_ops split: option.splits)
qed

text \<open>The event neither blocks nor unblocks \<open>ip\<close>, and cleans up no later than \<open>now\<close>.\<close>

fun bl_spares :: "string \<Rightarrow> time \<Rightarrow> bl_event \<Rightarrow> bool" where
  "bl_spares ip now (BL_Block t ip' d) \<longleftrightarrow> ip' \<noteq> ip"
| "bl_spares ip now (BL_Permanent ip') \<longleftrightarrow> ip' \<noteq> ip"
| "bl_spares ip now (BL_Unblock ip') \<longleftrightarrow> ip' \<noteq> ip"
| "bl_spares ip now (BL_Query t ip') \<longleftrightarrow> True"
| "bl_spares ip now (BL_Cleanup t) \<longleftrightarrow> t \<le> now"

text \<open>What matters of a block at a time \<open>now\<close>: whether it has not expired by then.\<close>

definition bl_live :: "time \<Rightarrow> string \<Rightarrow> ip_blocklist \<Rightarrow> bool" where
  "bl_live now ip bl \<longleftrightarrow> (\<exists>expiry. gm_get (bl_blocked bl) ip = Some expiry \<and> now < expiry)"

lemma IsBlocked_iff:
  "fst (IsBlocked now ip bl) \<longleftrightarrow> gm_get (bl_permanent bl) ip = Some True \<or> bl_live now ip bl"
  by (auto simp: IsBlocked_def bl_live_def split: option.splits)

lemma bl_step_spares:
  assumes "bl_wf bl" and "bl_spares ip now e"
  shows "gm_get (bl_permanent (bl_step bl e)) ip = gm_get (bl_permanent bl) ip \<and>
    (bl_live now ip (bl_step bl e) \<longleftrightarrow> bl_live now ip bl)"
  using assms
  by (cases e) (auto simp: bl_ops bl_live_def bl_wf_def gm_get_filter split: option.splits if_splits)

lemma bl_run_spares:
  assumes "bl_wf bl" and "\<forall>e \<in> set es. bl_spares ip now e"
  shows "gm_get (bl_permanent (run bl_step bl es)) ip = gm_get (bl_permanent bl) ip \<and>
    (bl_live now ip (run bl_step bl es) \<longleftrightarrow> bl_live now ip bl)"
  using assms by (induction es arbitrary: bl) (auto simp: bl_step_spares bl_calls.step_inv)

section \<open>Properties\<close>

text \<open>
  C13: The connection guard refines the multiset of open connections. Under any interleaving
  of admitted and rejected connections, releases of open connections and cleanup rounds, its
  counter of an address is the number of open connections of that address, never above a
  positive limit, and its total is the number of all open connections.
\<close>

theorem guard_counts_open_connections:
  assumes "cg_reach (NewConnectionGuard (Some config)) (cg, M)"
  shows "cg_count cg ip = int (count M ip) \<and> cg_activeConnections cg = int (size M) \<and>
    (0 < pr_MaxConnectionsPerIP config \<longrightarrow> int (count M ip) \<le> pr_MaxConnectionsPerIP config)"
proof -
  have "cg_refines (NewConnectionGuard (Some config), {#})"
    by (simp add: cg_refines_def NewConnectionGuard_def cg_inv_def cg_count_def)
  with assms have r: "cg_refines (cg, M)" by (rule cg_reach_refines)
  moreover have "cg_config cg = config"
    using cg_reach_config [OF assms] by (simp add: NewConnectionGuard_def)
  moreover have "cg_count cg ip \<le> pr_MaxConnectionsPerIP (cg_config cg)"
    if "0 < pr_MaxConnectionsPerIP (cg_config cg)"
  proof -
    from r have "cg_inv cg" by (simp add: cg_refines_def)
    with that show ?thesis by (auto simp: cg_inv_def cg_count_def split: option.splits)
  qed
  ultimately show ?thesis by (simp add: cg_refines_def)
qed

theorem guard_counts_open_connections_witness:
  "cg_count (snd (ConnectionGuard_AllowConnection 1 ''10.0.0.1''
      (NewConnectionGuard (Some DefaultProtectionConfig)))) ''10.0.0.1'' = 1"
proof -
  let ?cg = "NewConnectionGuard (Some DefaultProtectionConfig)"
  have "ConnectionGuard_AllowConnection 1 ''10.0.0.1'' ?cg =
      (True, snd (ConnectionGuard_AllowConnection 1 ''10.0.0.1'' ?cg))"
    by (simp add: ConnectionGuard_AllowConnection_def NewConnectionGuard_def DefaultProtectionConfig_def
        TokenBucket_Allow_def NewTokenBucket_def go_trunc_def Let_def)
  from cg_reach.admit [OF cg_reach.start this]
  have "cg_reach ?cg (snd (ConnectionGuard_AllowConnection 1 ''10.0.0.1'' ?cg), {#''10.0.0.1''#})" .
  from guard_counts_open_connections [OF this, of "''10.0.0.1''"] show ?thesis by simp
qed

text \<open>
  No slow connection is ever detected. \<^verbatim>\<open>DetectSlowloris\<close> sets a deadline and answers no whatever the
  connection does, it leaves the guard as it is, and in every state of a guard the statistics report
  no detection.
\<close>

theorem slowloris_never_detected:
  assumes "cg_reach (NewConnectionGuard config) (cg, M)"
  shows "\<exists>deadline'. DetectSlowloris err readDeadline deadline cg = (False, deadline', cg) \<and>
    (err = None \<longrightarrow> deadline' = Some readDeadline) \<and> cg_slowlorisDetections cg = 0"
proof -
  have "cg_slowlorisDetections (fst s) = cg_slowlorisDetections cg0" if "cg_reach cg0 s" for cg0 s
    using that by induction (auto simp: ConnectionGuard_AllowConnection_def
        ConnectionGuard_ReleaseConnection_def ConnectionGuard_cleanup_def Let_def split: if_splits option.splits prod.splits)
  from this [OF assms] show ?thesis
    by (cases err) (simp_all add: DetectSlowloris_def NewConnectionGuard_def Let_def)
qed

theorem slowloris_never_detected_witness:
  "\<exists>deadline'. DetectSlowloris None 5 None (NewConnectionGuard None) = (False, deadline', NewConnectionGuard None) \<and>
     deadline' = Some 5"
  using slowloris_never_detected [OF cg_reach.start, where config = None and err = None and readDeadline = 5 and deadline = None]
  by blast

text \<open>
  A block lasts exactly its duration. After blocking an address that is not permanently
  blocked, any sequence of queries, of blocks and unblocks of other addresses and of cleanup
  rounds leaves it blocked at a later time exactly while the duration has not elapsed; a
  permanent block survives any such sequence.
\<close>

theorem block_lasts_its_duration:
  assumes "bl_wf bl" and "\<forall>e \<in> set es. bl_spares ip now e"
  shows "(gm_get (bl_permanent bl) ip \<noteq> Some True \<longrightarrow>
      (fst (IsBlocked now ip (run bl_step (Block t ip d bl) es)) \<longleftrightarrow> now < t + d)) \<and>
    fst (IsBlocked now ip (run bl_step (BlockPermanent ip bl) es))"
proof -
  from assms(1) have "bl_wf (Block t ip d bl)" "bl_wf (BlockPermanent ip bl)"
    by (simp_all add: bl_wf_def Block_def BlockPermanent_def)
  with bl_run_spares [OF _ assms(2)] show ?thesis
    by (simp add: IsBlocked_iff) (simp add: bl_live_def Block_def BlockPermanent_def)
qed

theorem block_lasts_its_duration_witness:
  "fst (IsBlocked 50 ''6.6.6.6'' (run bl_step (Block 1 ''6.6.6.6'' 100 NewIPBlocklist)
     [BL_Query 2 ''6.6.6.6'', BL_Cleanup 40, BL_Unblock ''7.7.7.7'']))"
  using block_lasts_its_duration [of NewIPBlocklist
      "[BL_Query 2 ''6.6.6.6'', BL_Cleanup 40, BL_Unblock ''7.7.7.7'']" "''6.6.6.6''" 50 1 100]
  by (simp add: bl_wf_def NewIPBlocklist_def del: run.simps)

text \<open>
  The security manager asks in order and charges nothing early. A blocked address is
  refused without touching the rate limiter or the connection guard; an address over the
  rate limit is refused without touching the guard; and a connection is admitted exactly
  when it is not blocked, the limiter allows it and the guard admits it.
\<close>

theorem security_checks_in_order:
  "case SecurityManager_AllowConnection now ip sm of ((ok, reason), sm') \<Rightarrow>
     (fst (IsBlocked now ip (sec_blocklist sm)) \<longrightarrow> \<not> ok \<and> reason = ''IP is blocked'' \<and>
        sec_rateLimiter sm' = sec_rateLimiter sm \<and> sec_connectionGuard sm' = sec_connectionGuard sm) \<and>
     (reason = ''Rate limit exceeded'' \<longrightarrow> \<not> ok \<and> sec_connectionGuard sm' = sec_connectionGuard sm) \<and>
     (ok \<longleftrightarrow> \<not> fst (IsBlocked now ip (sec_blocklist sm)) \<and>
        (\<forall>l. sec_rateLimiter sm = Some l \<longrightarrow> fst (limiter_Allow now ip l)) \<and>
        fst (ConnectionGuard_AllowConnection now ip (sec_connectionGuard sm)))"
  by (auto simp: SecurityManager_AllowConnection_def Let_def split_beta split: option.splits)

theorem security_checks_in_order_witness:
  "fst (fst (SecurityManager_AllowConnection 1 ''10.0.0.1'' (BlockIP 0 ''10.0.0.1'' 60
     (NewSecurityManager None None)))) = False"
  using security_checks_in_order [of 1 "''10.0.0.1''" "BlockIP 0 ''10.0.0.1'' 60 (NewSecurityManager None None)"]
  by (simp add: split_beta IsBlocked_def BlockIP_def Block_def NewSecurityManager_def NewIPBlocklist_def)

text \<open>
  The active-block statistic drifts. Blocking an address twice counts two active blocks
  but only one can ever be removed, so after unblocking nothing is blocked and the counter
  still shows one.
\<close>

theorem active_blocks_drift:
  "let bl = Unblock ip (Block t' ip d' (Block t ip d NewIPBlocklist)) in
   bl_activeBlocks bl = 1 \<and> bl_blocked bl = [] \<and> bl_permanent bl = []"
  by (simp add: bl_ops NewIPBlocklist_def gm_set_def gm_get_def gm_del_def)

end
