(* ===== verification/Http.thy ===== *)
theory Http
  imports Prelude
begin

text \<open>
  What the sources use of package \<^verbatim>\<open>net/http\<close>: header maps with canonical keys, and the fields
  of a request. A header map is a Go map from canonical keys to lists of values.
\<close>

section \<open>Canonical keys\<close>

text \<open>\<^verbatim>\<open>textproto.CanonicalMIMEHeaderKey\<close>: a key with a byte outside the token alphabet is kept.\<close>

definition is_upper :: "char \<Rightarrow> bool" where
  [go_defs]: "is_upper c \<longleftrightarrow> 65 \<le> (of_char c :: nat) \<and> (of_char c :: nat) \<le> 90"

definition is_lower :: "char \<Rightarrow> bool" where
  [go_defs]: "is_lower c \<longleftrightarrow> 97 \<le> (of_char c :: nat) \<and> (of_char c :: nat) \<le> 122"

definition is_digit :: "char \<Rightarrow> bool" where
  [go_defs]: "is_digit c \<longleftrightarrow> 48 \<le> (of_char c :: nat) \<and> (of_char c :: nat) \<le> 57"

definition validHeaderFieldByte :: "char \<Rightarrow> bool" where
  [go_defs]: "validHeaderFieldByte c \<longleftrightarrow> is_upper c \<or> is_lower c \<or> is_digit c \<or>
     c \<in> set ''!#$%&*+-.^_|~'' \<or> c = CHR 0x27 \<or> c = CHR 0x60"

fun canonical_from :: "bool \<Rightarrow> string \<Rightarrow> string" where
  "canonical_from upper [] = []"
| "canonical_from upper (c # cs) =
     (let c' = (if upper \<and> is_lower c then upper_char c
                else if \<not> upper \<and> is_upper c then lower_char c else c)
      in c' # canonical_from (c' = CHR ''-'') cs)"

definition CanonicalHeaderKey :: "string \<Rightarrow> string" where
  [go_defs]: "CanonicalHeaderKey s = (if \<forall>c \<in> set s. validHeaderFieldByte c then canonical_from True s else s)"

section \<open>Header maps\<close>

type_synonym header = "(string, string list) gomap"

definition Header_Get :: "header \<Rightarrow> string \<Rightarrow> string" where
  [go_defs]: "Header_Get h key =
     (case gm_get h (CanonicalHeaderKey key) of Some (v # _) \<Rightarrow> v | _ \<Rightarrow> '''')"

definition Header_Set :: "string \<Rightarrow> string \<Rightarrow> header \<Rightarrow> header" where
  [go_defs]: "Header_Set key value h = gm_set (CanonicalHeaderKey key) [value] h"

definition Header_Add :: "string \<Rightarrow> string \<Rightarrow> header \<Rightarrow> header" where
  [go_defs]: "Header_Add key value h =
     (let k = CanonicalHeaderKey key
      in gm_set k ((case gm_get h k of None \<Rightarrow> [] | Some vs \<Rightarrow> vs) @ [value]) h)"

definition Header_Del :: "string \<Rightarrow> header \<Rightarrow> header" where
  [go_defs]: "Header_Del key h = gm_del (CanonicalHeaderKey key) h"

lemma Header_Get_Set [simp]: "Header_Get (Header_Set key v h) key = v"
  by (simp add: Header_Get_def Header_Set_def)

lemma Header_Get_Set_other:
  "CanonicalHeaderKey key' \<noteq> CanonicalHeaderKey key \<Longrightarrow> Header_Get (Header_Set key v h) key' = Header_Get h key'"
  by (simp add: Header_Get_def Header_Set_def)

lemma Header_Get_Del [simp]: "Header_Get (Header_Del key h) key = ''''"
  by (simp add: Header_Get_def Header_Del_def)

section \<open>Requests\<close>

record request =
  req_Method :: string
  req_Host :: string
  req_Path :: string
  req_RawQuery :: string
  req_Header :: header
  req_TLS :: bool
  req_RemoteAddr :: string

end
