(* ===== verification/Transform.thy ===== *)
theory Transform
  imports Http
begin

text \<open>
  Package \<^verbatim>\<open>pkg/transform\<close>, file \<^verbatim>\<open>transform.go\<close>: header and path rewriting of requests and
  responses. Ranging over a header map follows the order of the association list.
\<close>

section \<open>Definitions\<close>

record header_transform =
  ht_Action :: string
  ht_Name :: string
  ht_Value :: string

record path_transform =
  pt_Type :: string
  pt_Pattern :: string
  pt_Replacement :: string

record transform_config =
  tf_RequestHeaders :: "header_transform list"
  tf_ResponseHeaders :: "header_transform list"
  tf_PathTransforms :: "path_transform list"
  tf_StripPrefix :: string
  tf_AddPrefix :: string

definition apply_header :: "header_transform \<Rightarrow> header \<Rightarrow> header" where
  "apply_header t h =
     (if ht_Action t = ''add'' then Header_Add (ht_Name t) (ht_Value t) h
      else if ht_Action t = ''set'' then Header_Set (ht_Name t) (ht_Value t) h
      else if ht_Action t = ''remove'' then Header_Del (ht_Name t) h
      else h)"

definition StripPrefix :: "string \<Rightarrow> string \<Rightarrow> string" where
  "StripPrefix prefix path =
     (let path = TrimPrefix path prefix in if HasPrefix path ''/'' then path else ''/'' @ path)"

definition AddPrefix :: "string \<Rightarrow> string \<Rightarrow> string" where
  "AddPrefix prefix path = (if HasPrefix path prefix then path else prefix @ path)"

definition RewritePath :: "string \<Rightarrow> string \<Rightarrow> string \<Rightarrow> string" where
  "RewritePath pattern replacement path = Replace1 path pattern replacement"

definition apply_path :: "path_transform \<Rightarrow> string \<Rightarrow> string" where
  "apply_path pt path =
     (if pt_Type pt = ''prefix'' then
        if HasPrefix path (pt_Pattern pt) then Replace1 path (pt_Pattern pt) (pt_Replacement pt) else path
      else if pt_Type pt = ''exact'' then
        if path = pt_Pattern pt then pt_Replacement pt else path
      else path)"

definition TransformRequest :: "transform_config \<Rightarrow> request \<Rightarrow> request" where
  "TransformRequest c req =
     (let header = fold apply_header (tf_RequestHeaders c) (req_Header req);
          path = req_Path req;
          path = (if tf_StripPrefix c \<noteq> '''' then StripPrefix (tf_StripPrefix c) path else path);
          path = (if tf_AddPrefix c \<noteq> '''' then AddPrefix (tf_AddPrefix c) path else path);
          path = fold apply_path (tf_PathTransforms c) path
      in req\<lparr>req_Header := header, req_Path := path\<rparr>)"

definition TransformResponse :: "transform_config \<Rightarrow> header \<Rightarrow> header" where
  "TransformResponse c h = fold apply_header (tf_ResponseHeaders c) h"

definition AddForwardedHeaders :: "string \<Rightarrow> request \<Rightarrow> request" where
  "AddForwardedHeaders clientIP0 req =
     (let prior = Header_Get (req_Header req) ''X-Forwarded-For'';
          clientIP = (if prior \<noteq> '''' then prior @ '', '' @ clientIP0 else clientIP0);
          h = Header_Set ''X-Forwarded-For'' clientIP (req_Header req);
          h = Header_Set ''X-Forwarded-Proto'' (if req_TLS req then ''https'' else ''http'') h;
          h = (if req_Host req \<noteq> '''' then Header_Set ''X-Forwarded-Host'' (req_Host req) h else h);
          h = Header_Set ''X-Real-IP'' clientIP h
      in req\<lparr>req_Header := h\<rparr>)"

definition hopByHopHeaders :: "string list" where
  "hopByHopHeaders = [''Connection'', ''Keep-Alive'', ''Proxy-Authenticate'', ''Proxy-Authorization'',
     ''Te'', ''Trailers'', ''Transfer-Encoding'', ''Upgrade'']"

definition StripHopByHopHeaders :: "header \<Rightarrow> header" where
  "StripHopByHopHeaders header0 =
     (let header = fold Header_Del hopByHopHeaders header0;
          connection = Header_Get header ''Connection''
      in if connection \<noteq> '''' then
           fold (\<lambda>h. Header_Del (TrimSpace h)) (Split connection CHR '','') header
         else header)"

definition CopyHeaders :: "header \<Rightarrow> header \<Rightarrow> header" where
  "CopyHeaders dst src = fold (\<lambda>(key, values). fold (Header_Add key) values) src dst"

definition NormalizeHeaders :: "header \<Rightarrow> header" where
  "NormalizeHeaders header =
     fold (\<lambda>key h. if key \<noteq> ToLower key then
         (case gm_get h key of
            Some values \<Rightarrow> gm_set (ToLower key) values (gm_del key h)
          | None \<Rightarrow> h)
       else h) (map fst header) header"

section \<open>Facts\<close>

lemma hopByHop_canonical: "map CanonicalHeaderKey hopByHopHeaders = hopByHopHeaders"
  unfolding hopByHopHeaders_def by code_simp

lemma fold_Header_Del:
  "gm_get (fold Header_Del keys h) k = (if k \<in> CanonicalHeaderKey ` set keys then None else gm_get h k)"
  by (induction keys arbitrary: h) (auto simp: Header_Del_def)

lemma hop_set: "CanonicalHeaderKey ` set hopByHopHeaders = set hopByHopHeaders"
  using hopByHop_canonical by (metis list.set_map)

lemma StripPrefix_rooted: "HasPrefix (StripPrefix prefix path) ''/''"
  by (simp add: StripPrefix_def Let_def HasPrefix_def)

lemma AddPrefix_prefixed: "HasPrefix (AddPrefix prefix path) prefix"
  by (simp add: AddPrefix_def)

lemma AddPrefix_idem: "AddPrefix prefix (AddPrefix prefix path) = AddPrefix prefix path"
  by (simp add: AddPrefix_def AddPrefix_prefixed [unfolded AddPrefix_def])

lemma forwarded_keys:
  "CanonicalHeaderKey ''X-Forwarded-For'' = ''X-Forwarded-For''"
  "CanonicalHeaderKey ''X-Forwarded-Proto'' = ''X-Forwarded-Proto''"
  "CanonicalHeaderKey ''X-Forwarded-Host'' = ''X-Forwarded-Host''"
  "CanonicalHeaderKey ''X-Real-IP'' = ''X-Real-Ip''"
  by code_simp+

section \<open>Properties\<close>

text \<open>
  Stripping hop-by-hop headers removes the eight fixed headers and nothing else. The
  headers named by the \<^verbatim>\<open>Connection\<close> header are never removed, because that header has been
  deleted before it is read.
\<close>

theorem hop_by_hop_exact:
  "gm_get (StripHopByHopHeaders header) k =
     (if k \<in> set hopByHopHeaders then None else gm_get header k)"
proof -
  have "''Connection'' \<in> set hopByHopHeaders" by (simp add: hopByHopHeaders_def)
  moreover have "CanonicalHeaderKey ''Connection'' = ''Connection''" by code_simp
  ultimately have "Header_Get (fold Header_Del hopByHopHeaders header) ''Connection'' = ''''"
    by (simp add: Header_Get_def fold_Header_Del hop_set)
  then show ?thesis
    by (simp add: StripHopByHopHeaders_def Let_def fold_Header_Del hop_set)
qed

text \<open>
  Path transformations behave. Stripping a prefix removes it once and leaves a path that
  starts with a slash; adding a prefix leaves a path that starts with it and is idempotent;
  a prefix rewrite replaces exactly the leading occurrence.
\<close>

theorem path_transforms:
  "HasPrefix (StripPrefix prefix path) ''/'' \<and>
   StripPrefix prefix (prefix @ ''/'' @ rest) = ''/'' @ rest \<and>
   HasPrefix (AddPrefix prefix path) prefix \<and>
   AddPrefix prefix (AddPrefix prefix path) = AddPrefix prefix path \<and>
   apply_path \<lparr>pt_Type = ''prefix'', pt_Pattern = prefix, pt_Replacement = repl\<rparr> (prefix @ rest) = repl @ rest"
proof -
  have "StripPrefix prefix (prefix @ ''/'' @ rest) = ''/'' @ rest"
    unfolding StripPrefix_def TrimPrefix_append Let_def by (simp add: HasPrefix_def)
  then show ?thesis
    by (simp add: StripPrefix_rooted AddPrefix_prefixed AddPrefix_idem apply_path_def Replace1_prefix)
qed

text \<open>
  Forwarding headers extend the chain. The client's address is appended to an existing
  \<^verbatim>\<open>X-Forwarded-For\<close> chain, the scheme and host are those of the request, and
  \<^verbatim>\<open>X-Real-IP\<close> receives the whole chain instead of the client's address alone.
\<close>

theorem forwarded_headers_chain:
  "let chain = Header_Get (req_Header req) ''X-Forwarded-For'';
       h = req_Header (AddForwardedHeaders ip req);
       full = (if chain = '''' then ip else chain @ '', '' @ ip)
   in Header_Get h ''X-Forwarded-For'' = full \<and> Header_Get h ''X-Real-IP'' = full \<and>
      Header_Get h ''X-Forwarded-Proto'' = (if req_TLS req then ''https'' else ''http'') \<and>
      (req_Host req \<noteq> '''' \<longrightarrow> Header_Get h ''X-Forwarded-Host'' = req_Host req)"
  by (simp add: AddForwardedHeaders_def Let_def Header_Get_Set_other forwarded_keys)

theorem forwarded_headers_chain_witness:
  "Header_Get (req_Header (AddForwardedHeaders ''2.2.2.2''
     \<lparr>req_Method = ''GET'', req_Host = ''h'', req_Path = ''/'', req_RawQuery = '''',
      req_Header = [(''X-Forwarded-For'', [''1.1.1.1''])], req_TLS = False, req_RemoteAddr = ''''\<rparr>))
     ''X-Real-IP'' = ''1.1.1.1, 2.2.2.2''"
  using forwarded_headers_chain [of "\<lparr>req_Method = ''GET'', req_Host = ''h'', req_Path = ''/'', req_RawQuery = '''',
      req_Header = [(''X-Forwarded-For'', [''1.1.1.1''])], req_TLS = False, req_RemoteAddr = ''''\<rparr>" "''2.2.2.2''"]
  by (simp add: Let_def Header_Get_def forwarded_keys gm_get_def)

end
