(* ===== verification/Config.thy ===== *)
theory Config
  imports Prelude
begin

text \<open>
  Package \<^verbatim>\<open>pkg/config\<close>, file \<^verbatim>\<open>config.go\<close>: the configuration structures, the defaults and the
  validation. Pointers to optional sections are options. The YAML parser and the file system
  are arguments of \<open>Load\<close>. Validation returns the configuration because it fills in the hash key.
\<close>

section \<open>Structures\<close>

record backend_cfg =
  bc_Name :: string
  bc_Address :: string
  bc_Weight :: int
  bc_MaxConnections :: int

record load_balancer_cfg =
  lbc_Algorithm :: string
  lbc_HashKey :: string

record certificate_cfg =
  crt_CertFile :: string
  crt_KeyFile :: string
  crt_Domains :: "string list"
  crt_Default :: bool

record backend_tls_cfg =
  btls_Enabled :: bool
  btls_InsecureSkipVerify :: bool
  btls_CAFile :: string
  btls_ClientCertFile :: string
  btls_ClientKeyFile :: string

record sni_cfg =
  sni_Routes :: "(string, string list) gomap"

record tls_cfg =
  tls_Enabled :: bool
  tls_Certificates :: "certificate_cfg list"
  tls_CertFile :: string
  tls_KeyFile :: string
  tls_MinVersion :: string
  tls_MaxVersion :: string
  tls_CipherSuites :: "string list"
  tls_PreferServerCipherSuites :: bool
  tls_SessionTicketsDisabled :: bool
  tls_ClientAuth :: string
  tls_ClientCAFile :: string
  tls_ALPNProtocols :: "string list"
  tls_Backend :: "backend_tls_cfg option"
  tls_SNI :: "sni_cfg option"

record rate_limit_cfg =
  rl_Enabled :: bool
  rl_Type :: string
  rl_RequestsPerSecond :: real
  rl_BurstSize :: int
  rl_WindowSize :: string
  rl_MaxRequests :: int

record connection_protection_cfg =
  cp_MaxConnectionsPerIP :: int
  cp_MaxConnectionRate :: real
  cp_ReadTimeout :: string
  cp_MaxRequestSize :: int
  cp_MaxHeaderSize :: int

record ip_blocklist_cfg =
  ibl_BlockedIPs :: "string list"
  ibl_BlockedCIDRs :: "string list"

record security_cfg =
  sec_RateLimit :: "rate_limit_cfg option"
  sec_ConnectionProtection :: "connection_protection_cfg option"
  sec_IPBlocklist :: "ip_blocklist_cfg option"

record passive_check_cfg =
  pch_Enabled :: bool
  pch_ErrorRateThreshold :: real
  pch_ConsecutiveFailures :: int
  pch_Window :: duration

record health_check_cfg =
  hc_Enabled :: bool
  hc_Interval :: duration
  hc_Timeout :: duration
  hc_UnhealthyThreshold :: int
  hc_HealthyThreshold :: int
  hc_Type :: string
  hc_Path :: string
  hc_PassiveChecks :: "passive_check_cfg option"

record circuit_breaker_cfg =
  cbc_Enabled :: bool
  cbc_MaxFailures :: int
  cbc_Timeout :: duration
  cbc_MaxConcurrentRequests :: int

record retry_cfg =
  rtc_Enabled :: bool
  rtc_MaxAttempts :: int
  rtc_InitialDelay :: duration
  rtc_MaxDelay :: duration
  rtc_Multiplier :: real
  rtc_Jitter :: real

record resilience_cfg =
  res_CircuitBreaker :: "circuit_breaker_cfg option"
  res_Retry :: "retry_cfg option"

record timeouts_cfg =
  to_Connect :: duration
  to_Read :: duration
  to_Write :: duration
  to_Idle :: duration

record metrics_cfg =
  met_Enabled :: bool
  met_Listen :: string
  met_Path :: string

record route_cfg =
  rt_Name :: string
  rt_Host :: string
  rt_PathPrefix :: string
  rt_Headers :: "(string, string) gomap"
  rt_Backends :: "string list"
  rt_Priority :: int

record http_cfg =
  http_Routes :: "route_cfg list"
  http_EnableWebSocket :: bool
  http_EnableHTTP2 :: bool
  http_MaxIdleConnsPerHost :: int
  http_IdleConnTimeout :: duration

record connection_pool_cfg =
  cpl_Enabled :: bool
  cpl_MaxSize :: int
  cpl_MaxIdleTime :: duration

record header_transform_cfg =
  htc_Action :: string
  htc_Name :: string
  htc_Value :: string

record transform_cfg =
  trc_RequestHeaders :: "header_transform_cfg list"
  trc_ResponseHeaders :: "header_transform_cfg list"
  trc_StripPrefix :: string
  trc_AddPrefix :: string

record tracing_cfg =
  trac_Enabled :: bool
  trac_ServiceName :: string
  trac_Endpoint :: string
  trac_SampleRate :: real

record logging_cfg =
  log_Level :: string
  log_Format :: string
  log_AddCaller :: bool
  log_AccessLog :: bool

record config =
  cfg_Mode :: string
  cfg_Listen :: string
  cfg_Backends :: "backend_cfg list"
  cfg_LoadBalancer :: load_balancer_cfg
  cfg_HTTP :: "http_cfg option"
  cfg_TLS :: "tls_cfg option"
  cfg_HealthCheck :: "health_check_cfg option"
  cfg_Resilience :: "resilience_cfg option"
  cfg_Timeouts :: timeouts_cfg
  cfg_Metrics :: metrics_cfg
  cfg_Security :: "security_cfg option"
  cfg_ConnectionPool :: "connection_pool_cfg option"
  cfg_Transform :: "transform_cfg option"
  cfg_Tracing :: "tracing_cfg option"
  cfg_Logging :: "logging_cfg option"

section \<open>Defaults\<close>

text \<open>One step of \<^verbatim>\<open>setDefaults\<close>: a field that still has its zero value gets the default.\<close>

definition dflt :: "'a \<Rightarrow> 'a \<Rightarrow> 'a \<Rightarrow> 'a" where
  "dflt zero d x = (if x = zero then d else x)"

definition default_weights :: "backend_cfg list \<Rightarrow> backend_cfg list" where
  "default_weights = map (\<lambda>b. b\<lparr>bc_Weight := dflt 0 1 (bc_Weight b)\<rparr>)"

definition default_timeouts :: "timeouts_cfg \<Rightarrow> timeouts_cfg" where
  "default_timeouts t =
     \<lparr>to_Connect = dflt 0 (5 * Second) (to_Connect t), to_Read = dflt 0 (30 * Second) (to_Read t),
      to_Write = dflt 0 (30 * Second) (to_Write t), to_Idle = dflt 0 (60 * Second) (to_Idle t)\<rparr>"

definition default_passive :: "passive_check_cfg \<Rightarrow> passive_check_cfg" where
  "default_passive p =
     (if pch_Enabled p then
        p\<lparr>pch_ErrorRateThreshold := dflt 0 (1 / 2) (pch_ErrorRateThreshold p),
          pch_ConsecutiveFailures := dflt 0 5 (pch_ConsecutiveFailures p),
          pch_Window := dflt 0 (1 * Minute) (pch_Window p)\<rparr>
      else p)"

definition default_health :: "health_check_cfg \<Rightarrow> health_check_cfg" where
  "default_health c =
     (if hc_Enabled c then
        c\<lparr>hc_Interval := dflt 0 (10 * Second) (hc_Interval c),
          hc_Timeout := dflt 0 (3 * Second) (hc_Timeout c),
          hc_UnhealthyThreshold := dflt 0 3 (hc_UnhealthyThreshold c),
          hc_HealthyThreshold := dflt 0 2 (hc_HealthyThreshold c),
          hc_Type := dflt '''' ''tcp'' (hc_Type c),
          hc_PassiveChecks := map_option default_passive (hc_PassiveChecks c)\<rparr>
      else c)"

definition default_circuit :: "circuit_breaker_cfg \<Rightarrow> circuit_breaker_cfg" where
  "default_circuit c =
     (if cbc_Enabled c then
        c\<lparr>cbc_MaxFailures := dflt 0 5 (cbc_MaxFailures c),
          cbc_Timeout := dflt 0 (60 * Second) (cbc_Timeout c),
          cbc_MaxConcurrentRequests := dflt 0 1 (cbc_MaxConcurrentRequests c)\<rparr>
      else c)"

definition default_retry :: "retry_cfg \<Rightarrow> retry_cfg" where
  "default_retry r =
     (if rtc_Enabled r then
        r\<lparr>rtc_MaxAttempts := dflt 0 3 (rtc_MaxAttempts r),
          rtc_InitialDelay := dflt 0 (100 * Millisecond) (rtc_InitialDelay r),
          rtc_MaxDelay := dflt 0 (10 * Second) (rtc_MaxDelay r),
          rtc_Multiplier := dflt 0 2 (rtc_Multiplier r),
          rtc_Jitter := dflt 0 (1 / 10) (rtc_Jitter r)\<rparr>
      else r)"

definition default_resilience :: "resilience_cfg \<Rightarrow> resilience_cfg" where
  "default_resilience r =
     \<lparr>res_CircuitBreaker = map_option default_circuit (res_CircuitBreaker r),
      res_Retry = map_option default_retry (res_Retry r)\<rparr>"

definition default_metrics :: "metrics_cfg \<Rightarrow> metrics_cfg" where
  "default_metrics m = (if met_Enabled m \<and> met_Path m = '''' then m\<lparr>met_Path := ''/metrics''\<rparr> else m)"

definition default_http :: "string \<Rightarrow> http_cfg option \<Rightarrow> http_cfg option" where
  "default_http mode http =
     (let http = (if mode = ''http'' \<and> http = None
            then Some \<lparr>http_Routes = [], http_EnableWebSocket = True, http_EnableHTTP2 = True,
                       http_MaxIdleConnsPerHost = 100, http_IdleConnTimeout = 90 * Second\<rparr>
            else http)
      in map_option (\<lambda>h. h\<lparr>http_MaxIdleConnsPerHost := dflt 0 100 (http_MaxIdleConnsPerHost h),
           http_IdleConnTimeout := dflt 0 (90 * Second) (http_IdleConnTimeout h)\<rparr>) http)"

definition default_connection_pool :: "connection_pool_cfg \<Rightarrow> connection_pool_cfg" where
  "default_connection_pool c =
     (if cpl_Enabled c then
        c\<lparr>cpl_MaxSize := dflt 0 10 (cpl_MaxSize c),
          cpl_MaxIdleTime := dflt 0 (5 * Minute) (cpl_MaxIdleTime c)\<rparr>
      else c)"

definition default_tracing :: "tracing_cfg \<Rightarrow> tracing_cfg" where
  "default_tracing t =
     (if trac_Enabled t then
        t\<lparr>trac_ServiceName := dflt '''' ''balance-proxy'' (trac_ServiceName t),
          trac_SampleRate := dflt 0 1 (trac_SampleRate t)\<rparr>
      else t)"

definition default_logging :: "logging_cfg \<Rightarrow> logging_cfg" where
  "default_logging l =
     l\<lparr>log_Level := dflt '''' ''info'' (log_Level l), log_Format := dflt '''' ''text'' (log_Format l)\<rparr>"

definition setDefaults :: "config \<Rightarrow> config" where
  "setDefaults c =
     (let mode = dflt '''' ''tcp'' (cfg_Mode c); lb = cfg_LoadBalancer c
      in c\<lparr>cfg_Mode := mode,
           cfg_Listen := dflt '''' '':8080'' (cfg_Listen c),
           cfg_LoadBalancer := lb\<lparr>lbc_Algorithm := dflt '''' ''round-robin'' (lbc_Algorithm lb)\<rparr>,
           cfg_Backends := default_weights (cfg_Backends c),
           cfg_Timeouts := default_timeouts (cfg_Timeouts c),
           cfg_HealthCheck := map_option default_health (cfg_HealthCheck c),
           cfg_Resilience := map_option default_resilience (cfg_Resilience c),
           cfg_Metrics := default_metrics (cfg_Metrics c),
           cfg_HTTP := default_http mode (cfg_HTTP c),
           cfg_ConnectionPool := map_option default_connection_pool (cfg_ConnectionPool c),
           cfg_Tracing := map_option default_tracing (cfg_Tracing c),
           cfg_Logging := map_option default_logging (cfg_Logging c)\<rparr>)"

section \<open>Validation\<close>

datatype config_error =
    InvalidMode string
  | NoBackends
  | BackendAddressRequired nat
  | BackendWeightNegative nat
  | InvalidAlgorithm string
  | TLSCertificatesRequired
  | CertFileRequired nat
  | KeyFileRequired nat
  | InvalidMinVersion string
  | InvalidMaxVersion string
  | InvalidClientAuth string
  | InvalidRateLimitType string
  | ReadFailed string
  | ParseFailed string

text \<open>The loop over the backends, at index \<open>i\<close>.\<close>

fun validate_backends :: "nat \<Rightarrow> backend_cfg list \<Rightarrow> config_error option" where
  "validate_backends i [] = None"
| "validate_backends i (b # bs) =
     (if bc_Address b = '''' then Some (BackendAddressRequired i)
      else if bc_Weight b < 0 then Some (BackendWeightNegative i)
      else validate_backends (Suc i) bs)"

definition validAlgorithms :: "string list" where
  "validAlgorithms = [''round-robin'', ''least-connections'', ''consistent-hash'',
     ''bounded-consistent-hash'', ''weighted-round-robin'', ''weighted-least-connections'']"

fun validate_certificates :: "nat \<Rightarrow> certificate_cfg list \<Rightarrow> config_error option" where
  "validate_certificates i [] = None"
| "validate_certificates i (c # cs) =
     (if crt_CertFile c = '''' then Some (CertFileRequired i)
      else if crt_KeyFile c = '''' then Some (KeyFileRequired i)
      else validate_certificates (Suc i) cs)"

definition validVersions :: "string list" where
  "validVersions = [''1.0'', ''1.1'', ''1.2'', ''1.3'']"

definition validClientAuth :: "string list" where
  "validClientAuth = [''none'', ''request'', ''require'', ''verify'', ''require-and-verify'']"

definition validate_tls :: "tls_cfg \<Rightarrow> config_error option" where
  "validate_tls t =
     (if \<not> tls_Enabled t then None
      else if length (tls_Certificates t) = 0 \<and> (tls_CertFile t = '''' \<or> tls_KeyFile t = '''')
      then Some TLSCertificatesRequired
      else case validate_certificates 0 (tls_Certificates t) of
        Some e \<Rightarrow> Some e
      | None \<Rightarrow>
          if tls_MinVersion t \<noteq> '''' \<and> tls_MinVersion t \<notin> set validVersions
          then Some (InvalidMinVersion (tls_MinVersion t))
          else if tls_MaxVersion t \<noteq> '''' \<and> tls_MaxVersion t \<notin> set validVersions
          then Some (InvalidMaxVersion (tls_MaxVersion t))
          else if tls_ClientAuth t \<noteq> '''' \<and> tls_ClientAuth t \<notin> set validClientAuth
          then Some (InvalidClientAuth (tls_ClientAuth t))
          else None)"

definition validate_security :: "security_cfg \<Rightarrow> config_error option" where
  "validate_security s =
     (case sec_RateLimit s of
        None \<Rightarrow> None
      | Some r \<Rightarrow>
          if rl_Enabled r \<and> rl_Type r \<noteq> ''token-bucket'' \<and> rl_Type r \<noteq> ''sliding-window''
          then Some (InvalidRateLimitType (rl_Type r)) else None)"

definition default_hash_key :: "load_balancer_cfg \<Rightarrow> load_balancer_cfg" where
  "default_hash_key lb =
     (if (lbc_Algorithm lb = ''consistent-hash'' \<or> lbc_Algorithm lb = ''bounded-consistent-hash'') \<and>
         lbc_HashKey lb = ''''
      then lb\<lparr>lbc_HashKey := ''source-ip''\<rparr> else lb)"

definition Validate :: "config \<Rightarrow> config_error option \<times> config" where
  "Validate c =
     (if cfg_Mode c \<noteq> ''tcp'' \<and> cfg_Mode c \<noteq> ''http'' then (Some (InvalidMode (cfg_Mode c)), c)
      else if length (cfg_Backends c) = 0 then (Some NoBackends, c)
      else case validate_backends 0 (cfg_Backends c) of
        Some e \<Rightarrow> (Some e, c)
      | None \<Rightarrow>
          if lbc_Algorithm (cfg_LoadBalancer c) \<notin> set validAlgorithms
          then (Some (InvalidAlgorithm (lbc_Algorithm (cfg_LoadBalancer c))), c)
          else
            let c = c\<lparr>cfg_LoadBalancer := default_hash_key (cfg_LoadBalancer c)\<rparr> in
            (case (case cfg_TLS c of None \<Rightarrow> None | Some t \<Rightarrow> validate_tls t) of
               Some e \<Rightarrow> (Some e, c)
             | None \<Rightarrow> (case cfg_Security c of None \<Rightarrow> None | Some s \<Rightarrow> validate_security s, c)))"

text \<open>\<open>readFile\<close> stands for the file system, \<open>unmarshal\<close> for the YAML library.\<close>

definition Load ::
    "(string \<Rightarrow> string option) \<Rightarrow> (string \<Rightarrow> config option) \<Rightarrow> string \<Rightarrow> config_error + config" where
  "Load readFile unmarshal path =
     (case readFile path of
        None \<Rightarrow> Inl (ReadFailed path)
      | Some data \<Rightarrow>
          (case unmarshal data of
             None \<Rightarrow> Inl (ParseFailed path)
           | Some cfg \<Rightarrow> Inr (setDefaults cfg)))"

text \<open>The configuration of an empty file: every field has its zero value.\<close>

definition blank_config :: config where
  "blank_config =
     \<lparr>cfg_Mode = '''', cfg_Listen = '''', cfg_Backends = [],
      cfg_LoadBalancer = \<lparr>lbc_Algorithm = '''', lbc_HashKey = ''''\<rparr>,
      cfg_HTTP = None, cfg_TLS = None, cfg_HealthCheck = None, cfg_Resilience = None,
      cfg_Timeouts = \<lparr>to_Connect = 0, to_Read = 0, to_Write = 0, to_Idle = 0\<rparr>,
      cfg_Metrics = \<lparr>met_Enabled = False, met_Listen = '''', met_Path = ''''\<rparr>,
      cfg_Security = None, cfg_ConnectionPool = None, cfg_Transform = None, cfg_Tracing = None,
      cfg_Logging = None\<rparr>"

section \<open>Facts\<close>

lemma dflt_idem [simp]: "dflt z d (dflt z d x) = dflt z d x"
  by (simp add: dflt_def)

lemma dflt_nz [simp]: "d \<noteq> z \<Longrightarrow> dflt z d x \<noteq> z"
  by (simp add: dflt_def)

lemma map_option_idem: "(\<And>x. f (f x) = f x) \<Longrightarrow> map_option f (map_option f o') = map_option f o'"
  by (cases o') auto

lemma default_idem [simp]:
  "default_weights (default_weights bs) = default_weights bs"
  "default_timeouts (default_timeouts t) = default_timeouts t"
  "default_metrics (default_metrics m) = default_metrics m"
  "default_http mode (default_http mode ht) = default_http mode ht"
  "default_connection_pool (default_connection_pool p) = default_connection_pool p"
  "default_tracing (default_tracing tr) = default_tracing tr"
  "default_logging (default_logging l) = default_logging l"
  "default_circuit (default_circuit cb) = default_circuit cb"
  "default_retry (default_retry rt) = default_retry rt"
  "default_passive (default_passive pc) = default_passive pc"
  by (simp_all add: default_weights_def default_timeouts_def default_metrics_def default_http_def
      default_connection_pool_def default_tracing_def default_logging_def default_circuit_def
      default_retry_def default_passive_def Let_def option.map_comp o_def)

lemma default_nested_idem [simp]:
  "default_health (default_health c) = default_health c"
  "default_resilience (default_resilience r) = default_resilience r"
  by (simp_all add: default_health_def default_resilience_def map_option_idem)

lemma validate_backends_None:
  "validate_backends i bs = None \<longleftrightarrow> (\<forall>b \<in> set bs. bc_Address b \<noteq> '''' \<and> 0 \<le> bc_Weight b)"
  by (induction bs arbitrary: i) auto

lemma validate_certificates_None:
  "validate_certificates i cs = None \<longleftrightarrow> (\<forall>c \<in> set cs. crt_CertFile c \<noteq> '''' \<and> crt_KeyFile c \<noteq> '''')"
  by (induction cs arbitrary: i) auto

lemma Validate_ok:
  assumes "Validate c = (None, c')"
  shows "cfg_Mode c \<in> {''tcp'', ''http''}" "cfg_Backends c \<noteq> []"
    "\<forall>b \<in> set (cfg_Backends c). bc_Address b \<noteq> '''' \<and> 0 \<le> bc_Weight b"
    "lbc_Algorithm (cfg_LoadBalancer c) \<in> set validAlgorithms"
    "c' = c\<lparr>cfg_LoadBalancer := default_hash_key (cfg_LoadBalancer c)\<rparr>"
  using assms
  by (auto simp: Validate_def Let_def validate_backends_None split: if_splits option.splits)

text \<open>What an enabled TLS section and an enabled rate limit have to satisfy.\<close>

definition tls_complete :: "tls_cfg \<Rightarrow> bool" where
  "tls_complete t \<longleftrightarrow> (tls_Enabled t \<longrightarrow>
     (tls_Certificates t \<noteq> [] \<or> tls_CertFile t \<noteq> '''' \<and> tls_KeyFile t \<noteq> '''') \<and>
     (\<forall>k \<in> set (tls_Certificates t). crt_CertFile k \<noteq> '''' \<and> crt_KeyFile k \<noteq> '''') \<and>
     (tls_MinVersion t = '''' \<or> tls_MinVersion t \<in> set validVersions) \<and>
     (tls_MaxVersion t = '''' \<or> tls_MaxVersion t \<in> set validVersions) \<and>
     (tls_ClientAuth t = '''' \<or> tls_ClientAuth t \<in> set validClientAuth))"

definition limit_type_known :: "security_cfg \<Rightarrow> bool" where
  "limit_type_known s \<longleftrightarrow> (\<forall>r. sec_RateLimit s = Some r \<longrightarrow> rl_Enabled r \<longrightarrow>
     rl_Type r = ''token-bucket'' \<or> rl_Type r = ''sliding-window'')"

lemma validate_tls_None: "validate_tls t = None \<longleftrightarrow> tls_complete t"
proof (cases "validate_certificates 0 (tls_Certificates t)")
  case None
  with validate_certificates_None [of 0 "tls_Certificates t"] show ?thesis
    by (simp add: validate_tls_def tls_complete_def)
next
  case (Some e)
  with validate_certificates_None [of 0 "tls_Certificates t"] show ?thesis
    by (simp add: validate_tls_def tls_complete_def) blast
qed

lemma validate_security_None: "validate_security s = None \<longleftrightarrow> limit_type_known s"
  by (cases "sec_RateLimit s") (auto simp: validate_security_def limit_type_known_def)

lemma Validate_iff:
  "fst (Validate c) = None \<longleftrightarrow>
     (cfg_Mode c = ''tcp'' \<or> cfg_Mode c = ''http'') \<and> cfg_Backends c \<noteq> [] \<and>
     validate_backends 0 (cfg_Backends c) = None \<and>
     lbc_Algorithm (cfg_LoadBalancer c) \<in> set validAlgorithms \<and>
     (\<forall>t. cfg_TLS c = Some t \<longrightarrow> validate_tls t = None) \<and>
     (\<forall>s. cfg_Security c = Some s \<longrightarrow> validate_security s = None)"
  by (cases "cfg_TLS c"; cases "cfg_Security c"; cases "validate_backends 0 (cfg_Backends c)")
    (simp_all add: Validate_def Let_def split: option.split)

section \<open>Properties\<close>

text \<open>
  Setting the defaults is complete and stable. A second pass changes nothing; after one
  pass the mode, the listen address and the algorithm are set, no backend has weight zero,
  no timeout is zero, and HTTP mode has an HTTP section with non-zero limits.
\<close>

theorem defaults_complete_and_stable:
  "setDefaults (setDefaults c) = setDefaults c \<and>
   cfg_Mode (setDefaults c) \<noteq> '''' \<and> cfg_Listen (setDefaults c) \<noteq> '''' \<and>
   lbc_Algorithm (cfg_LoadBalancer (setDefaults c)) \<noteq> '''' \<and>
   (\<forall>b \<in> set (cfg_Backends (setDefaults c)). bc_Weight b \<noteq> 0) \<and>
   to_Connect (cfg_Timeouts (setDefaults c)) \<noteq> 0 \<and> to_Read (cfg_Timeouts (setDefaults c)) \<noteq> 0 \<and>
   to_Write (cfg_Timeouts (setDefaults c)) \<noteq> 0 \<and> to_Idle (cfg_Timeouts (setDefaults c)) \<noteq> 0 \<and>
   (cfg_Mode (setDefaults c) = ''http'' \<longrightarrow>
     (\<exists>h. cfg_HTTP (setDefaults c) = Some h \<and> http_MaxIdleConnsPerHost h \<noteq> 0 \<and> http_IdleConnTimeout h \<noteq> 0))"
  (is "?idem \<and> ?rest")
proof
  show ?idem by (simp add: setDefaults_def Let_def map_option_idem)
  show ?rest
    by (cases "cfg_HTTP c")
      (simp_all add: setDefaults_def Let_def default_weights_def default_timeouts_def default_http_def)
qed

theorem defaults_complete_and_stable_witness:
  "\<exists>h. cfg_HTTP (setDefaults (blank_config\<lparr>cfg_Mode := ''http''\<rparr>)) = Some h"
  using defaults_complete_and_stable [of "blank_config\<lparr>cfg_Mode := ''http''\<rparr>"]
  by (auto simp: setDefaults_def blank_config_def dflt_def Let_def)



end
