(* ===== verification/Router.thy ===== *)
theory Router
  imports Http Config Backends
begin

text \<open>
  Package \<^verbatim>\<open>pkg/router\<close>, file \<^verbatim>\<open>router.go\<close>. \<^verbatim>\<open>sort.Slice\<close> is not stable, so the order of routes
  of equal priority is not determined by the code: the sorting function is an argument of
  \<open>NewRouter\<close>, of which the properties assume what the library documents.
\<close>

section \<open>Definitions\<close>

record route_entry =
  re_config :: route_cfg
  re_pool :: pool

record router =
  r_routes :: "route_entry list"
  r_defaultPool :: pool

text \<open>The inner loop of \<^verbatim>\<open>NewRouter\<close>: names without a backend are skipped.\<close>

fun route_pool :: "bstore \<Rightarrow> pool \<Rightarrow> string list \<Rightarrow> pool \<Rightarrow> pool" where
  "route_pool h allBackends [] p = p"
| "route_pool h allBackends (name # ns) p =
     (case Pool_GetByName h allBackends name of
        Some b \<Rightarrow> route_pool h allBackends ns (Pool_Add b p)
      | None \<Rightarrow> route_pool h allBackends ns p)"

definition NewRouter ::
    "(route_entry list \<Rightarrow> route_entry list) \<Rightarrow> bstore \<Rightarrow> route_cfg list \<Rightarrow> pool \<Rightarrow> router" where
  "NewRouter sortSlice h routes allBackends =
     \<lparr>r_routes = sortSlice
        (map (\<lambda>r. \<lparr>re_config = r, re_pool = route_pool h allBackends (rt_Backends r) NewPool\<rparr>) routes),
      r_defaultPool = allBackends\<rparr>"

definition matchHost :: "string \<Rightarrow> string \<Rightarrow> bool" where
  "matchHost requestHost0 routeHost =
     (let requestHost = (case Index requestHost0 '':'' of Some idx \<Rightarrow> take idx requestHost0 | None \<Rightarrow> requestHost0)
      in if requestHost = routeHost then True
         else if HasPrefix routeHost ''*.'' then HasSuffix requestHost (drop 1 routeHost)
         else False)"

definition matchRoute :: "request \<Rightarrow> route_cfg \<Rightarrow> bool" where
  "matchRoute req route =
     (if rt_Host route \<noteq> '''' \<and> \<not> matchHost (req_Host req) (rt_Host route) then False
      else if rt_PathPrefix route \<noteq> '''' \<and> \<not> HasPrefix (req_Path req) (rt_PathPrefix route) then False
      else list_all (\<lambda>(key, value). Header_Get (req_Header req) key = value) (rt_Headers route))"

definition Match :: "router \<Rightarrow> request \<Rightarrow> pool" where
  "Match r req =
     (case find (\<lambda>e. matchRoute req (re_config e)) (r_routes r) of
        Some e \<Rightarrow> re_pool e
      | None \<Rightarrow> r_defaultPool r)"

section \<open>Facts\<close>

text \<open>What \<^verbatim>\<open>sort.Slice\<close> with the priority comparison documents.\<close>

definition sorts_by_priority :: "(route_entry list \<Rightarrow> route_entry list) \<Rightarrow> bool" where
  "sorts_by_priority srt \<longleftrightarrow> (\<forall>es. mset (srt es) = mset es \<and>
     sorted_wrt (\<lambda>a b. rt_Priority (re_config b) \<le> rt_Priority (re_config a)) (srt es))"

lemma sort_key_by_priority: "sorts_by_priority (sort_key (\<lambda>e. - rt_Priority (re_config e)))"
proof -
  have "sorted_wrt (\<lambda>a b. rt_Priority (re_config b) \<le> rt_Priority (re_config a))
      (sort_key (\<lambda>e. - rt_Priority (re_config e)) es)" for es :: "route_entry list"
    using sorted_sort_key [of "\<lambda>e. - rt_Priority (re_config e)" es]
    by (simp add: sorted_wrt_map)
  then show ?thesis by (simp add: sorts_by_priority_def)
qed

lemma find_sorted_max:
  assumes "sorted_wrt (\<lambda>a b. (f b :: int) \<le> f a) xs" and "find P xs = Some x" and "y \<in> set xs" and "P y"
  shows "f y \<le> f x"
  using assms
proof (induction xs)
  case (Cons z zs)
  then show ?case by (cases "P z") auto
qed simp

lemma route_pool_backends:
  "p_backends (route_pool h all ns p) = p_backends p @ List.map_filter (Pool_GetByName h all) ns"
  by (induction ns arbitrary: p) (auto simp: List.map_filter_simps split: option.splits)

lemma matchHost_port:
  assumes "CHR '':'' \<notin> set host"
  shows "matchHost (host @ '':'' @ port) r = matchHost host r"
proof -
  have "Index (host @ '':'' @ port) '':'' = Some (length host)"
    using assms by (induction host) (auto simp: Index_Cons HasPrefix_def)
  moreover have "Index host '':'' = None"
    using assms by (induction host) (auto simp: Index_Nil Index_Cons HasPrefix_def)
  ultimately show ?thesis by (simp add: matchHost_def)
qed

definition demo_route :: "string \<Rightarrow> string \<Rightarrow> int \<Rightarrow> route_cfg" where
  "demo_route prefix backend priority =
     \<lparr>rt_Name = prefix, rt_Host = '''', rt_PathPrefix = prefix, rt_Headers = [],
      rt_Backends = [backend], rt_Priority = priority\<rparr>"

definition demo_request :: "string \<Rightarrow> request" where
  "demo_request path =
     \<lparr>req_Method = ''GET'', req_Host = ''example.com'', req_Path = path, req_RawQuery = '''',
      req_Header = [], req_TLS = False, req_RemoteAddr = ''10.0.0.1:9000''\<rparr>"

section \<open>Properties\<close>



text \<open>
  Host patterns mean what they say. A port in the request's host does not matter; a
  pattern \<open>*.domain\<close> accepts exactly the hosts that end in a dot and the domain, besides its
  own text; any other pattern accepts only itself.
\<close>

theorem host_pattern_meaning:
  assumes "CHR '':'' \<notin> set host"
  shows "matchHost (host @ '':'' @ port) pattern = matchHost host pattern \<and>
    (matchHost host (''*.'' @ base) \<longleftrightarrow> host = ''*.'' @ base \<or> (\<exists>sub. host = sub @ ''.'' @ base)) \<and>
    (\<not> HasPrefix pattern ''*.'' \<longrightarrow> (matchHost host pattern \<longleftrightarrow> host = pattern))"
proof -
  have "Index host '':'' = None"
    using assms by (induction host) (auto simp: Index_Nil Index_Cons HasPrefix_def)
  moreover have "HasPrefix (''*.'' @ base) ''*.''" by (rule HasPrefix_self_append)
  ultimately show ?thesis
    using matchHost_port [OF assms] by (simp add: matchHost_def HasSuffix_iff)
qed

theorem host_pattern_meaning_witness:
  "matchHost (''api.example.com'' @ '':'' @ ''8443'') (''*.'' @ ''example.com'')"
  using host_pattern_meaning [of "''api.example.com''" "''8443''" "''*.example.com''" "''example.com''"]
  by (auto intro: exI [of _ "''api''"])

end
