(* ===== verification/Proxy.thy ===== *)
theory Proxy
  imports ConsistentHashing Router
begin

text \<open>
  Package \<^verbatim>\<open>pkg/proxy\<close>, files \<^verbatim>\<open>server.go\<close> and \<^verbatim>\<open>http.go\<close>, and \<^verbatim>\<open>cmd/balance/main.go\<close>: building the
  servers from a configuration, selecting a backend for a connection or a request, and the
  bookkeeping around it. What the network does is an argument: whether the dial succeeds, how
  many bytes each copy moves, whether the reverse proxy reports an error. A connection or
  request is two steps, its arrival (up to counting it on the selected backend) and its end,
  between which other connections run and health marks change. The request has no raw path
  (\<^verbatim>\<open>URL.RawPath\<close>), and what \<^verbatim>\<open>ReverseProxy\<close> does to the headers after the director is not
  modelled.
\<close>

section \<open>Building a server\<close>

datatype balancer =
    RoundRobinBalancer round_robin
  | LeastConnectionsBalancer
  | WeightedRoundRobinBalancer weighted_round_robin
  | WeightedLeastConnectionsBalancer
  | ConsistentHashBalancer consistent_hash
  | BoundedLoadBalancer bounded_consistent_hash

text \<open>The loop over the configured backends; a new backend gets the next free reference.\<close>

fun add_backends :: "nat \<Rightarrow> backend_cfg list \<Rightarrow> bstore \<times> pool \<Rightarrow> bstore \<times> pool" where
  "add_backends i [] s = s"
| "add_backends i (c # cs) (h, p) =
     add_backends (Suc i) cs
       (h(i := NewBackend (bc_Name c) (bc_Address c) (bc_Weight c)), Pool_Add i p)"

definition no_backend :: backend where
  "no_backend = NewBackend '''' '''' 0"

definition new_balancer :: "bstore \<Rightarrow> pool \<Rightarrow> load_balancer_cfg \<Rightarrow> string + balancer" where
  "new_balancer h p lb =
     (let alg = lbc_Algorithm lb in
      if alg = ''round-robin'' then Inr (RoundRobinBalancer NewRoundRobin)
      else if alg = ''least-connections'' then Inr LeastConnectionsBalancer
      else if alg = ''weighted-round-robin'' then Inr (WeightedRoundRobinBalancer NewWeightedRoundRobin)
      else if alg = ''weighted-least-connections'' then Inr WeightedLeastConnectionsBalancer
      else if alg = ''consistent-hash'' then
        Inr (ConsistentHashBalancer (NewConsistentHash h p DefaultVirtualNodes (lbc_HashKey lb)))
      else if alg = ''bounded-consistent-hash'' then
        Inr (BoundedLoadBalancer
          (NewBoundedLoadConsistentHash h p DefaultVirtualNodes (lbc_HashKey lb) (5 / 4)))
      else Inl (''unsupported load balancer algorithm: '' @ alg))"

record http_server =
  hs_config :: config
  hs_http :: http_cfg
  hs_pool :: pool
  hs_balancer :: balancer
  hs_router :: "router option"
  hs_totalRequests :: int
  hs_activeRequests :: int
  hs_totalBytesReceived :: int
  hs_totalBytesSent :: int
  hs_totalErrors :: int

record server =
  srv_config :: config
  srv_pool :: pool
  srv_balancer :: balancer
  srv_httpServer :: "http_server option"
  srv_listening :: bool
  srv_cancelled :: bool
  srv_totalConnections :: int
  srv_activeConnections :: int
  srv_totalBytesReceived :: int
  srv_totalBytesSent :: int

datatype server_error = UnsupportedAlgorithm string | ServerPanic go_panic

definition make_server :: "config \<Rightarrow> pool \<Rightarrow> balancer \<Rightarrow> http_server option \<Rightarrow> server" where
  "make_server cfg p bal http =
     \<lparr>srv_config = cfg, srv_pool = p, srv_balancer = bal, srv_httpServer = http,
      srv_listening = False, srv_cancelled = False,
      srv_totalConnections = 0, srv_activeConnections = 0, srv_totalBytesReceived = 0,
      srv_totalBytesSent = 0\<rparr>"

definition NewTCPServer :: "config \<Rightarrow> server_error + server \<times> bstore" where
  "NewTCPServer cfg =
     (let (h, p) = add_backends 0 (cfg_Backends cfg) (\<lambda>_. no_backend, NewPool)
      in case new_balancer h p (cfg_LoadBalancer cfg) of
           Inl e \<Rightarrow> Inl (UnsupportedAlgorithm e)
         | Inr bal \<Rightarrow> Inr (make_server cfg p bal None, h))"

text \<open>
  The transport reads \<^verbatim>\<open>cfg.HTTP\<close> before the test for nil, so a missing section is a panic.
  \<open>hs_http\<close> is the section that \<^verbatim>\<open>config.HTTP\<close> points to.
\<close>

definition NewHTTPServer ::
    "(route_entry list \<Rightarrow> route_entry list) \<Rightarrow> config \<Rightarrow> server_error + server \<times> bstore" where
  "NewHTTPServer sortSlice cfg =
     (let (h, p) = add_backends 0 (cfg_Backends cfg) (\<lambda>_. no_backend, NewPool)
      in case new_balancer h p (cfg_LoadBalancer cfg) of
           Inl e \<Rightarrow> Inl (UnsupportedAlgorithm e)
         | Inr bal \<Rightarrow>
             (case cfg_HTTP cfg of
                None \<Rightarrow> Inl (ServerPanic NilDereference)
              | Some http \<Rightarrow>
                  let rt = (if length (http_Routes http) > 0
                            then Some (NewRouter sortSlice h (http_Routes http) p) else None)
                  in Inr (make_server cfg p bal
                       (Some \<lparr>hs_config = cfg, hs_http = http, hs_pool = p, hs_balancer = bal,
                          hs_router = rt, hs_totalRequests = 0, hs_activeRequests = 0,
                          hs_totalBytesReceived = 0, hs_totalBytesSent = 0, hs_totalErrors = 0\<rparr>), h)))"

text \<open>
  \<open>listen\<close> says whether the address can be bound. In HTTP mode a failure to listen is only
  logged by the serving goroutine, and \<^verbatim>\<open>Start\<close> still reports success.
\<close>

definition Server_Start :: "(string \<Rightarrow> bool) \<Rightarrow> server \<Rightarrow> bool \<times> server" where
  "Server_Start listen srv =
     (case srv_httpServer srv of
        Some hs \<Rightarrow> (True, srv\<lparr>srv_listening := listen (cfg_Listen (hs_config hs))\<rparr>)
      | None \<Rightarrow>
          if listen (cfg_Listen (srv_config srv)) then (True, srv\<lparr>srv_listening := True\<rparr>)
          else (False, srv))"

text \<open>Both servers cancel the shared context and close their listener.\<close>

definition Server_Shutdown :: "server \<Rightarrow> server" where
  "Server_Shutdown srv = srv\<lparr>srv_cancelled := True, srv_listening := False\<rparr>"

datatype main_result =
    VersionShown
  | LoadFailed config_error
  | ConfigInvalid config_error
  | UnsupportedMode string
  | CreateFailed server_error
  | Crashed go_panic
  | StartFailed
  | Running server bstore

definition start_server :: "(string \<Rightarrow> bool) \<Rightarrow> server_error + server \<times> bstore \<Rightarrow> main_result" where
  "start_server listen created =
     (case created of
        Inl (ServerPanic e) \<Rightarrow> Crashed e
      | Inl e \<Rightarrow> CreateFailed e
      | Inr (srv, h) \<Rightarrow>
          (case Server_Start listen srv of
             (True, srv') \<Rightarrow> Running srv' h
           | (False, _) \<Rightarrow> StartFailed))"

definition main_program ::
    "(route_entry list \<Rightarrow> route_entry list) \<Rightarrow> (string \<Rightarrow> bool) \<Rightarrow> bool \<Rightarrow> config_error + config \<Rightarrow> main_result" where
  "main_program sortSlice listen showVersion loaded =
     (if showVersion then VersionShown
      else case loaded of
        Inl e \<Rightarrow> LoadFailed e
      | Inr cfg0 \<Rightarrow>
          (case Validate cfg0 of
             (Some e, _) \<Rightarrow> ConfigInvalid e
           | (None, cfg) \<Rightarrow>
               if cfg_Mode cfg = ''tcp'' then start_server listen (NewTCPServer cfg)
               else if cfg_Mode cfg = ''http'' then start_server listen (NewHTTPServer sortSlice cfg)
               else UnsupportedMode (cfg_Mode cfg)))"

section \<open>Selecting a backend\<close>

text \<open>The type switch: key-based selection where the balancer has it, plain selection otherwise.\<close>

fun select_backend :: "bstore \<Rightarrow> pool \<Rightarrow> string \<Rightarrow> balancer \<Rightarrow> selection \<times> balancer" where
  "select_backend h p clientIP (RoundRobinBalancer s) =
     (let (r, s') = RoundRobin_Select h p s in (r, RoundRobinBalancer s'))"
| "select_backend h p clientIP LeastConnectionsBalancer =
     (fst (LeastConnections_Select h p ()), LeastConnectionsBalancer)"
| "select_backend h p clientIP (WeightedRoundRobinBalancer s) =
     (let (r, s') = WeightedRoundRobin_Select h p s in (r, WeightedRoundRobinBalancer s'))"
| "select_backend h p clientIP WeightedLeastConnectionsBalancer =
     (fst (WeightedLeastConnections_Select h p ()), WeightedLeastConnectionsBalancer)"
| "select_backend h p clientIP (ConsistentHashBalancer s) =
     (let (r, s') = ConsistentHash_SelectWithKey h p s clientIP in (r, ConsistentHashBalancer s'))"
| "select_backend h p clientIP (BoundedLoadBalancer s) =
     (let (r, s') = BoundedLoad_SelectWithKey h p s clientIP in (r, BoundedLoadBalancer s'))"

section \<open>TCP connections (server.go)\<close>

text \<open>
  \<^verbatim>\<open>handleConnection\<close> up to counting the connection on the selected backend. Without a
  backend the function returns at once and the deferred decrement runs.
\<close>

definition tcp_arrive :: "string \<Rightarrow> server \<times> bstore \<Rightarrow> selection \<times> server \<times> bstore" where
  "tcp_arrive clientIP s =
     (let (srv0, h) = s;
          (r, bal) = select_backend h (srv_pool srv0) clientIP (srv_balancer srv0);
          srv = srv0\<lparr>srv_totalConnections := srv_totalConnections srv0 + 1, srv_balancer := bal\<rparr>
      in case r of
           Inr (Some b) \<Rightarrow>
             (r, srv\<lparr>srv_activeConnections := srv_activeConnections srv + 1\<rparr>, IncrementConnections b h)
         | _ \<Rightarrow> (r, srv, h))"

datatype tcp_end = DialFailed | Copied int int

text \<open>The rest: the dial, \<^verbatim>\<open>proxyData\<close> with the bytes of its two copies, the deferred calls.\<close>

definition tcp_leave :: "bref \<Rightarrow> tcp_end \<Rightarrow> server \<times> bstore \<Rightarrow> server \<times> bstore" where
  "tcp_leave b e s =
     (let (srv0, h) = s; srv = srv0\<lparr>srv_activeConnections := srv_activeConnections srv0 - 1\<rparr>
      in case e of
           DialFailed \<Rightarrow> (srv, DecrementConnections b (MarkUnhealthy b h))
         | Copied received sent \<Rightarrow>
             (srv\<lparr>srv_totalBytesReceived := srv_totalBytesReceived srv + received,
                  srv_totalBytesSent := srv_totalBytesSent srv + sent\<rparr>,
              DecrementConnections b h))"

definition handleConnection :: "string \<Rightarrow> (string \<Rightarrow> tcp_end) \<Rightarrow> server \<times> bstore \<Rightarrow> selection \<times> server \<times> bstore" where
  "handleConnection clientIP network s =
     (case tcp_arrive clientIP s of
        (Inr (Some b), srv, h) \<Rightarrow> (Inr (Some b), tcp_leave b (network (b_address (h b))) (srv, h))
      | r \<Rightarrow> r)"

section \<open>HTTP requests (http.go)\<close>

definition isWebSocketRequest :: "request \<Rightarrow> bool" where
  "isWebSocketRequest r \<longleftrightarrow>
     ToLower (Header_Get (req_Header r) ''Upgrade'') = ''websocket'' \<and>
     Contains (ToLower (Header_Get (req_Header r) ''Connection'')) ''upgrade''"

definition getClientIP :: "request \<Rightarrow> string" where
  "getClientIP r =
     (let xff = Header_Get (req_Header r) ''X-Forwarded-For'' in
      if xff \<noteq> '''' \<and> length (Split xff CHR '','') > 0 then TrimSpace (Split xff CHR '','' ! 0)
      else
        let xri = Header_Get (req_Header r) ''X-Real-IP'' in
        if xri \<noteq> '''' then xri
        else (case SplitHostPort (req_RemoteAddr r) of None \<Rightarrow> req_RemoteAddr r | Some (ip, _) \<Rightarrow> ip))"

definition getScheme :: "request \<Rightarrow> string" where
  "getScheme r =
     (if req_TLS r then ''https''
      else
        let scheme = Header_Get (req_Header r) ''X-Forwarded-Proto'' in
        if scheme \<noteq> '''' then scheme else ''http'')"

text \<open>The director of \<^verbatim>\<open>httputil.NewSingleHostReverseProxy\<close>: it joins the target's path and query
  with those of the request.\<close>

definition singleJoiningSlash :: "string \<Rightarrow> string \<Rightarrow> string" where
  "singleJoiningSlash a b =
     (if HasSuffix a ''/'' \<and> HasPrefix b ''/'' then a @ drop 1 b
      else if \<not> HasSuffix a ''/'' \<and> \<not> HasPrefix b ''/'' then a @ ''/'' @ b
      else a @ b)"

definition join_query :: "string \<Rightarrow> string \<Rightarrow> string" where
  "join_query target q = (if target = '''' \<or> q = '''' then target @ q else target @ ''&'' @ q)"

text \<open>The director the handler installs: the target has the path and query of the request itself.\<close>

definition proxy_Director :: "request \<Rightarrow> request" where
  "proxy_Director r =
     (let clientIP = getClientIP r
      in r\<lparr>req_Path := singleJoiningSlash (req_Path r) (req_Path r),
           req_RawQuery := join_query (req_RawQuery r) (req_RawQuery r),
           req_Header :=
             Header_Set ''X-Real-IP'' clientIP
               (Header_Set ''X-Forwarded-Proto'' (getScheme r)
                 (Header_Set ''X-Forwarded-Host'' (req_Host r)
                   (Header_Set ''X-Forwarded-For'' clientIP (req_Header r))))\<rparr>)"

text \<open>The selection both handlers share, up to counting the request on the backend.\<close>

definition http_select :: "request \<Rightarrow> http_server \<times> bstore \<Rightarrow> selection \<times> http_server \<times> bstore" where
  "http_select r s =
     (let (hs0, h) = s;
          (sel, bal) = select_backend h (hs_pool hs0) (getClientIP r) (hs_balancer hs0);
          hs = hs0\<lparr>hs_balancer := bal\<rparr>
      in case sel of
           Inl e \<Rightarrow> (sel, hs, h)
         | Inr None \<Rightarrow> (sel, hs\<lparr>hs_totalErrors := hs_totalErrors hs + 1\<rparr>, h)
         | Inr (Some b) \<Rightarrow> (sel, hs, IncrementConnections b h))"

datatype response = Status int | Relayed request | Hijacked

text \<open>\<open>Served\<close> is any return without a call of the error handler, an aborted response included.\<close>

datatype serve_end = Served | ProxyError
datatype ws_end = WsDialFailed | WsNotHijacker | WsHijackFailed | WsWriteFailed | WsCopied int int

definition count_error :: "http_server \<Rightarrow> http_server" where
  "count_error hs = hs\<lparr>hs_totalErrors := hs_totalErrors hs + 1\<rparr>"

definition serve_leave ::
    "request \<Rightarrow> bref \<Rightarrow> serve_end \<Rightarrow> http_server \<times> bstore \<Rightarrow> response \<times> http_server \<times> bstore" where
  "serve_leave r b e s =
     (let (hs, h) = s
      in case e of
           Served \<Rightarrow> (Relayed (proxy_Director r), hs, DecrementConnections b h)
         | ProxyError \<Rightarrow> (Status 502, count_error hs, DecrementConnections b (MarkUnhealthy b h)))"

definition ws_leave :: "bref \<Rightarrow> ws_end \<Rightarrow> http_server \<times> bstore \<Rightarrow> response \<times> http_server \<times> bstore" where
  "ws_leave b e s =
     (let (hs, h) = s
      in case e of
           WsDialFailed \<Rightarrow> (Status 502, count_error hs, DecrementConnections b (MarkUnhealthy b h))
         | WsNotHijacker \<Rightarrow> (Status 500, count_error hs, DecrementConnections b h)
         | WsHijackFailed \<Rightarrow> (Status 500, count_error hs, DecrementConnections b h)
         | WsWriteFailed \<Rightarrow> (Hijacked, count_error hs, DecrementConnections b h)
         | WsCopied up down \<Rightarrow>
             (Hijacked,
              hs\<lparr>hs_totalBytesSent := hs_totalBytesSent hs + up,
                 hs_totalBytesReceived := hs_totalBytesReceived hs + down\<rparr>,
              DecrementConnections b h))"

definition http_arrive :: "request \<Rightarrow> http_server \<times> bstore \<Rightarrow> selection \<times> http_server \<times> bstore" where
  "http_arrive r s =
     (let (hs0, h) = s;
          (sel, hs, h') = http_select r (hs0\<lparr>hs_totalRequests := hs_totalRequests hs0 + 1\<rparr>, h)
      in case sel of
           Inr (Some b) \<Rightarrow> (sel, hs\<lparr>hs_activeRequests := hs_activeRequests hs + 1\<rparr>, h')
         | _ \<Rightarrow> (sel, hs, h'))"

definition http_leave ::
    "request \<Rightarrow> bref \<Rightarrow> serve_end \<Rightarrow> ws_end \<Rightarrow> http_server \<times> bstore \<Rightarrow> response \<times> http_server \<times> bstore" where
  "http_leave r b e w s =
     (let (resp, hs, h) =
            (if http_EnableWebSocket (hs_http (fst s)) \<and> isWebSocketRequest r then ws_leave b w s
             else serve_leave r b e s)
      in (resp, hs\<lparr>hs_activeRequests := hs_activeRequests hs - 1\<rparr>, h))"

text \<open>The result of \<^verbatim>\<open>router.Match\<close> is dropped by the handler, so it does not appear here.\<close>

definition handleRequest ::
    "request \<Rightarrow> (string \<Rightarrow> serve_end) \<Rightarrow> (string \<Rightarrow> ws_end) \<Rightarrow> http_server \<times> bstore
      \<Rightarrow> (go_panic + response) \<times> http_server \<times> bstore" where
  "handleRequest r serve upgrade s =
     (case http_arrive r s of
        (Inl e, hs, h) \<Rightarrow> (Inl e, hs, h)
      | (Inr None, hs, h) \<Rightarrow> (Inr (Status 503), hs, h)
      | (Inr (Some b), hs, h) \<Rightarrow>
          let addr = b_address (h b); (resp, s') = http_leave r b (serve addr) (upgrade addr) (hs, h)
          in (Inr resp, s'))"

section \<open>Interleaved connections\<close>

text \<open>
  The states of a TCP server with the multiset of connections in flight: connections arrive
  and end in any order, and health checks flip the marks of any backend in between.
\<close>

inductive tcp_reach :: "config \<Rightarrow> bref multiset \<Rightarrow> server \<Rightarrow> bstore \<Rightarrow> bool" for cfg where
  tcp_init: "NewTCPServer cfg = Inr (srv, h) \<Longrightarrow> tcp_reach cfg {#} srv h"
| tcp_routed: "\<lbrakk>tcp_reach cfg fl srv h; tcp_arrive ip (srv, h) = (Inr (Some b), srv', h')\<rbrakk>
    \<Longrightarrow> tcp_reach cfg (add_mset b fl) srv' h'"
| tcp_refused: "\<lbrakk>tcp_reach cfg fl srv h; tcp_arrive ip (srv, h) = (Inr None, srv', h')\<rbrakk>
    \<Longrightarrow> tcp_reach cfg fl srv' h'"
| tcp_ended: "\<lbrakk>tcp_reach cfg (add_mset b fl) srv h; tcp_leave b e (srv, h) = (srv', h')\<rbrakk>
    \<Longrightarrow> tcp_reach cfg fl srv' h'"
| tcp_up: "tcp_reach cfg fl srv h \<Longrightarrow> tcp_reach cfg fl srv (MarkHealthy b h)"
| tcp_down: "tcp_reach cfg fl srv h \<Longrightarrow> tcp_reach cfg fl srv (MarkUnhealthy b h)"

inductive http_reach :: "http_server \<Rightarrow> bstore \<Rightarrow> (request \<times> bref) multiset \<Rightarrow> http_server \<Rightarrow> bstore \<Rightarrow> bool"
  for hs0 h0 where
  http_init: "http_reach hs0 h0 {#} hs0 h0"
| http_routed: "\<lbrakk>http_reach hs0 h0 fl hs h; http_arrive r (hs, h) = (Inr (Some b), hs', h')\<rbrakk>
    \<Longrightarrow> http_reach hs0 h0 (add_mset (r, b) fl) hs' h'"
| http_refused: "\<lbrakk>http_reach hs0 h0 fl hs h; http_arrive r (hs, h) = (sel, hs', h'); \<forall>b. sel \<noteq> Inr (Some b)\<rbrakk>
    \<Longrightarrow> http_reach hs0 h0 fl hs' h'"
| http_ended: "\<lbrakk>http_reach hs0 h0 (add_mset (r, b) fl) hs h; http_leave r b e w (hs, h) = (resp, hs', h')\<rbrakk>
    \<Longrightarrow> http_reach hs0 h0 fl hs' h'"
| http_up: "http_reach hs0 h0 fl hs h \<Longrightarrow> http_reach hs0 h0 fl hs (MarkHealthy b h)"
| http_down: "http_reach hs0 h0 fl hs h \<Longrightarrow> http_reach hs0 h0 fl hs (MarkUnhealthy b h)"

definition tracks :: "bref multiset \<Rightarrow> bstore \<Rightarrow> bool" where
  "tracks fl h \<longleftrightarrow> (\<forall>b. b_activeConnections (h b) = int (count fl b))"

section \<open>Facts\<close>

lemma tracks_ops:
  "tracks fl (MarkHealthy b h) \<longleftrightarrow> tracks fl h"
  "tracks fl (MarkUnhealthy b h) \<longleftrightarrow> tracks fl h"
  "tracks fl h \<Longrightarrow> tracks (add_mset b fl) (IncrementConnections b h)"
  "tracks (add_mset b fl) h \<Longrightarrow> tracks fl (DecrementConnections b h)"
  "tracks (add_mset b fl) h \<Longrightarrow> tracks fl (DecrementConnections b (MarkUnhealthy b h))"
  by (auto simp: tracks_def)

lemma add_backends_connections:
  "(\<And>b. b_activeConnections (fst s b) = 0) \<Longrightarrow> b_activeConnections (fst (add_backends i cs s) b) = 0"
  by (induction i cs s rule: add_backends.induct) (auto simp: NewBackend_def)

lemma add_backends_pool: "p_backends (snd (add_backends i cs s)) = p_backends (snd s) @ [i..<i + length cs]"
  by (induction i cs s rule: add_backends.induct)
    (simp_all add: upt_conv_Cons del: upt_Suc)

lemma tracks_add_backends: "tracks {#} (fst (add_backends 0 cs (\<lambda>_. no_backend, p)))"
  by (auto simp: tracks_def no_backend_def NewBackend_def intro!: add_backends_connections)

lemma new_balancer_valid:
  "lbc_Algorithm lb \<in> set validAlgorithms \<Longrightarrow> \<exists>bal. new_balancer h p lb = Inr bal"
  by (auto simp: new_balancer_def validAlgorithms_def Let_def)

text \<open>The states in which every algorithm keeps the contract of a load balancer.\<close>

fun balancer_ok :: "bstore \<Rightarrow> pool \<Rightarrow> balancer \<Rightarrow> bool" where
  "balancer_ok h p (WeightedRoundRobinBalancer s) \<longleftrightarrow> 0 \<le> sint (wrr_current s)"
| "balancer_ok h p (ConsistentHashBalancer s) \<longleftrightarrow> ch_fresh h p s"
| "balancer_ok h p (BoundedLoadBalancer s) \<longleftrightarrow> bch_fresh h p s"
| "balancer_ok h p _ \<longleftrightarrow> True"

interpretation sb: load_balancer "\<lambda>h p. select_backend h p ip" balancer_ok for ip
proof
  fix h p s
  assume "balancer_ok h p s" and "Pool_Healthy h p \<noteq> []"
  then show "\<exists>b. fst (select_backend h p ip s) = Inr (Some b) \<and> b \<in> set (Pool_Healthy h p)"
    by (cases s) (simp_all add: case_prod_beta Let_def rr.select_some lc.select_some wrr.select_some
        wlc.select_some ch.key_some bch.key_some del: set_Pool_Healthy)
next
  fix h p s
  assume "balancer_ok h p s" and "Pool_Healthy h p = []"
  then show "fst (select_backend h p ip s) = Inr None"
    by (cases s) (simp_all add: case_prod_beta Let_def rr.select_none lc.select_none wrr.select_none
        wlc.select_none ch.key_none bch.key_none del: set_Pool_Healthy)
qed

lemma balancer_ok_new:
  "new_balancer h p lb = Inr bal \<Longrightarrow> balancer_ok h p bal"
  by (auto simp: new_balancer_def Let_def NewWeightedRoundRobin_def NewBoundedLoadConsistentHash_def
      bch_fresh_def ch_fresh_New split: if_splits)

lemma tcp_reach_tracks:
  "tcp_reach cfg fl srv h \<Longrightarrow>
     tracks fl h \<and> srv_activeConnections srv = int (size fl) \<and>
     p_backends (srv_pool srv) = [0..<length (cfg_Backends cfg)]"
proof (induction rule: tcp_reach.induct)
  case (tcp_init srv h)
  then show ?case
    using tracks_add_backends [of "cfg_Backends cfg" NewPool]
      add_backends_pool [of 0 "cfg_Backends cfg" "(\<lambda>_. no_backend, NewPool)"]
    by (auto simp: NewTCPServer_def make_server_def NewPool_def split: prod.splits sum.splits)
qed (auto simp: tcp_arrive_def tcp_leave_def tracks_ops Let_def
      split: prod.splits sum.splits option.splits tcp_end.splits)

lemma http_reach_tracks:
  assumes "http_reach hs0 h0 fl hs h" and "tracks {#} h0" and "hs_activeRequests hs0 = 0"
  shows "tracks (image_mset snd fl) h \<and> hs_activeRequests hs = int (size fl) \<and> hs_pool hs = hs_pool hs0"
  using assms(1)
proof (induction rule: http_reach.induct)
  case http_init
  with assms(2,3) show ?case by simp
qed (auto simp: http_arrive_def http_select_def http_leave_def ws_leave_def serve_leave_def
      count_error_def tracks_ops Let_def
      split: prod.splits sum.splits option.splits ws_end.splits serve_end.splits if_splits)

definition demo_config :: "string \<Rightarrow> config" where
  "demo_config mode = setDefaults (blank_config\<lparr>cfg_Mode := mode, cfg_Backends :=
     [\<lparr>bc_Name = ''a'', bc_Address = ''a:80'', bc_Weight = 1, bc_MaxConnections = 0\<rparr>,
      \<lparr>bc_Name = ''b'', bc_Address = ''b:80'', bc_Weight = 1, bc_MaxConnections = 0\<rparr>]\<rparr>)"

definition demo_tcp :: "server \<times> bstore" where
  "demo_tcp = (case NewTCPServer (demo_config ''tcp'') of Inr s \<Rightarrow> s)"

lemma demo_tcp_new: "NewTCPServer (demo_config ''tcp'') = Inr demo_tcp"
  by (simp add: demo_tcp_def demo_config_def NewTCPServer_def new_balancer_def setDefaults_def
      blank_config_def dflt_def default_weights_def Let_def)

lemma demo_tcp_pool: "Pool_Healthy (snd demo_tcp) (srv_pool (fst demo_tcp)) = [0, 1]"
  by (simp add: demo_tcp_def demo_config_def NewTCPServer_def new_balancer_def setDefaults_def
      blank_config_def dflt_def default_weights_def Let_def make_server_def Pool_Healthy_def
      NewBackend_def NewPool_def Pool_Add_def)

lemma demo_tcp_balancer: "srv_balancer (fst demo_tcp) = RoundRobinBalancer NewRoundRobin"
  by (simp add: demo_tcp_def demo_config_def NewTCPServer_def new_balancer_def setDefaults_def
      blank_config_def dflt_def default_weights_def Let_def make_server_def)

section \<open>Properties\<close>

text \<open>
  C3: Connections are accounted for under every interleaving. Whatever the order in which TCP
  connections arrive and end, also when dials fail and health marks change in between, the
  count of every backend is the number of connections in flight to it, and the server's own
  count is the number of all of them; so when the last one ends every count is zero.
\<close>

theorem connections_balanced:
  assumes "tcp_reach cfg fl srv h"
  shows "(\<forall>b. b_activeConnections (h b) = int (count fl b)) \<and>
    srv_activeConnections srv = int (size fl) \<and>
    p_backends (srv_pool srv) = [0..<length (cfg_Backends cfg)]"
  using tcp_reach_tracks [OF assms] by (simp add: tracks_def)

theorem connections_balanced_witness:
  "\<exists>srv h. tcp_reach (demo_config ''tcp'') {#0#} srv h \<and> b_activeConnections (h 0) = 1 \<and>
     srv_activeConnections srv = 1"
proof -
  let ?r = "tcp_arrive ''10.0.0.1'' demo_tcp"
  have "fst ?r = Inr (Some 0)"
    using demo_tcp_pool demo_tcp_balancer
    by (simp add: tcp_arrive_def Let_def RoundRobin_Select_def NewRoundRobin_def case_prod_beta)
  then have "tcp_arrive ''10.0.0.1'' (fst demo_tcp, snd demo_tcp) = (Inr (Some 0), fst (snd ?r), snd (snd ?r))"
    by (metis prod.collapse)
  moreover have "tcp_reach (demo_config ''tcp'') {#} (fst demo_tcp) (snd demo_tcp)"
    by (rule tcp_init) (simp add: demo_tcp_new)
  ultimately have r: "tcp_reach (demo_config ''tcp'') {#0#} (fst (snd ?r)) (snd (snd ?r))"
    by (rule tcp_routed [rotated])
  from connections_balanced [OF r] have "b_activeConnections (snd (snd ?r) 0) = 1"
    "srv_activeConnections (fst (snd ?r)) = 1" by simp_all
  with r show ?thesis by blast
qed

text \<open>
  C18: A configuration that loads and validates starts. In TCP mode the program runs exactly
  when the address can be bound; in HTTP mode it always runs, since the defaults have
  supplied the HTTP section the constructor dereferences. No backend is lost: the pool has
  one backend per configured one.
\<close>

theorem valid_config_starts:
  assumes "Load readFile unmarshal path = Inr cfg" and "fst (Validate cfg) = None"
  shows "if cfg_Mode cfg = ''tcp'' \<and> \<not> listen (cfg_Listen cfg)
    then main_program sortSlice listen False (Inr cfg) = StartFailed
    else \<exists>srv h. main_program sortSlice listen False (Inr cfg) = Running srv h \<and>
      p_backends (srv_pool srv) = [0..<length (cfg_Backends cfg)]"
proof -
  obtain c0 where c0: "cfg = setDefaults c0"
    using assms(1) by (auto simp: Load_def split: option.splits)
  obtain c where c: "Validate cfg = (None, c)"
    using assms(2) by (cases "Validate cfg") auto
  note ok = Validate_ok [OF c]
  let ?s = "add_backends 0 (cfg_Backends cfg) (\<lambda>_. no_backend, NewPool)"
  have "lbc_Algorithm (cfg_LoadBalancer c) \<in> set validAlgorithms"
    using ok(4) unfolding ok(5) by (simp add: default_hash_key_def)
  then obtain bal where "new_balancer (fst ?s) (snd ?s) (cfg_LoadBalancer c) = Inr bal"
    using new_balancer_valid by blast
  moreover have "cfg_Mode cfg = ''http'' \<Longrightarrow> \<exists>http. cfg_HTTP cfg = Some http"
    unfolding c0 by (cases "cfg_HTTP c0") (auto simp: setDefaults_def default_http_def Let_def)
  moreover have "p_backends (snd ?s) = [0..<length (cfg_Backends cfg)]"
    by (simp add: add_backends_pool NewPool_def)
  ultimately show ?thesis
    using ok(1,5) c
    by (auto simp: main_program_def start_server_def NewTCPServer_def NewHTTPServer_def
        Server_Start_def make_server_def case_prod_beta Let_def)
qed

theorem valid_config_starts_witness:
  "\<exists>srv h. main_program (\<lambda>es. es) (\<lambda>_. False) False (Inr (demo_config ''http'')) = Running srv h \<and>
     p_backends (srv_pool srv) = [0..<2]"
  using valid_config_starts [of "\<lambda>_. Some ''''" "\<lambda>_. Some (blank_config\<lparr>cfg_Mode := ''http'', cfg_Backends :=
     [\<lparr>bc_Name = ''a'', bc_Address = ''a:80'', bc_Weight = 1, bc_MaxConnections = 0\<rparr>,
      \<lparr>bc_Name = ''b'', bc_Address = ''b:80'', bc_Weight = 1, bc_MaxConnections = 0\<rparr>]\<rparr>)" "''''"
    "demo_config ''http''" "\<lambda>_. False" "\<lambda>es. es"]
  by (simp add: Load_def demo_config_def Validate_iff setDefaults_def blank_config_def dflt_def
      default_weights_def validAlgorithms_def Let_def numeral_2_eq_2)

text \<open>
  The path reaches the backend twice. The handler gives the reverse proxy a target that
  already has the path and query of the request, and the proxy's director appends the
  request's own: a path that starts with a slash and does not end with one, and a non-empty
  query, arrive doubled. Only the root path is forwarded unchanged.
\<close>

theorem forwarded_path_doubled:
  assumes "HasPrefix (req_Path r) ''/''"
  shows "(\<not> HasSuffix (req_Path r) ''/'' \<longrightarrow> req_Path (proxy_Director r) = req_Path r @ req_Path r) \<and>
    (req_Path (proxy_Director r) = req_Path r \<longleftrightarrow> req_Path r = ''/'') \<and>
    (req_RawQuery r \<noteq> '''' \<longrightarrow>
      req_RawQuery (proxy_Director r) = req_RawQuery r @ ''&'' @ req_RawQuery r)"
proof -
  obtain p where p: "req_Path r = CHR ''/'' # p"
    using assms by (cases "req_Path r") (auto simp: HasPrefix_def)
  have "HasSuffix ''/'' ''/''" by (simp add: HasSuffix_def)
  then show ?thesis
    using assms by (auto simp: proxy_Director_def Let_def singleJoiningSlash_def join_query_def p)
qed

theorem forwarded_path_doubled_witness:
  "req_Path (proxy_Director (demo_request ''x'' \<lparr>req_Path := ''/api'', req_RawQuery := ''k=1''\<rparr>)) = ''/api/api'' \<and>
   req_RawQuery (proxy_Director (demo_request ''x'' \<lparr>req_Path := ''/api'', req_RawQuery := ''k=1''\<rparr>)) = ''k=1&k=1''"
  using forwarded_path_doubled [of "demo_request ''x'' \<lparr>req_Path := ''/api'', req_RawQuery := ''k=1''\<rparr>"]
  by (simp add: HasPrefix_def HasSuffix_def)

text \<open>
  A backend that fails is taken out of rotation. If the balancer is in order, a connection
  is refused exactly when no backend is healthy; otherwise it goes to a healthy backend of
  the pool, and if the dial fails that backend is marked unhealthy with its connection count
  restored, while no other backend changes.
\<close>

theorem failed_dial_marks_backend:
  assumes "balancer_ok h (srv_pool srv) (srv_balancer srv)"
    and "handleConnection ip (\<lambda>_. DialFailed) (srv, h) = (r, srv', h')"
  shows "srv_activeConnections srv' = srv_activeConnections srv \<and>
    (if Pool_Healthy h (srv_pool srv) = [] then r = Inr None \<and> h' = h
     else \<exists>b \<in> set (Pool_Healthy h (srv_pool srv)). r = Inr (Some b) \<and>
       h' = h(b := (h b)\<lparr>b_healthy := False\<rparr>))"
proof -
  obtain sel bal where sel: "select_backend h (srv_pool srv) ip (srv_balancer srv) = (sel, bal)"
    by (cases "select_backend h (srv_pool srv) ip (srv_balancer srv)")
  show ?thesis
  proof (cases "Pool_Healthy h (srv_pool srv) = []")
    case True
    with sb.select_none [OF assms(1), of ip] sel assms(2) show ?thesis
      by (auto simp: handleConnection_def tcp_arrive_def Let_def)
  next
    case False
    with sb.select_some [OF assms(1), of ip] sel obtain b where
      "sel = Inr (Some b)" "b \<in> set (Pool_Healthy h (srv_pool srv))" by auto
    with False sel assms(2) show ?thesis
      by (auto simp: handleConnection_def tcp_arrive_def tcp_leave_def backend_ops_defs Let_def)
  qed
qed

theorem failed_dial_marks_backend_witness:
  "\<exists>b \<in> {0, 1}. \<not> b_healthy (snd (snd (handleConnection ''10.0.0.1'' (\<lambda>_. DialFailed) demo_tcp)) b)"
proof -
  let ?r = "handleConnection ''10.0.0.1'' (\<lambda>_. DialFailed) (fst demo_tcp, snd demo_tcp)"
  have "?r = (fst ?r, fst (snd ?r), snd (snd ?r))" by simp
  from failed_dial_marks_backend [OF _ this] show ?thesis
    by (auto simp: demo_tcp_pool demo_tcp_balancer)
qed

end
