(* ===== verification/Sni.thy ===== *)
theory Sni
  imports Prelude
begin

text \<open>
  Package \<^verbatim>\<open>pkg/tls\<close>, the function \<^verbatim>\<open>ParseSNI\<close> of \<^verbatim>\<open>sni.go\<close>: it finds the server name in the
  bytes of a TLS ClientHello. Every read of the slice is explicit, and a read out of range is
  the panic it would be in Go. The encoder at the end of the definitions is the wire format
  of the handshake (RFC 5246 and RFC 6066), against which the parser is checked.
\<close>

unbundle bit_operations_syntax

section \<open>Definitions\<close>

datatype sni_failure =
    ReadPanic go_panic
  | ShortRecord
  | NotHandshake
  | ShortHandshake
  | NotClientHello
  | ShortSessionID
  | ShortCipherSuites
  | ShortCompression
  | NoExtensions
  | ShortExtensions
  | BadExtensionLength
  | BadListLength
  | SNINotFound

type_synonym sni_result = "sni_failure + string"

definition rd :: "string \<Rightarrow> nat \<Rightarrow> (nat \<Rightarrow> sni_failure + 'a) \<Rightarrow> sni_failure + 'a" where
  "rd data i k = (if i < length data then k (of_char (data ! i)) else Inl (ReadPanic IndexOutOfRange))"

definition rd16 :: "string \<Rightarrow> nat \<Rightarrow> (nat \<Rightarrow> sni_failure + 'a) \<Rightarrow> sni_failure + 'a" where
  "rd16 data i k = rd data i (\<lambda>a. rd data (i + 1) (\<lambda>b. k (push_bit 8 a OR b)))"

definition rd_slice :: "string \<Rightarrow> nat \<Rightarrow> nat \<Rightarrow> sni_result" where
  "rd_slice data lo hi =
     (if lo \<le> hi \<and> hi \<le> length data then Inr (take (hi - lo) (drop lo data))
      else Inl (ReadPanic SliceOutOfRange))"

text \<open>
  The branch for the SNI extension whose body is at \<open>pos\<close>: an error, the host name, or \<open>None\<close>
  when the first name is not a host name and the loop goes on.
\<close>

definition sni_extension :: "string \<Rightarrow> nat \<Rightarrow> nat \<Rightarrow> sni_failure + string option" where
  "sni_extension data pos extLen =
     (if extLen < 2 then Inl BadExtensionLength
      else rd16 data pos (\<lambda>listLen.
        let pos = pos + 2 in
        if listLen < 3 \<or> length data < pos + listLen then Inl BadListLength
        else rd data pos (\<lambda>nameType. rd16 data (pos + 1) (\<lambda>nameLen.
          let pos = pos + 3 in
          if nameType = 0 \<and> length data \<ge> pos + nameLen
          then map_sum id Some (rd_slice data pos (pos + nameLen))
          else Inr None))))"

text \<open>After that branch the position has moved past the list length and the name header as well.\<close>

function ext_loop :: "string \<Rightarrow> nat \<Rightarrow> nat \<Rightarrow> sni_result" where
  "ext_loop data stop pos =
     (if \<not> pos < stop then Inl SNINotFound
      else if length data < pos + 4 then Inl SNINotFound
      else rd16 data pos (\<lambda>extType. rd16 data (pos + 2) (\<lambda>extLen.
        if extType = 0 \<and> length data \<ge> pos + 4 + extLen then
          (case sni_extension data (pos + 4) extLen of
             Inl e \<Rightarrow> Inl e
           | Inr (Some hostname) \<Rightarrow> Inr hostname
           | Inr None \<Rightarrow> ext_loop data stop (pos + 9 + extLen))
        else ext_loop data stop (pos + 4 + extLen))))"
  by pat_completeness auto
termination
  by (relation "measure (\<lambda>(data, stop, pos). stop - pos)") auto

declare ext_loop.simps [simp del]

definition ParseSNI :: "string \<Rightarrow> sni_result" where
  "ParseSNI data =
     (if length data < 5 then Inl ShortRecord
      else rd data 0 (\<lambda>recordType.
        if recordType \<noteq> 22 then Inl NotHandshake
        else let pos = 5 in
        if length data < pos + 4 then Inl ShortHandshake
        else rd data pos (\<lambda>handshakeType.
          if handshakeType \<noteq> 1 then Inl NotClientHello
          else let pos = pos + (4 + 2 + 32) in
          if length data < pos + 1 then Inl ShortSessionID
          else rd data pos (\<lambda>sessionIDLen. let pos = pos + (1 + sessionIDLen) in
          if length data < pos + 2 then Inl ShortCipherSuites
          else rd16 data pos (\<lambda>cipherSuitesLen. let pos = pos + (2 + cipherSuitesLen) in
          if length data < pos + 1 then Inl ShortCompression
          else rd data pos (\<lambda>compressionMethodsLen. let pos = pos + (1 + compressionMethodsLen) in
          if length data < pos + 2 then Inl NoExtensions
          else rd16 data pos (\<lambda>extensionsLen. let pos = pos + 2; stop = pos + extensionsLen in
          if length data < stop then Inl ShortExtensions
          else ext_loop data stop pos)))))))"

section \<open>The wire format\<close>

definition enc16 :: "nat \<Rightarrow> string" where
  "enc16 n = [char_of (n div 256), char_of (n mod 256)]"

definition enc24 :: "nat \<Rightarrow> string" where
  "enc24 n = char_of (n div 65536) # enc16 (n mod 65536)"

definition enc_extension :: "nat \<times> string \<Rightarrow> string" where
  "enc_extension e = enc16 (fst e) @ enc16 (length (snd e)) @ snd e"

definition enc_extensions :: "(nat \<times> string) list \<Rightarrow> string" where
  "enc_extensions es = concat (map enc_extension es)"

definition sni_body :: "string \<Rightarrow> string" where
  "sni_body host = enc16 (length host + 3) @ char_of (0 :: nat) # enc16 (length host) @ host"

record client_hello =
  hello_version :: string
  hello_random :: string
  hello_session :: string
  hello_ciphers :: string
  hello_compression :: string
  hello_extensions :: "(nat \<times> string) list"

definition hello_wf :: "client_hello \<Rightarrow> bool" where
  "hello_wf c \<longleftrightarrow>
     length (hello_version c) = 2 \<and> length (hello_random c) = 32 \<and> length (hello_session c) < 256 \<and>
     length (hello_ciphers c) < 65536 \<and> length (hello_compression c) < 256 \<and>
     length (enc_extensions (hello_extensions c)) < 65536 \<and>
     list_all (\<lambda>e. fst e < 65536) (hello_extensions c)"

definition hello_body :: "client_hello \<Rightarrow> string" where
  "hello_body c =
     hello_version c @ hello_random c @
     char_of (length (hello_session c)) # hello_session c @
     enc16 (length (hello_ciphers c)) @ hello_ciphers c @
     char_of (length (hello_compression c)) # hello_compression c @
     enc16 (length (enc_extensions (hello_extensions c))) @ enc_extensions (hello_extensions c)"

definition enc_hello :: "client_hello \<Rightarrow> string" where
  "enc_hello c =
     (let body = hello_body c; msg = char_of (1 :: nat) # enc24 (length body) @ body
      in char_of (22 :: nat) # char_of (3 :: nat) # char_of (1 :: nat) # enc16 (length msg) @ msg)"

section \<open>Facts\<close>

declare add_2_eq_Suc [simp del] add_2_eq_Suc' [simp del] One_nat_def [simp del]

lemma of_char_less: "(of_char c :: nat) < 256"
  by (cases c) (simp add: of_char_def horner_sum_simps)

lemma push_or_plus:
  assumes "b < 256"
  shows "push_bit 8 a OR b = a * 256 + (b :: nat)"
proof -
  have "push_bit 8 a AND take_bit 8 b = 0"
    by (rule bit_eqI) (auto simp: bit_simps)
  moreover from assms have "take_bit 8 b = b" by (simp add: take_bit_nat_eq_self)
  ultimately show ?thesis
    using disjunctive_add_eq_or [of "push_bit 8 a" b] by (simp add: push_bit_eq_mult)
qed

lemma rd_in: "i < length data \<Longrightarrow> rd data i k = k (of_char (data ! i))"
  by (simp add: rd_def)

lemma rd16_in:
  "i + 1 < length data \<Longrightarrow> rd16 data i k = k (of_char (data ! i) * 256 + of_char (data ! (i + 1)))"
  by (simp add: rd16_def rd_in push_or_plus of_char_less)

lemma rd_at: "data = xs @ c # ys \<Longrightarrow> i = length xs \<Longrightarrow> rd data i k = k (of_char c)"
  by (simp add: rd_in)

lemma rd16_at:
  assumes "data = xs @ enc16 n @ ys" and "i = length xs" and "n < 65536"
  shows "rd16 data i k = k n"
proof -
  have "data ! i = char_of (n div 256)" "data ! (i + 1) = char_of (n mod 256)" "i + 1 < length data"
    using assms by (simp_all add: enc16_def nth_append)
  then have "rd16 data i k = k (n div 256 mod 256 * 256 + n mod 256)"
    by (simp add: rd16_in)
  also have "n div 256 mod 256 * 256 + n mod 256 = n"
    using assms(3) by simp
  finally show ?thesis .
qed

lemma rd_slice_at:
  "data = xs @ ys @ zs \<Longrightarrow> lo = length xs \<Longrightarrow> hi = lo + length ys \<Longrightarrow> rd_slice data lo hi = Inr ys"
  by (simp add: rd_slice_def)

lemma length_enc [simp]:
  "length (enc16 n) = 2" "length (enc24 n) = 4 - 1"
  "length (enc_extension e) = 4 + length (snd e)" "length (sni_body host) = length host + 5"
  by (simp_all add: enc16_def enc24_def enc_extension_def sni_body_def)

lemma enc_extensions_simps [simp]:
  "enc_extensions [] = []" "enc_extensions (e # es) = enc_extension e @ enc_extensions es"
  "enc_extensions (es @ fs) = enc_extensions es @ enc_extensions fs"
  by (simp_all add: enc_extensions_def)

section \<open>The loop over the extensions\<close>

lemma sni_extension_no_panic:
  "pos + extLen \<le> length data \<Longrightarrow> sni_extension data pos extLen \<noteq> Inl (ReadPanic e)"
  by (auto simp: sni_extension_def rd16_in rd_in rd_slice_def Let_def)

lemma ext_loop_no_panic: "ext_loop data stop pos \<noteq> Inl (ReadPanic e)"
proof (induction data stop pos rule: ext_loop.induct)
  case (1 data stop pos)
  note IH = 1
  show ?case
  proof (cases "pos < stop \<and> pos + 4 \<le> length data")
    case False
    then show ?thesis by (subst ext_loop.simps) auto
  next
    case True
    then have rd: "rd16 data pos k = k (of_char (data ! pos) * 256 + of_char (data ! (pos + 1)))"
      "rd16 data (pos + 2) k = k (of_char (data ! (pos + 2)) * 256 + of_char (data ! (pos + 2 + 1)))" for k :: "nat \<Rightarrow> sni_result"
      by (intro rd16_in; linarith)+
    show ?thesis
      using True IH sni_extension_no_panic [of "pos + 4" _ data e]
      by (subst ext_loop.simps) (auto simp: rd split: sum.split option.split)
  qed
qed

lemma ext_loop_skip:
  assumes "data = xs @ enc_extension (t, body) @ ys" and "t \<noteq> 0" "t < 65536" "length body < 65536"
    and "length xs < stop"
  shows "ext_loop data stop (length xs) = ext_loop data stop (length (xs @ enc_extension (t, body)))"
proof -
  have t: "rd16 data (length xs) k = k t" for k :: "nat \<Rightarrow> sni_result"
    using assms by (intro rd16_at [of _ xs _ "enc16 (length body) @ body @ ys"]) (simp_all add: enc_extension_def)
  have l: "rd16 data (length xs + 2) k = k (length body)" for k :: "nat \<Rightarrow> sni_result"
    using assms by (intro rd16_at [of _ "xs @ enc16 t" _ "body @ ys"]) (simp_all add: enc_extension_def)
  have "length data \<ge> length xs + 4 + length body" using assms(1) by simp
  with assms(2,5) show ?thesis
    by (subst ext_loop.simps) (simp add: t l add.assoc)
qed

lemma sni_extension_host:
  assumes "data = xs @ sni_body host @ ys" and "length host + 5 < 65536"
  shows "sni_extension data (length xs) (length host + 5) = Inr (Some host)"
proof -
  have l: "rd16 data (length xs) k = k (length host + 3)" for k :: "nat \<Rightarrow> sni_failure + string option"
    using assms by (intro rd16_at) (simp_all add: sni_body_def)
  have t: "rd data (length xs + 2) k = k 0" for k :: "nat \<Rightarrow> sni_failure + string option"
    using rd_at [of data "xs @ enc16 (length host + 3)" "char_of (0 :: nat)" "enc16 (length host) @ host @ ys"
        "length xs + 2" k] assms(1)
    by (simp add: sni_body_def)
  have n: "rd16 data (length xs + 3) k = k (length host)" for k :: "nat \<Rightarrow> sni_failure + string option"
    using assms by (intro rd16_at [of _ "xs @ enc16 (length host + 3) @ [char_of (0 :: nat)]" _ "host @ ys"])
      (simp_all add: sni_body_def)
  have h: "rd_slice data (length xs + 5) (length xs + 5 + length host) = Inr host"
    using assms by (intro rd_slice_at [of _ "xs @ enc16 (length host + 3) @ char_of (0 :: nat) # enc16 (length host)" _ ys])
      (simp_all add: sni_body_def)
  have "length data \<ge> length xs + 5 + length host" using assms(1) by simp
  then show ?thesis
    using l t n h by (simp add: sni_extension_def Let_def add.assoc)
qed

lemma ext_loop_host:
  assumes "data = xs @ enc_extension (0, sni_body host) @ ys" and "length host + 5 < 65536"
    and "length xs < stop"
  shows "ext_loop data stop (length xs) = Inr host"
proof -
  have t: "rd16 data (length xs) k = k 0" for k :: "nat \<Rightarrow> sni_result"
    using assms by (intro rd16_at [of _ xs _ "enc16 (length host + 5) @ sni_body host @ ys"]) (simp_all add: enc_extension_def)
  have l: "rd16 data (length xs + 2) k = k (length host + 5)" for k :: "nat \<Rightarrow> sni_result"
    using assms by (intro rd16_at [of _ "xs @ enc16 0" _ "sni_body host @ ys"]) (simp_all add: enc_extension_def)
  have "sni_extension data (length (xs @ enc16 0 @ enc16 (length host + 5))) (length host + 5) = Inr (Some host)"
    using assms by (intro sni_extension_host [of _ _ _ ys]) (simp_all add: enc_extension_def)
  moreover have "length data \<ge> length xs + 4 + (length host + 5)" using assms(1) by simp
  ultimately show ?thesis
    using assms(3) by (subst ext_loop.simps) (simp add: t l add.assoc)
qed

lemma ext_loop_before:
  assumes "data = xs @ enc_extensions es @ ys" and "stop \<ge> length xs + length (enc_extensions es)"
    and "\<forall>e \<in> set es. fst e \<noteq> 0 \<and> fst e < 65536" and "length (enc_extensions es) < 65536"
  shows "ext_loop data stop (length xs) = ext_loop data stop (length (xs @ enc_extensions es))"
  using assms
proof (induction es arbitrary: xs)
  case (Cons e es)
  obtain t body where e: "e = (t, body)" by (cases e)
  from Cons.prems have "ext_loop data stop (length xs) = ext_loop data stop (length (xs @ enc_extension e))"
    unfolding e by (intro ext_loop_skip [of _ _ _ _ "enc_extensions es @ ys"]) auto
  also have "\<dots> = ext_loop data stop (length ((xs @ enc_extension e) @ enc_extensions es))"
    using Cons.prems by (intro Cons.IH) auto
  finally show ?case by simp
qed simp

section \<open>The fixed part of the message\<close>

lemma ParseSNI_fixed:
  fixes r sid cs comp exts rest :: string
  defines "pre \<equiv> r @ char_of (length sid) # sid @ enc16 (length cs) @ cs @
      char_of (length comp) # comp @ enc16 (length exts)"
  assumes data: "data = pre @ exts @ rest"
    and r: "length r = 43" "r ! 0 = char_of (22 :: nat)" "r ! 5 = char_of (1 :: nat)"
    and len: "length sid < 256" "length cs < 65536" "length comp < 256" "length exts < 65536"
  shows "ParseSNI data = ext_loop data (length pre + length exts) (length pre)"
proof -
  let ?p1 = "44 + length sid" and ?p2 = "46 + length sid + length cs"
  let ?p3 = "47 + length sid + length cs + length comp"
  have pre: "length pre = ?p3 + 2" by (simp add: pre_def r)
  have all: "length data = ?p3 + 2 + length exts + length rest" by (simp add: data pre)
  have "data ! 0 = char_of (22 :: nat)" "data ! 5 = char_of (1 :: nat)"
    using r by (simp_all add: data pre_def nth_append)
  with all have k0: "rd data 0 k = k 22" and k5: "rd data 5 k = k 1" for k :: "nat \<Rightarrow> sni_result"
    by (simp_all add: rd_in)
  have ks: "rd data 43 k = k (length sid)" for k :: "nat \<Rightarrow> sni_result"
    using rd_at [of data r "char_of (length sid)" _ 43 k] r len by (simp add: data pre_def)
  have kc: "rd16 data ?p1 k = k (length cs)" for k :: "nat \<Rightarrow> sni_result"
    using r len by (intro rd16_at [of _ "r @ char_of (length sid) # sid"]) (simp_all add: data pre_def)
  have km: "rd data ?p2 k = k (length comp)" for k :: "nat \<Rightarrow> sni_result"
    using rd_at [of data "r @ char_of (length sid) # sid @ enc16 (length cs) @ cs"
        "char_of (length comp)" _ ?p2 k] r len
    by (simp add: data pre_def)
  have ke: "rd16 data ?p3 k = k (length exts)" for k :: "nat \<Rightarrow> sni_result"
    using r len by (intro rd16_at [of _ "r @ char_of (length sid) # sid @ enc16 (length cs) @ cs @
        char_of (length comp) # comp"]) (simp_all add: data pre_def)
  show ?thesis
    using all k0 k5 ks kc km ke by (simp add: ParseSNI_def Let_def pre add.assoc add.left_commute)
qed

lemma ParseSNI_enc_hello:
  assumes "hello_wf c"
  obtains pre where "enc_hello c @ rest = pre @ enc_extensions (hello_extensions c) @ rest"
    and "ParseSNI (enc_hello c @ rest) = ext_loop (enc_hello c @ rest)
      (length pre + length (enc_extensions (hello_extensions c))) (length pre)"
proof -
  let ?n = "length (char_of (1 :: nat) # enc24 (length (hello_body c)) @ hello_body c)"
  define r where "r = char_of (22 :: nat) # char_of (3 :: nat) # char_of (1 :: nat) # enc16 ?n @
      char_of (1 :: nat) # enc24 (length (hello_body c)) @ hello_version c @ hello_random c"
  define pre where "pre = r @ char_of (length (hello_session c)) # hello_session c @
      enc16 (length (hello_ciphers c)) @ hello_ciphers c @
      char_of (length (hello_compression c)) # hello_compression c @
      enc16 (length (enc_extensions (hello_extensions c)))"
  have eq: "enc_hello c @ rest = pre @ enc_extensions (hello_extensions c) @ rest"
    by (simp add: enc_hello_def hello_body_def pre_def r_def Let_def)
  have "length r = 43" "r ! 0 = char_of (22 :: nat)" "r ! 5 = char_of (1 :: nat)"
    using assms by (simp_all add: r_def hello_wf_def enc16_def nth_append)
  with assms show thesis
    by (intro that [OF eq] ParseSNI_fixed [OF eq [unfolded pre_def], folded pre_def])
      (simp_all add: hello_wf_def)
qed

section \<open>Results are parts of the input\<close>

lemma rd_InrE:
  assumes "rd data i k = Inr v"
  obtains n where "n < 256" "k n = Inr v"
  using assms that [OF of_char_less] by (auto simp: rd_def split: if_splits)

lemma rd16_InrE:
  assumes "rd16 data i k = Inr v"
  obtains n where "n < 65536" "k n = Inr v"
proof -
  from assms obtain a b where ab: "a < 256" "b < 256" "k (push_bit 8 a OR b) = Inr v"
    unfolding rd16_def by (elim rd_InrE)
  with that [of "a * 256 + b"] show thesis by (simp add: push_or_plus)
qed

definition part_of :: "string \<Rightarrow> string \<Rightarrow> bool" where
  "part_of data host \<longleftrightarrow> length host < 65536 \<and> (\<exists>xs ys. data = xs @ host @ ys)"

lemma rd_slice_part: "rd_slice data lo (lo + n) = Inr host \<Longrightarrow> n < 65536 \<Longrightarrow> part_of data host"
  by (auto simp: rd_slice_def part_of_def split: if_splits)
    (metis append_take_drop_id)

lemma map_sum_Some: "map_sum id Some r = Inr (Some v) \<longleftrightarrow> r = Inr v"
  by (cases r) auto

lemma sni_extension_part: "sni_extension data pos n = Inr (Some host) \<Longrightarrow> part_of data host"
  unfolding sni_extension_def Let_def
  by (auto elim!: rd16_InrE rd_InrE simp: map_sum_Some split: if_splits) (erule rd_slice_part)

lemma ext_loop_part: "ext_loop data stop pos = Inr host \<Longrightarrow> part_of data host"
proof (induction data stop pos rule: ext_loop.induct)
  case (1 data stop pos)
  let ?short = "\<lambda>n. length data \<ge> pos + 4 + n"
  let ?next = "\<lambda>(t :: nat) n. if t = 0 \<and> ?short n then
        (case sni_extension data (pos + 4) n of Inl e \<Rightarrow> Inl e | Inr (Some h) \<Rightarrow> Inr h
         | Inr None \<Rightarrow> ext_loop data stop (pos + 9 + n))
      else ext_loop data stop (pos + 4 + n)"
  from 1(3) [unfolded ext_loop.simps [of data stop pos]] have go: "pos < stop" "\<not> length data < pos + 4"
    and "rd16 data pos (\<lambda>t. rd16 data (pos + 2) (?next t)) = Inr host"
    by (simp_all split: if_splits)
  then obtain t n where r: "?next t n = Inr host" by (elim rd16_InrE) blast
  show ?case
  proof (cases "t = 0 \<and> ?short n")
    case True
    with r 1(1) [of t n] go sni_extension_part [of data "pos + 4" n] show ?thesis
      by (auto split: sum.splits option.splits)
  next
    case False
    with r 1(2) [of t n] go show ?thesis by auto
  qed
qed

lemma ParseSNI_part: "ParseSNI data = Inr host \<Longrightarrow> part_of data host"
  unfolding ParseSNI_def Let_def
  by (auto elim!: rd16_InrE rd_InrE split: if_splits) (erule ext_loop_part)

definition no_panic :: "sni_result \<Rightarrow> bool" where
  "no_panic r \<longleftrightarrow> (\<forall>e. r \<noteq> Inl (ReadPanic e))"

lemma no_panic_rd:
  "i < length data \<Longrightarrow> (\<And>n. no_panic (k n)) \<Longrightarrow> no_panic (rd data i k)"
  "i + 1 < length data \<Longrightarrow> (\<And>n. no_panic (k n)) \<Longrightarrow> no_panic (rd16 data i k)"
  by (simp_all add: rd_in rd16_in)

lemma no_panic_simps [simp]:
  "no_panic (Inl f) \<longleftrightarrow> (\<forall>e. f \<noteq> ReadPanic e)" "no_panic (ext_loop data stop pos)"
  by (simp_all add: no_panic_def ext_loop_no_panic)

lemma ParseSNI_no_panic: "no_panic (ParseSNI data)"
  by (auto simp: ParseSNI_def Let_def intro!: no_panic_rd)

lemma ParseSNI_host:
  assumes "hello_wf c" and e: "hello_extensions c = before @ (0, sni_body host) # after"
    "\<forall>e \<in> set before. fst e \<noteq> 0"
  shows "ParseSNI (enc_hello c @ rest) = Inr host"
proof -
  let ?d = "enc_hello c @ rest" and ?x = "enc_extensions (hello_extensions c)"
  obtain pre where d: "?d = pre @ ?x @ rest"
    and parse: "ParseSNI ?d = ext_loop ?d (length pre + length ?x) (length pre)"
    by (rule ParseSNI_enc_hello [OF assms(1)])
  from assms have wf: "length ?x < 65536" "\<forall>e \<in> set (hello_extensions c). fst e < 65536"
    by (auto simp: hello_wf_def list_all_iff)
  have "ParseSNI ?d = ext_loop ?d (length pre + length ?x) (length (pre @ enc_extensions before))"
    unfolding parse using d e wf
    by (intro ext_loop_before [of _ _ _ "enc_extension (0, sni_body host) @ enc_extensions after @ rest"]) auto
  also have "\<dots> = Inr host"
    using d e(1) wf(1) by (intro ext_loop_host [of _ _ _ "enc_extensions after @ rest"]) auto
  finally show ?thesis .
qed

lemma ParseSNI_no_name:
  assumes "hello_wf c" and "\<forall>e \<in> set (hello_extensions c). fst e \<noteq> 0"
  shows "ParseSNI (enc_hello c @ rest) = Inl SNINotFound"
proof -
  let ?d = "enc_hello c @ rest" and ?x = "enc_extensions (hello_extensions c)"
  obtain pre where d: "?d = pre @ ?x @ rest"
    and parse: "ParseSNI ?d = ext_loop ?d (length pre + length ?x) (length pre)"
    by (rule ParseSNI_enc_hello [OF assms(1)])
  from assms have "length ?x < 65536" "\<forall>e \<in> set (hello_extensions c). fst e < 65536"
    by (auto simp: hello_wf_def list_all_iff)
  then show ?thesis
    unfolding parse using d assms(2) ext_loop_before [of ?d pre "hello_extensions c" rest]
    by (simp add: ext_loop.simps [of _ "length pre + length ?x" "length pre + length ?x"])
qed

definition demo_hello :: client_hello where
  "demo_hello = \<lparr>hello_version = replicate 2 CHR 0x03, hello_random = replicate 32 CHR 0x41, hello_session = '''',
     hello_ciphers = replicate 2 CHR 0x13, hello_compression = [CHR 0x00],
     hello_extensions = [(10, ''ab''), (0, sni_body ''www.example.com'')]\<rparr>"

lemma demo_hello_wf: "hello_wf demo_hello"
  by (simp add: hello_wf_def demo_hello_def)

lemma demo_hello_extensions:
  "hello_extensions demo_hello = [(10, ''ab'')] @ (0, sni_body ''www.example.com'') # []"
  by (simp add: demo_hello_def)

section \<open>Properties\<close>

text \<open>
  C16: The parser never reads outside the buffer. On every sequence of bytes, however
  truncated or malformed, \<^verbatim>\<open>ParseSNI\<close> returns an error or a name; no index or slice expression
  is out of range. A name it returns is a contiguous part of the input, shorter than 64 KiB.
\<close>

theorem sni_parser_in_bounds:
  "(\<forall>e. ParseSNI data \<noteq> Inl (ReadPanic e)) \<and>
   (\<forall>host. ParseSNI data = Inr host \<longrightarrow>
      length host < 65536 \<and> (\<exists>xs ys. data = xs @ host @ ys))"
  using ParseSNI_no_panic [of data] ParseSNI_part [of data] by (auto simp: part_of_def no_panic_def)

text \<open>
  C6: The parser inverts the wire format. From every well-formed ClientHello that carries a
  server name, with any session, cipher and compression fields, any other extensions before
  and after it and any bytes behind the message, \<^verbatim>\<open>ParseSNI\<close> returns exactly that name; a
  ClientHello without the extension gives the not-found error.
\<close>

theorem sni_round_trip:
  assumes "hello_wf c"
  shows "(\<forall>before host after. hello_extensions c = before @ (0, sni_body host) # after \<and>
      (\<forall>e \<in> set before. fst e \<noteq> 0) \<longrightarrow> ParseSNI (enc_hello c @ rest) = Inr host) \<and>
    ((\<forall>e \<in> set (hello_extensions c). fst e \<noteq> 0) \<longrightarrow> ParseSNI (enc_hello c @ rest) = Inl SNINotFound)"
  using ParseSNI_host [OF assms] ParseSNI_no_name [OF assms] by blast

theorem sni_round_trip_witness:
  "hello_wf demo_hello \<and> ParseSNI (enc_hello demo_hello @ ''tail'') = Inr ''www.example.com''"
  using sni_round_trip [OF demo_hello_wf, of "''tail''"] demo_hello_extensions demo_hello_wf by fastforce

theorem sni_parser_in_bounds_witness:
  "ParseSNI (enc_hello demo_hello) = Inr ''www.example.com'' \<and>
   (\<exists>xs ys. enc_hello demo_hello = xs @ ''www.example.com'' @ ys)"
proof -
  have "ParseSNI (enc_hello demo_hello) = Inr ''www.example.com''"
    using ParseSNI_host [OF demo_hello_wf demo_hello_extensions, of "[]"] by simp
  with sni_parser_in_bounds [of "enc_hello demo_hello"] show ?thesis by simp
qed

end
