(* ===== verification/Tls.thy ===== *)
theory Tls
  imports Prelude
begin

text \<open>
  Package \<^verbatim>\<open>pkg/tls\<close>: the certificate manager (\<^verbatim>\<open>cert_manager.go\<close>), the SNI router and handler
  (\<^verbatim>\<open>sni.go\<close>), the TLS configuration (\<^verbatim>\<open>config.go\<close>) and the terminator (\<^verbatim>\<open>termination.go\<close>).
  Certificates are shared by pointer and never change, so a pointer is a reference into a
  fixed store. The X.509 and handshake libraries are arguments: what loading a key pair,
  accepting a connection or a handshake results in. Generating and saving certificates is
  cryptography and file output and is not modelled.
\<close>

section \<open>Certificates (cert\_manager.go)\<close>

type_synonym cref = nat

record x509_cert =
  x509_CommonName :: string
  x509_DNSNames :: "string list"
  x509_NotBefore :: time
  x509_NotAfter :: time

record certificate =
  ce_Cert :: "x509_cert option"
  ce_Domains :: "string list"
  ce_NotBefore :: time
  ce_NotAfter :: time

type_synonym cert_store = "cref \<Rightarrow> certificate"

datatype cert_error =
    CertLoadFailed
  | CertParseFailed
  | CertNil
  | X509Nil
  | NotYetValid
  | CertExpired
  | NoDefaultCertificate
  | NoCertificateFor string
  | NoCertificateManager

record cert_manager =
  cm_certificates :: "(string, cref) gomap"
  cm_defaultCert :: "cref option"

definition NewCertificateManager :: cert_manager where
  "NewCertificateManager = \<lparr>cm_certificates = [], cm_defaultCert = None\<rparr>"

text \<open>
  \<open>loadPair\<close> is \<^verbatim>\<open>tls.LoadX509KeyPair\<close>, giving the leaf of the chain, and \<open>parse\<close> is
  \<^verbatim>\<open>x509.ParseCertificate\<close>.
\<close>

definition LoadCertificate ::
    "(string \<Rightarrow> string \<Rightarrow> 'der option) \<Rightarrow> ('der \<Rightarrow> x509_cert option) \<Rightarrow> string \<Rightarrow> string
      \<Rightarrow> cert_error + certificate" where
  "LoadCertificate loadPair parse certFile keyFile =
     (case loadPair certFile keyFile of
        None \<Rightarrow> Inl CertLoadFailed
      | Some der \<Rightarrow>
          (case parse der of
             None \<Rightarrow> Inl CertParseFailed
           | Some cert \<Rightarrow>
               Inr \<lparr>ce_Cert = Some cert,
                    ce_Domains = (if x509_CommonName cert \<noteq> '''' then [x509_CommonName cert] else []) @
                      x509_DNSNames cert,
                    ce_NotBefore = x509_NotBefore cert, ce_NotAfter = x509_NotAfter cert\<rparr>))"

definition validateCertificate :: "time \<Rightarrow> cert_store \<Rightarrow> cref option \<Rightarrow> cert_error option" where
  "validateCertificate now cs cert =
     (case cert of
        None \<Rightarrow> Some CertNil
      | Some c \<Rightarrow>
          if ce_Cert (cs c) = None then Some X509Nil
          else if now < ce_NotBefore (cs c) then Some NotYetValid
          else if now > ce_NotAfter (cs c) then Some CertExpired
          else None)"

definition AddCertificate ::
    "time \<Rightarrow> cert_store \<Rightarrow> cref option \<Rightarrow> cert_manager \<Rightarrow> cert_error option \<times> cert_manager" where
  "AddCertificate now cs cert cm =
     (case validateCertificate now cs cert of
        Some e \<Rightarrow> (Some e, cm)
      | None \<Rightarrow>
          let c = the cert;
              cm = cm\<lparr>cm_certificates := fold (\<lambda>domain. gm_set domain c) (ce_Domains (cs c)) (cm_certificates cm)\<rparr>
          in (None, if cm_defaultCert cm = None then cm\<lparr>cm_defaultCert := Some c\<rparr> else cm))"

definition SetDefaultCertificate ::
    "time \<Rightarrow> cert_store \<Rightarrow> cref option \<Rightarrow> cert_manager \<Rightarrow> cert_error option \<times> cert_manager" where
  "SetDefaultCertificate now cs cert cm =
     (case validateCertificate now cs cert of
        Some e \<Rightarrow> (Some e, cm)
      | None \<Rightarrow> (None, cm\<lparr>cm_defaultCert := cert\<rparr>))"

definition wildcard_covers :: "string \<Rightarrow> string \<Rightarrow> bool" where
  "wildcard_covers serverName domain \<longleftrightarrow>
     length domain > 2 \<and> domain ! 0 = CHR ''*'' \<and> domain ! 1 = CHR ''.'' \<and>
     (let suffix = drop 1 domain
      in length serverName > length suffix \<and>
         drop (length serverName - length suffix) serverName = suffix \<and>
         (let remaining = take (length serverName - length suffix) serverName
          in remaining ! (length remaining - 1) = CHR ''.''))"

definition findWildcardCertificate :: "cert_manager \<Rightarrow> string \<Rightarrow> cref option" where
  "findWildcardCertificate cm serverName =
     map_option snd (find (\<lambda>(domain, cert). wildcard_covers serverName domain) (cm_certificates cm))"

definition GetCertificate :: "cert_manager \<Rightarrow> string \<Rightarrow> cert_error + cref" where
  "GetCertificate cm serverName =
     (if serverName = '''' then
        (case cm_defaultCert cm of Some c \<Rightarrow> Inr c | None \<Rightarrow> Inl NoDefaultCertificate)
      else case gm_get (cm_certificates cm) serverName of
        Some cert \<Rightarrow> Inr cert
      | None \<Rightarrow>
          (case findWildcardCertificate cm serverName of
             Some cert \<Rightarrow> Inr cert
           | None \<Rightarrow>
               (case cm_defaultCert cm of
                  Some c \<Rightarrow> Inr c
                | None \<Rightarrow> Inl (NoCertificateFor serverName))))"

definition RemoveCertificate :: "string \<Rightarrow> cert_manager \<Rightarrow> cert_manager" where
  "RemoveCertificate domain cm = cm\<lparr>cm_certificates := gm_del domain (cm_certificates cm)\<rparr>"

text \<open>The loop of \<^verbatim>\<open>ListCertificates\<close> and \<^verbatim>\<open>CheckExpiry\<close>, with the certificates already seen.\<close>

fun collect_certs :: "(cref \<Rightarrow> bool) \<Rightarrow> cref list \<Rightarrow> cref list \<Rightarrow> cref list" where
  "collect_certs P seen [] = []"
| "collect_certs P seen (c # rest) =
     (if c \<notin> set seen \<and> P c then c # collect_certs P (c # seen) rest else collect_certs P seen rest)"

definition ListCertificates :: "cert_manager \<Rightarrow> cref list" where
  "ListCertificates cm = collect_certs (\<lambda>_. True) [] (map snd (cm_certificates cm))"

definition CheckExpiry :: "time \<Rightarrow> cert_store \<Rightarrow> duration \<Rightarrow> cert_manager \<Rightarrow> cref list" where
  "CheckExpiry now cs period cm =
     collect_certs (\<lambda>c. ce_NotAfter (cs c) < now + period) [] (map snd (cm_certificates cm))"

section \<open>SNI routing (sni.go)\<close>

record sni_router =
  sr_routes :: "(string, string list) gomap"
  sr_defaultBackends :: "string list"
  sr_totalRequests :: int
  sr_routedByHost :: "(string, int) gomap"

datatype sni_route_error = EmptyHostname | NoRouteBackends

definition NewSNIRouter :: sni_router where
  "NewSNIRouter = \<lparr>sr_routes = [], sr_defaultBackends = [], sr_totalRequests = 0, sr_routedByHost = []\<rparr>"

definition AddRoute :: "string \<Rightarrow> string list \<Rightarrow> sni_router \<Rightarrow> sni_route_error option \<times> sni_router" where
  "AddRoute hostname backends r =
     (if hostname = '''' then (Some EmptyHostname, r)
      else if length backends = 0 then (Some NoRouteBackends, r)
      else (None, r\<lparr>sr_routes := gm_set hostname backends (sr_routes r),
        sr_routedByHost := (case gm_get (sr_routedByHost r) hostname of
            None \<Rightarrow> gm_set hostname 0 (sr_routedByHost r) | Some _ \<Rightarrow> sr_routedByHost r)\<rparr>))"

definition RemoveRoute :: "string \<Rightarrow> sni_router \<Rightarrow> sni_router" where
  "RemoveRoute hostname r = r\<lparr>sr_routes := gm_del hostname (sr_routes r)\<rparr>"

definition SetDefaultBackends :: "string list \<Rightarrow> sni_router \<Rightarrow> sni_router" where
  "SetDefaultBackends backends r = r\<lparr>sr_defaultBackends := backends\<rparr>"

definition matchWildcardPattern :: "string \<Rightarrow> string \<Rightarrow> bool" where
  "matchWildcardPattern pattern hostname =
     (if \<not> HasPrefix pattern ''*.'' then False else HasSuffix hostname (drop 1 pattern))"

definition matchWildcard :: "sni_router \<Rightarrow> string \<Rightarrow> string list option" where
  "matchWildcard r hostname =
     map_option snd (find (\<lambda>(pattern, backends). matchWildcardPattern pattern hostname) (sr_routes r))"

definition incrementHostStats :: "string \<Rightarrow> sni_router \<Rightarrow> sni_router" where
  "incrementHostStats hostname r =
     (case gm_get (sr_routedByHost r) hostname of
        Some n \<Rightarrow> r\<lparr>sr_routedByHost := gm_set hostname (n + 1) (sr_routedByHost r)\<rparr>
      | None \<Rightarrow> r)"

definition Route :: "string \<Rightarrow> sni_router \<Rightarrow> string list \<times> sni_router" where
  "Route hostname r0 =
     (let r = r0\<lparr>sr_totalRequests := sr_totalRequests r0 + 1\<rparr>
      in case gm_get (sr_routes r) hostname of
           Some backends \<Rightarrow> (backends, incrementHostStats hostname r)
         | None \<Rightarrow>
             (case matchWildcard r hostname of
                Some backends \<Rightarrow> (backends, incrementHostStats hostname r)
              | None \<Rightarrow> (sr_defaultBackends r, r)))"

definition GetCertificateForSNI :: "cert_manager option \<Rightarrow> string \<Rightarrow> cert_error + cref" where
  "GetCertificateForSNI certManager serverName =
     (case certManager of None \<Rightarrow> Inl NoCertificateManager | Some cm \<Rightarrow> GetCertificate cm serverName)"

definition SNIHandler_GetCertificate ::
    "cert_manager \<Rightarrow> string \<Rightarrow> sni_router option \<Rightarrow> (cert_error + cref) \<times> sni_router option" where
  "SNIHandler_GetCertificate cm serverName router =
     (case GetCertificate cm serverName of
        Inl e \<Rightarrow> (Inl e, router)
      | Inr cert \<Rightarrow> (Inr cert, map_option (\<lambda>r. snd (Route serverName r)) router))"

section \<open>TLS configuration (config.go)\<close>

type_synonym tls_version = "16 word"

definition VersionTLS10 :: tls_version where "VersionTLS10 = 0x0301"
definition VersionTLS11 :: tls_version where "VersionTLS11 = 0x0302"
definition VersionTLS12 :: tls_version where "VersionTLS12 = 0x0303"
definition VersionTLS13 :: tls_version where "VersionTLS13 = 0x0304"

lemmas version_defs = VersionTLS10_def VersionTLS11_def VersionTLS12_def VersionTLS13_def

text \<open>A nil slice is \<open>None\<close>; the client-authentication and renegotiation policies are numbers.\<close>

record tls_settings =
  ts_MinVersion :: tls_version
  ts_MaxVersion :: tls_version
  ts_CipherSuites :: "16 word list option"
  ts_PreferServerCipherSuites :: bool
  ts_SessionTicketsDisabled :: bool
  ts_SessionTicketKey :: string
  ts_ClientAuth :: int
  ts_NextProtos :: "string list option"
  ts_InsecureSkipVerify :: bool
  ts_Renegotiation :: int

definition SecureCipherSuites :: "16 word list" where
  "SecureCipherSuites = [0xc02f, 0xc030, 0xc02b, 0xc02c, 0xcca8, 0xcca9]"

definition zero_key :: string where
  "zero_key = replicate 32 CHR 0x00"

definition DefaultTLSConfig :: tls_settings where
  "DefaultTLSConfig =
     \<lparr>ts_MinVersion = VersionTLS12, ts_MaxVersion = VersionTLS13,
      ts_CipherSuites = Some SecureCipherSuites, ts_PreferServerCipherSuites = True,
      ts_SessionTicketsDisabled = False, ts_SessionTicketKey = zero_key, ts_ClientAuth = 0,
      ts_NextProtos = Some [''h2'', ''http/1.1''], ts_InsecureSkipVerify = False,
      ts_Renegotiation = 0\<rparr>"

definition ParseTLSVersion :: "string \<Rightarrow> tls_version option" where
  "ParseTLSVersion version =
     (if version = ''1.0'' then Some VersionTLS10
      else if version = ''1.1'' then Some VersionTLS11
      else if version = ''1.2'' then Some VersionTLS12
      else if version = ''1.3'' then Some VersionTLS13
      else None)"

definition tlsVersionString :: "tls_version \<Rightarrow> string" where
  "tlsVersionString version =
     (if version = VersionTLS10 then ''TLS 1.0''
      else if version = VersionTLS11 then ''TLS 1.1''
      else if version = VersionTLS12 then ''TLS 1.2''
      else if version = VersionTLS13 then ''TLS 1.3''
      else ''Unknown ('' @ show_nat (unat version) @ '')'')"

datatype tls_config_error = InvalidMinimum | InvalidMaximum | MinimumAboveMaximum

definition TLSConfig_Validate :: "tls_settings \<Rightarrow> tls_config_error option" where
  "TLSConfig_Validate c =
     (if ts_MinVersion c < VersionTLS10 \<or> ts_MinVersion c > VersionTLS13 then Some InvalidMinimum
      else if ts_MaxVersion c \<noteq> 0 \<and> (ts_MaxVersion c < VersionTLS10 \<or> ts_MaxVersion c > VersionTLS13)
      then Some InvalidMaximum
      else if ts_MaxVersion c \<noteq> 0 \<and> ts_MinVersion c > ts_MaxVersion c then Some MinimumAboveMaximum
      else None)"

definition TLSConfig_Clone :: "tls_settings \<Rightarrow> tls_settings" where
  "TLSConfig_Clone c =
     \<lparr>ts_MinVersion = ts_MinVersion c, ts_MaxVersion = ts_MaxVersion c,
      ts_CipherSuites = (case ts_CipherSuites c of None \<Rightarrow> None | Some s \<Rightarrow> Some (take (length s) s)),
      ts_PreferServerCipherSuites = ts_PreferServerCipherSuites c,
      ts_SessionTicketsDisabled = ts_SessionTicketsDisabled c,
      ts_SessionTicketKey = ts_SessionTicketKey c, ts_ClientAuth = ts_ClientAuth c,
      ts_NextProtos = (case ts_NextProtos c of None \<Rightarrow> None | Some s \<Rightarrow> Some (take (length s) s)),
      ts_InsecureSkipVerify = ts_InsecureSkipVerify c, ts_Renegotiation = ts_Renegotiation c\<rparr>"

text \<open>The fields of \<^verbatim>\<open>crypto/tls.Config\<close> the code sets; the ticket keys are those set explicitly.\<close>

record std_config =
  std_MinVersion :: tls_version
  std_MaxVersion :: tls_version
  std_CipherSuites :: "16 word list option"
  std_PreferServerCipherSuites :: bool
  std_SessionTicketsDisabled :: bool
  std_ClientAuth :: int
  std_NextProtos :: "string list option"
  std_InsecureSkipVerify :: bool
  std_Renegotiation :: int
  std_TicketKeys :: "string list"

definition ToStdConfig :: "tls_settings \<Rightarrow> std_config" where
  "ToStdConfig c =
     \<lparr>std_MinVersion = ts_MinVersion c, std_MaxVersion = ts_MaxVersion c,
      std_CipherSuites = ts_CipherSuites c,
      std_PreferServerCipherSuites = ts_PreferServerCipherSuites c,
      std_SessionTicketsDisabled = ts_SessionTicketsDisabled c, std_ClientAuth = ts_ClientAuth c,
      std_NextProtos = ts_NextProtos c, std_InsecureSkipVerify = ts_InsecureSkipVerify c,
      std_Renegotiation = ts_Renegotiation c, std_TicketKeys = []\<rparr>"

section \<open>The terminator (termination.go)\<close>

text \<open>
  \<open>te_listener\<close> is the configuration the listener was created with: \<^verbatim>\<open>tls.NewListener\<close> keeps the
  pointer it is given.
\<close>

record terminator =
  te_config :: tls_settings
  te_certMgr :: cert_manager
  te_tlsConfig :: std_config
  te_listener :: "std_config option"
  te_totalConnections :: int
  te_activeConnections :: int
  te_totalHandshakes :: int
  te_failedHandshakes :: int
  te_resumedSessions :: int
  te_handshakeDuration :: int

datatype terminator_error =
    InvalidTLSConfig tls_config_error
  | CertManagerRequired
  | ListenFailed
  | ListenerNotInitialized
  | AcceptFailed
  | NotATLSConnection
  | HandshakeFailed

definition buildTLSConfig :: "tls_settings \<Rightarrow> std_config" where
  "buildTLSConfig config =
     (let cfg = ToStdConfig config
      in if \<not> ts_SessionTicketsDisabled config then
           let cfg = cfg\<lparr>std_SessionTicketsDisabled := False\<rparr>
           in if ts_SessionTicketKey config \<noteq> zero_key
              then cfg\<lparr>std_TicketKeys := [ts_SessionTicketKey config]\<rparr> else cfg
         else cfg)"

definition NewTerminator :: "tls_settings option \<Rightarrow> cert_manager option \<Rightarrow> terminator_error + terminator" where
  "NewTerminator config0 certMgr =
     (let config = (case config0 of None \<Rightarrow> DefaultTLSConfig | Some c \<Rightarrow> c)
      in case TLSConfig_Validate config of
           Some e \<Rightarrow> Inl (InvalidTLSConfig e)
         | None \<Rightarrow>
             (case certMgr of
                None \<Rightarrow> Inl CertManagerRequired
              | Some cm \<Rightarrow>
                  Inr \<lparr>te_config = config, te_certMgr = cm, te_tlsConfig = buildTLSConfig config,
                       te_listener = None, te_totalConnections = 0, te_activeConnections = 0,
                       te_totalHandshakes = 0, te_failedHandshakes = 0, te_resumedSessions = 0,
                       te_handshakeDuration = 0\<rparr>))"

definition Terminator_Listen :: "bool \<Rightarrow> terminator \<Rightarrow> terminator_error option \<times> terminator" where
  "Terminator_Listen bound t =
     (if \<not> bound then (Some ListenFailed, t) else (None, t\<lparr>te_listener := Some (te_tlsConfig t)\<rparr>))"

text \<open>The dynamic types a \<^verbatim>\<open>net.Conn\<close> has here; a tracked connection carries its closed flag.\<close>

datatype net_conn = PlainConn | TLSConn | TrackedConn bool

definition Terminator_Accept :: "bool \<Rightarrow> terminator \<Rightarrow> (terminator_error + net_conn) \<times> terminator" where
  "Terminator_Accept accepted t =
     (if te_listener t = None then (Inl ListenerNotInitialized, t)
      else if \<not> accepted then (Inl AcceptFailed, t)
      else (Inr (TrackedConn False),
        t\<lparr>te_totalConnections := te_totalConnections t + 1,
          te_activeConnections := te_activeConnections t + 1\<rparr>))"

text \<open>
  \<^verbatim>\<open>AcceptWithContext\<close> leaves the call of \<^verbatim>\<open>Accept\<close> to a goroutine. \<open>ctxDone\<close> is the choice of its
  \<^verbatim>\<open>select\<close>: if the context ends first the caller gets \<open>None\<close>, its error, and the goroutine goes
  on waiting in \<^verbatim>\<open>Accept\<close>.
\<close>

definition AcceptWithContext ::
    "bool \<Rightarrow> bool \<Rightarrow> terminator \<Rightarrow> (terminator_error + net_conn) option \<times> terminator" where
  "AcceptWithContext ctxDone accepted t =
     (if ctxDone then (None, t)
      else let (r, t') = Terminator_Accept accepted t in (Some r, t'))"

definition trackedConn_Close :: "bool \<Rightarrow> terminator \<Rightarrow> bool \<times> terminator" where
  "trackedConn_Close isClosed t =
     (if \<not> isClosed then (True, t\<lparr>te_activeConnections := te_activeConnections t - 1\<rparr>) else (isClosed, t))"

text \<open>\<open>handshake\<close> is the result of the TLS library: whether the session was resumed, or a failure.\<close>

definition PerformHandshake ::
    "bool option \<Rightarrow> duration \<Rightarrow> net_conn \<Rightarrow> terminator \<Rightarrow> terminator_error option \<times> terminator" where
  "PerformHandshake handshake elapsed conn t0 =
     (if conn \<noteq> TLSConn then (Some NotATLSConnection, t0)
      else
        let t = t0\<lparr>te_totalHandshakes := te_totalHandshakes t0 + 1\<rparr>
        in case handshake of
             None \<Rightarrow> (Some HandshakeFailed, t\<lparr>te_failedHandshakes := te_failedHandshakes t + 1\<rparr>)
           | Some resumed \<Rightarrow>
               let t = t\<lparr>te_handshakeDuration := te_handshakeDuration t + go_quot elapsed 1000\<rparr>
               in (None, if resumed then t\<lparr>te_resumedSessions := te_resumedSessions t + 1\<rparr> else t))"

definition avgHandshakeDuration :: "terminator \<Rightarrow> int" where
  "avgHandshakeDuration t =
     (if te_totalHandshakes t > 0 then go_quot (te_handshakeDuration t) (te_totalHandshakes t) else 0)"

definition Terminator_UpdateConfig :: "tls_settings \<Rightarrow> terminator \<Rightarrow> terminator_error option \<times> terminator" where
  "Terminator_UpdateConfig config t =
     (case TLSConfig_Validate config of
        Some e \<Rightarrow> (Some (InvalidTLSConfig e), t)
      | None \<Rightarrow> (None, t\<lparr>te_config := config, te_tlsConfig := buildTLSConfig config\<rparr>))"

section \<open>Facts\<close>

lemma Contains_append: "Contains (xs @ sep @ ys) sep"
proof (cases "Index (xs @ sep @ ys) sep")
  case None
  from Index_None [OF this, of "length xs"] show ?thesis by simp
qed (simp add: Contains_def)

lemma wildcard_covers_dots:
  assumes "wildcard_covers serverName domain"
  shows "Contains serverName ''..''"
proof -
  obtain d where domain: "domain = CHR ''*'' # CHR ''.'' # d"
    using assms by (cases domain; cases "tl domain") (auto simp: wildcard_covers_def)
  define n where "n = length serverName - length (CHR ''.'' # d)"
  have n: "0 < n" "drop n serverName = CHR ''.'' # d" "take n serverName ! (length (take n serverName) - 1) = CHR ''.''"
    using assms by (auto simp: wildcard_covers_def domain n_def Let_def)
  then have "take n serverName \<noteq> []" using assms by (auto simp: wildcard_covers_def domain n_def)
  with n(3) have "take n serverName = butlast (take n serverName) @ ''.''"
    by (metis append_butlast_last_id last_conv_nth)
  then have "serverName = butlast (take n serverName) @ ''..'' @ d"
    using n(2) by (metis append.assoc append_Cons append_Nil append_take_drop_id)
  then show ?thesis by (metis Contains_append)
qed

lemma findWildcard_none:
  "\<not> Contains serverName ''..'' \<Longrightarrow> findWildcardCertificate cm serverName = None"
  by (auto simp: findWildcardCertificate_def find_None_iff dest: wildcard_covers_dots)

lemma matchWildcardPattern_iff:
  "matchWildcardPattern pattern hostname \<longleftrightarrow>
     (\<exists>domain label. pattern = ''*.'' @ domain \<and> hostname = label @ ''.'' @ domain)"
  by (auto simp: matchWildcardPattern_def HasPrefix_iff HasSuffix_iff)

lemma gm_get_fold_set:
  "gm_get (fold (\<lambda>k. gm_set k v) ks m) k' = (if k' \<in> set ks then Some v else gm_get m k')"
  by (induction ks arbitrary: m) auto

lemma find_SomeE:
  assumes "find P xs = Some x"
  shows "x \<in> set xs \<and> P x"
  using assms by (auto simp: find_Some_iff)

lemma set_collect_certs: "set (collect_certs P seen cs) = {c \<in> set cs. P c} - set seen"
  by (induction cs arbitrary: seen) auto

lemma distinct_collect_certs: "distinct (collect_certs P seen cs)"
  by (induction cs arbitrary: seen) (auto simp: set_collect_certs)

lemma TLSConfig_Clone_same: "TLSConfig_Clone c = c"
  by (cases c) (simp add: TLSConfig_Clone_def split: option.split)

lemma version_shown: "ParseTLSVersion v = Some x \<Longrightarrow> tlsVersionString x = ''TLS '' @ v"
  by (auto simp: ParseTLSVersion_def tlsVersionString_def version_defs split: if_splits)

lemma parsed_version_valid:
  assumes "ParseTLSVersion lo = Some x" and "ParseTLSVersion hi = Some y" and "x \<le> y"
  shows "TLSConfig_Validate (c\<lparr>ts_MinVersion := x, ts_MaxVersion := y\<rparr>) = None"
  using assms by (auto simp: ParseTLSVersion_def TLSConfig_Validate_def version_defs split: if_splits)

lemma incrementHostStats_keeps:
  "sr_routes (incrementHostStats hostname r) = sr_routes r"
  "sr_totalRequests (incrementHostStats hostname r) = sr_totalRequests r"
  by (simp_all add: incrementHostStats_def split: option.split)

definition demo_cert :: "string \<Rightarrow> certificate" where
  "demo_cert domain = \<lparr>ce_Cert = Some \<lparr>x509_CommonName = domain, x509_DNSNames = [], x509_NotBefore = 0, x509_NotAfter = 100\<rparr>,
     ce_Domains = [domain], ce_NotBefore = 0, ce_NotAfter = 100\<rparr>"

definition demo_certs :: cert_store where
  "demo_certs = (\<lambda>c. demo_cert (if c = 0 then ''other.org'' else ''*.example.com''))"

definition demo_manager :: cert_manager where
  "demo_manager = snd (AddCertificate 5 demo_certs (Some 1)
     (snd (AddCertificate 5 demo_certs (Some 0) NewCertificateManager)))"

lemma demo_manager_eq: "demo_manager = \<lparr>cm_certificates = [(''other.org'', 0), (''*.example.com'', 1)], cm_defaultCert = Some 0\<rparr>"
  by (simp add: demo_manager_def AddCertificate_def validateCertificate_def demo_certs_def demo_cert_def
      NewCertificateManager_def gm_set_def Let_def)

section \<open>Properties\<close>

text \<open>
  Wildcard certificates are never selected. For every server name without an empty label,
  the lookup gives the certificate registered under exactly that name, and otherwise the
  default certificate or an error: the test that the remaining label ends in a dot rejects
  every proper subdomain, whatever wildcard certificates are registered.
\<close>

theorem wildcard_certificate_never_used:
  assumes "serverName \<noteq> ''''" and "\<not> Contains serverName ''..''"
  shows "GetCertificate cm serverName =
    (case gm_get (cm_certificates cm) serverName of
       Some cert \<Rightarrow> Inr cert
     | None \<Rightarrow> (case cm_defaultCert cm of Some cert \<Rightarrow> Inr cert | None \<Rightarrow> Inl (NoCertificateFor serverName)))"
  using assms by (simp add: GetCertificate_def findWildcard_none split: option.split)

theorem wildcard_certificate_never_used_witness:
  "gm_get (cm_certificates demo_manager) ''*.example.com'' = Some 1 \<and>
   GetCertificate demo_manager ''www.example.com'' = Inr 0"
  using wildcard_certificate_never_used [of "''www.example.com''" demo_manager]
  by (simp add: demo_manager_eq gm_get_def Contains_def Index_unfold HasPrefix_def)

text \<open>
  A certificate that is added serves its names. Adding succeeds exactly for a certificate
  that is present and within its validity period; then each of its non-empty names resolves to
  it, every other name keeps its entry, and it becomes the default only if there was none. A
  rejected certificate changes nothing.
\<close>

theorem added_certificate_serves:
  "let (err, cm') = AddCertificate now cs cert cm in
   (err = None \<longleftrightarrow> (\<exists>c. cert = Some c \<and> ce_Cert (cs c) \<noteq> None \<and> ce_NotBefore (cs c) \<le> now \<and> now \<le> ce_NotAfter (cs c))) \<and>
   (err \<noteq> None \<longrightarrow> cm' = cm) \<and>
   (\<forall>c. err = None \<and> cert = Some c \<longrightarrow>
      (\<forall>d \<in> set (ce_Domains (cs c)). d \<noteq> '''' \<longrightarrow> GetCertificate cm' d = Inr c) \<and>
      (\<forall>d. d \<notin> set (ce_Domains (cs c)) \<longrightarrow> gm_get (cm_certificates cm') d = gm_get (cm_certificates cm) d) \<and>
      cm_defaultCert cm' = (case cm_defaultCert cm of None \<Rightarrow> Some c | Some d \<Rightarrow> Some d))"
proof (cases cert)
  case None
  then show ?thesis by (simp add: AddCertificate_def validateCertificate_def)
next
  case (Some c)
  then show ?thesis
    by (cases "validateCertificate now cs cert")
      (auto simp: AddCertificate_def validateCertificate_def GetCertificate_def gm_get_fold_set Let_def
        split: option.splits if_splits)
qed

theorem added_certificate_serves_witness:
  "GetCertificate (snd (AddCertificate 5 demo_certs (Some 0) NewCertificateManager)) ''other.org'' = Inr 0"
proof -
  have "\<exists>c. Some (0 :: cref) = Some c \<and> ce_Cert (demo_certs c) \<noteq> None \<and>
      ce_NotBefore (demo_certs c) \<le> 5 \<and> 5 \<le> ce_NotAfter (demo_certs c)"
    by (simp add: demo_certs_def demo_cert_def)
  with added_certificate_serves [of 5 demo_certs "Some 0" NewCertificateManager] show ?thesis
    by (auto simp: case_prod_beta Let_def demo_certs_def demo_cert_def)
qed

text \<open>
  SNI routing prefers the exact route, then a wildcard route, then the default. A wildcard
  route \<open>*.domain\<close> applies exactly to the names that end in a dot followed by the domain; when
  several apply, one of them is used. Routing counts the request and leaves the routes alone.
\<close>

theorem sni_route_contract:
  "let (backends, r') = Route hostname r in
   sr_routes r' = sr_routes r \<and> sr_totalRequests r' = sr_totalRequests r + 1 \<and>
   (case gm_get (sr_routes r) hostname of
      Some bs \<Rightarrow> backends = bs
    | None \<Rightarrow>
        (let matching = {bs. \<exists>domain label. (''*.'' @ domain, bs) \<in> set (sr_routes r) \<and>
             hostname = label @ ''.'' @ domain}
         in if matching = {} then backends = sr_defaultBackends r else backends \<in> matching))"
proof -
  let ?P = "\<lambda>(pattern, backends). matchWildcardPattern pattern hostname"
  show ?thesis
  proof (cases "find ?P (sr_routes r)")
    case None
    then have "\<forall>(p, bs) \<in> set (sr_routes r). \<not> matchWildcardPattern p hostname"
      by (auto simp: find_None_iff)
    then have "{bs. \<exists>domain label. (''*.'' @ domain, bs) \<in> set (sr_routes r) \<and> hostname = label @ ''.'' @ domain} = {}"
      by (fastforce simp: matchWildcardPattern_iff)
    with None show ?thesis
      by (simp add: Route_def matchWildcard_def incrementHostStats_keeps Let_def split: option.split)
  next
    case (Some e)
    with find_SomeE [OF Some] obtain domain label bs where
      "e = (''*.'' @ domain, bs)" "e \<in> set (sr_routes r)" "hostname = label @ ''.'' @ domain"
      by (auto simp: matchWildcardPattern_iff)
    with Some show ?thesis
      by (auto simp: Route_def matchWildcard_def incrementHostStats_keeps Let_def split: option.split)
  qed
qed

text \<open>
  What the terminator accepts cannot be handshaken, and a reload does not reach the
  listener. Every connection \<^verbatim>\<open>Accept\<close> returns is rejected by \<^verbatim>\<open>PerformHandshake\<close> as not being a
  TLS connection, without even being counted; and after a successful \<^verbatim>\<open>UpdateConfig\<close> the listener
  still has the configuration it was started with.
\<close>

theorem terminator_accept_and_reload:
  assumes "Terminator_Accept accepted t = (Inr conn, t')"
  shows "PerformHandshake handshake elapsed conn u = (Some NotATLSConnection, u) \<and>
    te_listener (snd (Terminator_UpdateConfig config t')) = te_listener t"
  using assms
  by (auto simp: Terminator_Accept_def PerformHandshake_def Terminator_UpdateConfig_def
      split: if_splits option.split)

theorem terminator_accept_and_reload_witness:
  "\<exists>t conn t'. Terminator_Accept True t = (Inr conn, t') \<and>
     PerformHandshake (Some False) 7 conn t' = (Some NotATLSConnection, t')"
proof -
  obtain t0 where "NewTerminator None (Some demo_manager) = Inr t0"
    by (simp add: NewTerminator_def TLSConfig_Validate_def DefaultTLSConfig_def version_defs Let_def)
  let ?t = "snd (Terminator_Listen True t0)"
  have "Terminator_Accept True ?t = (Inr (TrackedConn False), snd (Terminator_Accept True ?t))"
    by (simp add: Terminator_Accept_def Terminator_Listen_def)
  from this terminator_accept_and_reload [OF this] show ?thesis by blast
qed

section \<open>Accepting with a context\<close>

text \<open>
  The states of a terminator whose connections are all accepted by \<^verbatim>\<open>AcceptWithContext\<close>, with the
  number of connections its callers hold, of goroutines left waiting by a context that
  ended, and of connections those goroutines have accepted, which nobody receives.
\<close>

inductive term_reach :: "terminator \<Rightarrow> nat \<Rightarrow> nat \<Rightarrow> nat \<Rightarrow> terminator \<Rightarrow> bool" for t0 where
  term_init: "term_reach t0 0 0 0 t0"
| term_accepted: "\<lbrakk>term_reach t0 held waiting lost t; AcceptWithContext False a t = (Some (Inr conn), t')\<rbrakk>
    \<Longrightarrow> term_reach t0 (held + 1) waiting lost t'"
| term_refused: "\<lbrakk>term_reach t0 held waiting lost t; AcceptWithContext False a t = (Some (Inl e), t')\<rbrakk>
    \<Longrightarrow> term_reach t0 held waiting lost t'"
| term_abandoned: "\<lbrakk>term_reach t0 held waiting lost t; AcceptWithContext True a t = (None, t')\<rbrakk>
    \<Longrightarrow> term_reach t0 held (waiting + 1) lost t'"
| term_late: "\<lbrakk>term_reach t0 held (Suc waiting) lost t; Terminator_Accept a t = (Inr conn, t')\<rbrakk>
    \<Longrightarrow> term_reach t0 held waiting (lost + 1) t'"
| term_late_error: "\<lbrakk>term_reach t0 held (Suc waiting) lost t; Terminator_Accept a t = (Inl e, t')\<rbrakk>
    \<Longrightarrow> term_reach t0 held waiting lost t'"
| term_closed: "\<lbrakk>term_reach t0 (Suc held) waiting lost t; trackedConn_Close False t = (c, t')\<rbrakk>
    \<Longrightarrow> term_reach t0 held waiting lost t'"

lemma term_reach_active:
  "term_reach t0 held waiting lost t \<Longrightarrow>
     te_activeConnections t = te_activeConnections t0 + int held + int lost"
  by (induction rule: term_reach.induct)
    (auto simp: AcceptWithContext_def Terminator_Accept_def trackedConn_Close_def split: if_splits)

text \<open>
  A connection accepted after its context has ended is lost. Under every interleaving the
  terminator's count of active connections is the number its callers hold plus the number
  accepted for callers that had given up; nobody can close the latter, so once every caller
  has closed its connections the count is still the number of lost ones.
\<close>

theorem abandoned_accepts_stay_active:
  assumes "term_reach t0 held waiting lost t" and "te_activeConnections t0 = 0"
  shows "te_activeConnections t = int held + int lost \<and>
    (te_activeConnections t = 0 \<longleftrightarrow> held = 0 \<and> lost = 0)"
  using term_reach_active [OF assms(1)] assms(2) by auto

theorem abandoned_accepts_stay_active_witness:
  "\<exists>t0 t. te_activeConnections t0 = 0 \<and> term_reach t0 0 0 1 t \<and> te_activeConnections t = 1"
proof -
  obtain t0 where "NewTerminator None (Some demo_manager) = Inr t0" and z: "te_activeConnections t0 = 0"
    by (simp add: NewTerminator_def TLSConfig_Validate_def DefaultTLSConfig_def version_defs Let_def)
  let ?t = "snd (Terminator_Listen True t0)"
  have "AcceptWithContext True True ?t = (None, ?t)" by (simp add: AcceptWithContext_def)
  from term_abandoned [OF term_init this] have 1: "term_reach ?t 0 (Suc 0) 0 ?t" by simp
  have "Terminator_Accept True ?t = (Inr (TrackedConn False), snd (Terminator_Accept True ?t))"
    by (simp add: Terminator_Accept_def Terminator_Listen_def)
  from term_late [OF 1 this] have 2: "term_reach ?t 0 0 1 (snd (Terminator_Accept True ?t))" by simp
  have "te_activeConnections ?t = 0" using z by (simp add: Terminator_Listen_def)
  with 2 abandoned_accepts_stay_active [OF 2] show ?thesis by auto
qed

end
