(* ===== verification/BufferPool.thy ===== *)
theory BufferPool
  imports Prelude
begin

text \<open>
  Package \<^verbatim>\<open>pkg/pool\<close>, file \<^verbatim>\<open>buffer.go\<close>: pools of byte slices. A slice is its backing memory, as long
  as its capacity, and its length. A \<^verbatim>\<open>sync.Pool\<close> is the list of the slices put into it; \<open>pick\<close> says
  which of them a \<^verbatim>\<open>Get\<close> happens to return, an index outside the list meaning that the pool
  allocates a new one, which it may do at any time. Sizes that are rounded keep their 64 bits.
\<close>

unbundle bit_operations_syntax

section \<open>Slices\<close>

record slice =
  sl_mem :: string
  sl_len :: nat

definition sl_cap :: "slice \<Rightarrow> nat" where
  "sl_cap b = length (sl_mem b)"

text \<open>\<^verbatim>\<open>make([]byte, n)\<close> and \<^verbatim>\<open>b[:n]\<close>.\<close>

definition make_slice :: "nat \<Rightarrow> slice" where
  "make_slice n = \<lparr>sl_mem = replicate n CHR 0x00, sl_len = n\<rparr>"

definition reslice :: "slice \<Rightarrow> int \<Rightarrow> go_panic + slice" where
  "reslice b n = (if 0 \<le> n \<and> nat n \<le> sl_cap b then Inr (b\<lparr>sl_len := nat n\<rparr>) else Inl SliceOutOfRange)"

definition pool_take :: "nat \<Rightarrow> slice \<Rightarrow> slice list \<Rightarrow> slice \<times> slice list" where
  "pool_take pick fresh items =
     (if pick < length items then (items ! pick, take pick items @ drop (Suc pick) items)
      else (fresh, items))"

section \<open>Fixed-size pools\<close>

record buffer_pool =
  bp_size :: nat
  bp_pool :: "slice list"

definition NewBufferPool :: "nat \<Rightarrow> buffer_pool" where
  "NewBufferPool n = \<lparr>bp_size = n, bp_pool = []\<rparr>"

definition BufferPool_Get :: "nat \<Rightarrow> buffer_pool \<Rightarrow> (go_panic + slice) \<times> buffer_pool" where
  "BufferPool_Get pick bp =
     (let (buf, items) = pool_take pick (make_slice (bp_size bp)) (bp_pool bp)
      in (reslice buf (int (bp_size bp)), bp\<lparr>bp_pool := items\<rparr>))"

definition zero_prefix :: "string \<Rightarrow> string" where
  "zero_prefix mem = replicate (min 1024 (length mem)) CHR 0x00 @ drop 1024 mem"

definition BufferPool_Put :: "slice \<Rightarrow> buffer_pool \<Rightarrow> buffer_pool" where
  "BufferPool_Put buf bp =
     (if sl_cap buf < bp_size bp then bp
      else bp\<lparr>bp_pool := bp_pool bp @ [\<lparr>sl_mem = zero_prefix (sl_mem buf), sl_len = sl_cap buf\<rparr>]\<rparr>)"

text \<open>The four global pools, by the field that the selection reads and updates.\<close>

record global_pools =
  SmallBufferPool :: buffer_pool
  MediumBufferPool :: buffer_pool
  LargeBufferPool :: buffer_pool
  HugeBufferPool :: buffer_pool

definition initial_pools :: global_pools where
  "initial_pools = \<lparr>SmallBufferPool = NewBufferPool (4 * 1024), MediumBufferPool = NewBufferPool (32 * 1024),
     LargeBufferPool = NewBufferPool (64 * 1024), HugeBufferPool = NewBufferPool (1024 * 1024)\<rparr>"

definition GetOptimalBuffer :: "nat \<Rightarrow> int \<Rightarrow> global_pools \<Rightarrow> (go_panic + slice) \<times> global_pools" where
  "GetOptimalBuffer pick sizeNeeded g =
     (if sizeNeeded \<le> int (bp_size (SmallBufferPool g)) then
        let (r, bp) = BufferPool_Get pick (SmallBufferPool g) in (r, g\<lparr>SmallBufferPool := bp\<rparr>)
      else if sizeNeeded \<le> int (bp_size (MediumBufferPool g)) then
        let (r, bp) = BufferPool_Get pick (MediumBufferPool g) in (r, g\<lparr>MediumBufferPool := bp\<rparr>)
      else if sizeNeeded \<le> int (bp_size (LargeBufferPool g)) then
        let (r, bp) = BufferPool_Get pick (LargeBufferPool g) in (r, g\<lparr>LargeBufferPool := bp\<rparr>)
      else
        let (r, bp) = BufferPool_Get pick (HugeBufferPool g) in (r, g\<lparr>HugeBufferPool := bp\<rparr>))"

section \<open>The variable-size pool\<close>

text \<open>The shifts are arithmetic in Go; the numbers shifted here are not negative.\<close>

definition roundUpPowerOf2 :: "64 word \<Rightarrow> 64 word" where
  "roundUpPowerOf2 n0 =
     (if sint n0 \<le> 0 then 1
      else if n0 AND (n0 - 1) = 0 then n0
      else
        let n = n0 - 1;
            n = n OR drop_bit 1 n;
            n = n OR drop_bit 2 n;
            n = n OR drop_bit 4 n;
            n = n OR drop_bit 8 n;
            n = n OR drop_bit 16 n
        in n + 1)"

record byte_slice_pool =
  bsp_pools :: "(64 word, slice list) gomap"

definition NewByteSlicePool :: byte_slice_pool where
  "NewByteSlicePool = \<lparr>bsp_pools = []\<rparr>"

definition ByteSlicePool_Get :: "nat \<Rightarrow> 64 word \<Rightarrow> byte_slice_pool \<Rightarrow> (go_panic + slice) \<times> byte_slice_pool" where
  "ByteSlicePool_Get pick n bsp =
     (let poolSize = roundUpPowerOf2 n;
          items = (case gm_get (bsp_pools bsp) poolSize of Some items \<Rightarrow> items | None \<Rightarrow> []);
          (buf, items') = pool_take pick (make_slice (unat poolSize)) items
      in (reslice buf (sint n), bsp\<lparr>bsp_pools := gm_set poolSize items' (bsp_pools bsp)\<rparr>))"

definition ByteSlicePool_Put :: "slice \<Rightarrow> byte_slice_pool \<Rightarrow> byte_slice_pool" where
  "ByteSlicePool_Put buf bsp =
     (if sl_len buf = 0 then bsp
      else
        let poolSize = roundUpPowerOf2 (of_nat (sl_cap buf))
        in case gm_get (bsp_pools bsp) poolSize of
             Some items \<Rightarrow>
               bsp\<lparr>bsp_pools := gm_set poolSize (items @ [buf\<lparr>sl_len := sl_cap buf\<rparr>]) (bsp_pools bsp)\<rparr>
           | None \<Rightarrow> bsp)"

section \<open>Rounding up: facts\<close>

text \<open>One smearing step doubles the reach of every set bit.\<close>

lemma smear_step:
  fixes x m :: "64 word"
  assumes "\<And>i. bit x i \<longleftrightarrow> (\<exists>j < s. bit m (i + j))"
  shows "bit (x OR drop_bit s x) i \<longleftrightarrow> (\<exists>j < 2 * s. bit m (i + j))"
proof -
  have "(\<exists>j < s. bit m (s + i + j)) \<longleftrightarrow> (\<exists>j. s \<le> j \<and> j < 2 * s \<and> bit m (i + j))"
  proof
    assume "\<exists>j < s. bit m (s + i + j)"
    then obtain j where "j < s" "bit m (i + (s + j))" by (auto simp: ac_simps)
    then show "\<exists>j. s \<le> j \<and> j < 2 * s \<and> bit m (i + j)" by (intro exI [of _ "s + j"]) auto
  next
    assume "\<exists>j. s \<le> j \<and> j < 2 * s \<and> bit m (i + j)"
    then obtain j where "s \<le> j" "j < 2 * s" "bit m (i + j)" by blast
    then show "\<exists>j < s. bit m (s + i + j)" by (intro exI [of _ "j - s"]) auto
  qed
  moreover have "(\<exists>j < 2 * s. bit m (i + j)) \<longleftrightarrow>
      (\<exists>j < s. bit m (i + j)) \<or> (\<exists>j. s \<le> j \<and> j < 2 * s \<and> bit m (i + j))"
    by (metis le_add2 less_le_trans mult_2 not_le)
  ultimately show ?thesis
    by (simp add: bit_or_iff bit_drop_bit_eq assms)
qed

definition smear :: "64 word \<Rightarrow> 64 word" where
  "smear n =
     (let n = n OR drop_bit 1 n; n = n OR drop_bit 2 n; n = n OR drop_bit 4 n; n = n OR drop_bit 8 n
      in n OR drop_bit 16 n)"

lemma bit_smear: "bit (smear m) i \<longleftrightarrow> (\<exists>j < 32. bit m (i + j))"
proof -
  have 1: "bit m i \<longleftrightarrow> (\<exists>j < 1. bit m (i + j))" for i by simp
  note 2 = smear_step [OF 1, simplified]
  note 4 = smear_step [OF 2, simplified]
  note 8 = smear_step [OF 4, simplified]
  note 16 = smear_step [OF 8, simplified]
  note 32 = smear_step [OF 16, simplified]
  show ?thesis unfolding smear_def Let_def using 32 [of i] by simp
qed

lemma top_bit:
  fixes w :: "64 word"
  assumes "w \<noteq> 0"
  obtains k where "2 ^ k \<le> unat w" "unat w < 2 ^ (k + 1)" "bit w k" "\<And>i. k < i \<Longrightarrow> \<not> bit w i"
proof -
  from assms have "1 \<le> unat w" by (simp add: unat_gt_0 Suc_le_eq)
  with ex_power_ivl1 [of 2 "unat w"] obtain k where k: "2 ^ k \<le> unat w" "unat w < 2 ^ (k + 1)"
    by auto
  have bit: "bit w i \<longleftrightarrow> odd (unat w div 2 ^ i)" for i
    using bit_iff_odd [of "unat w" i] by (simp add: bit_unsigned_iff)
  have "unat w div 2 ^ k = 1"
    using k by (intro div_nat_eqI) simp_all
  moreover have "unat w div 2 ^ i = 0" if "k < i" for i
  proof -
    have "(2 :: nat) ^ (k + 1) \<le> 2 ^ i" using that by (intro power_increasing) auto
    with k(2) show ?thesis by simp
  qed
  ultimately show thesis using k by (intro that [of k]) (auto simp: bit)
qed

lemma roundUp_not_power:
  "0 < sint n \<Longrightarrow> n AND (n - 1) \<noteq> 0 \<Longrightarrow> roundUpPowerOf2 n = smear (n - 1) + 1"
  by (simp add: roundUpPowerOf2_def smear_def Let_def)

lemma smear_top:
  assumes "m \<noteq> 0" and "unat m < 2 ^ 32"
  obtains k where "smear m + 1 = 2 ^ (k + 1)" "2 ^ k \<le> unat m" "unat m < 2 ^ (k + 1)" "k < 32"
proof -
  obtain k where k: "2 ^ k \<le> unat m" "unat m < 2 ^ (k + 1)" "bit m k" "\<And>i. k < i \<Longrightarrow> \<not> bit m i"
    using top_bit [OF assms(1)] by blast
  have "(2 :: nat) ^ k < 2 ^ 32" using k(1) assms(2) by linarith
  then have less: "k < 32" by (rule power_less_imp_less_exp [rotated]) simp
  have "bit (smear m) i \<longleftrightarrow> i \<le> k" for i
  proof
    assume "bit (smear m) i"
    then obtain j where "bit m (i + j)" unfolding bit_smear by blast
    with k(4) [of "i + j"] show "i \<le> k" by (cases "k < i + j") auto
  next
    assume "i \<le> k"
    with k(3) less show "bit (smear m) i"
      unfolding bit_smear by (intro exI [of _ "k - i"]) simp
  qed
  then have "smear m = mask (k + 1)"
    by (intro bit_word_eqI) (simp add: bit_mask_iff less_Suc_eq_le)
  then have "smear m + 1 = 2 ^ (k + 1)" by (simp add: mask_eq_exp_minus_1)
  with k less show thesis by (intro that)
qed

lemma power_of_2_test:
  fixes n :: "64 word"
  assumes "n \<noteq> 0" and "n AND (n - 1) = 0"
  obtains k where "unat n = 2 ^ k"
proof -
  obtain k where k: "2 ^ k \<le> unat n" "unat n < 2 ^ (k + 1)" "bit n k"
    using top_bit [OF assms(1)] by blast
  have pred: "unat (n - 1) = unat n - 1" using assms(1) by (simp add: unat_minus_one)
  have "\<not> 2 ^ k < unat n"
  proof
    assume "2 ^ k < unat n"
    with pred k have "2 ^ k \<le> unat (n - 1)" "unat (n - 1) < 2 ^ (k + 1)" by auto
    then have "unat (n - 1) div 2 ^ k = 1" by (intro div_nat_eqI) simp_all
    then have "bit (unat (n - 1)) k" by (simp add: bit_iff_odd)
    then have "bit (n - 1) k" by (simp add: bit_unsigned_iff)
    with k(3) have "bit (n AND (n - 1)) k" by (simp add: bit_and_iff)
    with assms(2) show False by simp
  qed
  with k show thesis by (intro that [of k]) simp
qed

lemma sint_small:
  fixes n :: "64 word"
  assumes "unat n \<le> 2 ^ 32"
  shows "sint n = int (unat n)"
proof -
  from assms have "int (unat n) \<le> int (2 ^ 32)" by (simp only: of_nat_le_iff)
  then have "uint n \<le> 2 ^ 32" by (simp only: uint_nat [symmetric] of_nat_power of_nat_numeral)
  then have "uint n < 2 ^ 63" by simp
  then have "signed_take_bit 63 (uint n) = uint n"
    using uint_ge_0 [of n] by (intro signed_take_bit_int_eq_self) linarith+
  then show ?thesis by (simp add: sint_uint)
qed

lemma unat_of_nat_small: "c \<le> 2 ^ 32 \<Longrightarrow> unat (of_nat c :: 64 word) = c"
  by (simp add: unat_of_nat)

lemma unat_exp:
  assumes "k \<le> 32"
  shows "unat (2 ^ k :: 64 word) = 2 ^ k"
proof -
  have "(2 :: nat) ^ k \<le> 2 ^ 32" using assms by (intro power_increasing) auto
  then have "unat (of_nat (2 ^ k) :: 64 word) = 2 ^ k" by (rule unat_of_nat_small)
  then show ?thesis by simp
qed

lemma roundUp_least:
  assumes "n \<noteq> 0" and "unat n \<le> 2 ^ 32"
  obtains k where "unat (roundUpPowerOf2 n) = 2 ^ k" "unat n \<le> 2 ^ k" "2 ^ k < 2 * unat n" "k \<le> 32"
proof -
  from assms(1) have "0 < unat n" by (simp add: unat_gt_0)
  with sint_small [OF assms(2)] have pos: "0 < sint n" by (metis of_nat_0_less_iff)
  show thesis
  proof (cases "n AND (n - 1) = 0")
    case True
    with assms(1) obtain k where k: "unat n = 2 ^ k" using power_of_2_test by blast
    moreover have "k \<le> 32" by (rule power_le_imp_le_exp [of "2 :: nat"]) (use k assms(2) in simp_all)
    moreover from True pos have "roundUpPowerOf2 n = n" by (simp add: roundUpPowerOf2_def)
    ultimately show ?thesis by (intro that [of k]) simp_all
  next
    case False
    then have m0: "n - 1 \<noteq> 0" by (metis and_zero_eq)
    have m1: "unat (n - 1) = unat n - 1" using assms(1) by (simp add: unat_minus_one)
    then have "unat (n - 1) < 2 ^ 32" using assms(2) \<open>0 < unat n\<close> by linarith
    from smear_top [OF m0 this] obtain k where k: "smear (n - 1) + 1 = 2 ^ (k + 1)"
      "2 ^ k \<le> unat (n - 1)" "unat (n - 1) < 2 ^ (k + 1)" "k < 32" by blast
    have "unat (2 ^ (k + 1) :: 64 word) = 2 ^ (k + 1)" using k(4) by (intro unat_exp) simp
    with roundUp_not_power [OF pos False] k(1) have "unat (roundUpPowerOf2 n) = 2 ^ (k + 1)" by metis
    moreover have "unat n \<le> 2 ^ (k + 1)" "2 ^ (k + 1) < 2 * unat n"
      using k(2,3) m1 \<open>0 < unat n\<close> by simp_all
    ultimately show ?thesis using k(4) by (intro that [of "k + 1"]) simp_all
  qed
qed


lemma roundUp_of_power:
  assumes "unat n = 2 ^ k" and "k \<le> 32"
  shows "roundUpPowerOf2 n = n"
proof -
  have n: "n \<noteq> 0" using assms(1) by (metis power_not_zero unat_0 zero_neq_numeral)
  have "unat n \<le> 2 ^ 32" using assms by (metis one_le_numeral power_increasing)
  then obtain j where j: "unat (roundUpPowerOf2 n) = 2 ^ j" "2 ^ k \<le> (2 :: nat) ^ j" "(2 :: nat) ^ j < 2 * 2 ^ k"
    using roundUp_least [OF n] assms(1) by metis
  from j(2) have "k \<le> j" by (rule power_le_imp_le_exp [rotated]) simp
  moreover from j(3) have "(2 :: nat) ^ j < 2 ^ (k + 1)" by simp
  then have "j < k + 1" by (rule power_less_imp_less_exp [rotated]) simp
  ultimately have "unat (roundUpPowerOf2 n) = unat n" using j(1) assms(1) by simp
  then show ?thesis by (simp only: word_unat_eq_iff)
qed


section \<open>Pools: invariants\<close>

text \<open>Every slice in a pool has at least the capacity the pool promises.\<close>

definition bp_ok :: "buffer_pool \<Rightarrow> bool" where
  "bp_ok bp \<longleftrightarrow> (\<forall>b \<in> set (bp_pool bp). bp_size bp \<le> sl_cap b)"

definition bsp_ok :: "byte_slice_pool \<Rightarrow> bool" where
  "bsp_ok bsp \<longleftrightarrow> (\<forall>k items. gm_get (bsp_pools bsp) k = Some items \<longrightarrow>
     (\<forall>b \<in> set items. unat k \<le> sl_cap b))"

lemma sl_cap_make [simp]: "sl_cap (make_slice n) = n"
  by (simp add: sl_cap_def make_slice_def)

lemma pool_take_sets:
  assumes "pool_take pick fresh items = (b, items')"
  shows "b \<in> insert fresh (set items)" and "set items' \<subseteq> set items"
  using assms by (auto simp: pool_take_def split: if_splits dest: in_set_takeD in_set_dropD)

lemma reslice_ok: "n \<le> sl_cap b \<Longrightarrow> reslice b (int n) = Inr (b\<lparr>sl_len := n\<rparr>)"
  by (simp add: reslice_def)

lemma BufferPool_Get_ok:
  assumes "bp_ok bp" and "BufferPool_Get pick bp = (r, bp')"
  shows "\<exists>b. r = Inr b \<and> sl_len b = bp_size bp \<and> sl_len b \<le> sl_cap b" "bp_ok bp'" "bp_size bp' = bp_size bp"
proof -
  obtain b items where t: "pool_take pick (make_slice (bp_size bp)) (bp_pool bp) = (b, items)"
    by (cases "pool_take pick (make_slice (bp_size bp)) (bp_pool bp)")
  from pool_take_sets [OF t] assms(1) have b: "bp_size bp \<le> sl_cap b" "\<forall>b \<in> set items. bp_size bp \<le> sl_cap b"
    by (auto simp: bp_ok_def)
  with assms(2) t show "\<exists>b. r = Inr b \<and> sl_len b = bp_size bp \<and> sl_len b \<le> sl_cap b" "bp_ok bp'" "bp_size bp' = bp_size bp"
    by (auto simp: BufferPool_Get_def reslice_ok bp_ok_def sl_cap_def)
qed

lemma BufferPool_Put_ok: "bp_ok bp \<Longrightarrow> bp_ok (BufferPool_Put b bp)" "bp_size (BufferPool_Put b bp) = bp_size bp"
  by (auto simp: BufferPool_Put_def bp_ok_def sl_cap_def zero_prefix_def)

lemma roundUp_ge:
  assumes "unat n \<le> 2 ^ 32"
  shows "unat n \<le> unat (roundUpPowerOf2 n)"
proof (cases "n = 0")
  case False
  then show ?thesis by (metis roundUp_least assms)
qed simp

lemma ByteSlicePool_Get_ok:
  assumes "bsp_ok bsp" and "unat n \<le> 2 ^ 32" and "ByteSlicePool_Get pick n bsp = (r, bsp')"
  shows "\<exists>b. r = Inr b \<and> sl_len b = unat n \<and> sl_len b \<le> sl_cap b" "bsp_ok bsp'"
proof -
  define items where "items = (case gm_get (bsp_pools bsp) (roundUpPowerOf2 n) of Some items \<Rightarrow> items | None \<Rightarrow> [])"
  let ?p = "unat (roundUpPowerOf2 n)"
  obtain b items' where t: "pool_take pick (make_slice ?p) items = (b, items')"
    by (cases "pool_take pick (make_slice ?p) items")
  from assms(1) have "\<forall>b \<in> set items. ?p \<le> sl_cap b"
    by (cases "gm_get (bsp_pools bsp) (roundUpPowerOf2 n)") (auto simp: items_def bsp_ok_def)
  with pool_take_sets [OF t] have b: "?p \<le> sl_cap b" "\<forall>b \<in> set items'. ?p \<le> sl_cap b" by auto
  with roundUp_ge [OF assms(2)] have "unat n \<le> sl_cap b" by linarith
  then have res: "reslice b (sint n) = Inr (b\<lparr>sl_len := unat n\<rparr>)"
    unfolding sint_small [OF assms(2)] by (rule reslice_ok)
  from assms(3) t have "r = reslice b (sint n)"
    by (auto simp: ByteSlicePool_Get_def Let_def items_def [symmetric])
  with res \<open>unat n \<le> sl_cap b\<close> show "\<exists>b. r = Inr b \<and> sl_len b = unat n \<and> sl_len b \<le> sl_cap b"
    by (simp add: sl_cap_def)
  from assms(3) t have "bsp' = bsp\<lparr>bsp_pools := gm_set (roundUpPowerOf2 n) items' (bsp_pools bsp)\<rparr>"
    by (auto simp: ByteSlicePool_Get_def Let_def items_def [symmetric])
  with assms(1) b(2) show "bsp_ok bsp'" by (auto simp: bsp_ok_def)
qed

lemma ByteSlicePool_Put_ok:
  assumes "bsp_ok bsp" and "unat (roundUpPowerOf2 (of_nat (sl_cap b))) \<le> sl_cap b"
  shows "bsp_ok (ByteSlicePool_Put b bsp)"
  using assms by (auto simp: ByteSlicePool_Put_def bsp_ok_def Let_def sl_cap_def split: option.split)

lemma foreign_slice_panics:
  assumes "0 < sl_len b" "0 < sl_cap b" "sl_cap b \<le> 2 ^ 32" "\<nexists>k. sl_cap b = 2 ^ k"
    and "gm_get (bsp_pools bsp) (roundUpPowerOf2 (of_nat (sl_cap b))) = Some items"
  shows "fst (ByteSlicePool_Get (length items) (roundUpPowerOf2 (of_nat (sl_cap b))) (ByteSlicePool_Put b bsp)) =
    Inl SliceOutOfRange"
proof -
  let ?n = "of_nat (sl_cap b) :: 64 word" and ?b = "b\<lparr>sl_len := sl_cap b\<rparr>"
  define p where "p = roundUpPowerOf2 ?n"
  have n: "unat ?n = sl_cap b" by (rule unat_of_nat_small [OF assms(3)])
  with assms(2) have "?n \<noteq> 0" by (metis less_irrefl unat_0)
  then obtain k where k: "unat p = 2 ^ k" "sl_cap b \<le> 2 ^ k" "k \<le> 32"
    using roundUp_least [of ?n] assms(3) n unfolding p_def by metis
  with assms(4) have less: "sl_cap b < unat p" by (metis le_neq_implies_less)
  have p: "roundUpPowerOf2 p = p" by (rule roundUp_of_power [OF k(1,3)])
  have "unat p \<le> 2 ^ 32" using k by (metis one_le_numeral power_increasing)
  from sint_small [OF this] less have "\<not> nat (sint p) \<le> sl_cap ?b" by (simp add: sl_cap_def)
  moreover have "gm_get (bsp_pools (ByteSlicePool_Put b bsp)) p = Some (items @ [?b])"
    using assms(1,5) by (simp add: ByteSlicePool_Put_def Let_def p_def)
  ultimately show ?thesis
    unfolding p_def [symmetric] by (simp add: ByteSlicePool_Get_def p Let_def pool_take_def reslice_def)
qed

section \<open>Properties\<close>

text \<open>
  C31: Rounding gives the next power of two, up to four gibibytes. For every positive size up to
  \<open>2\<^sup>3\<^sup>2\<close> the result is a power of two that is at least the size and less than twice the size, which
  leaves only one choice. The smearing stops at a shift by sixteen, so for larger sizes the
  result need not be a power of two: \<open>2\<^sup>3\<^sup>3 + 1\<close> is rounded to \<open>2\<^sup>3\<^sup>4 - 3\<close>.
\<close>

theorem round_up_power_of_two:
  "(\<forall>n. n \<noteq> 0 \<and> unat n \<le> 2 ^ 32 \<longrightarrow>
      (\<exists>k. unat (roundUpPowerOf2 n) = 2 ^ k \<and> unat n \<le> 2 ^ k \<and> 2 ^ k < 2 * unat n)) \<and>
   roundUpPowerOf2 (2 ^ 33 + 1) = 2 ^ 34 - 3"
proof -
  have "roundUpPowerOf2 (2 ^ 33 + 1) = 2 ^ 34 - 3" by code_simp
  moreover have "\<exists>k. unat (roundUpPowerOf2 n) = 2 ^ k \<and> unat n \<le> 2 ^ k \<and> 2 ^ k < 2 * unat n"
    if "n \<noteq> 0" "unat n \<le> 2 ^ 32" for n
    using roundUp_least [OF that] by blast
  ultimately show ?thesis by blast
qed

theorem round_up_power_of_two_witness: "\<exists>k. unat (roundUpPowerOf2 5) = 2 ^ k \<and> 5 \<le> (2 :: nat) ^ k \<and> (2 :: nat) ^ k < 10"
proof -
  have "(5 :: 64 word) \<noteq> 0 \<and> unat (5 :: 64 word) \<le> 2 ^ 32" by simp
  with round_up_power_of_two obtain k where "unat (roundUpPowerOf2 5) = 2 ^ k \<and>
      unat (5 :: 64 word) \<le> 2 ^ k \<and> 2 ^ k < 2 * unat (5 :: 64 word)" by blast
  then show ?thesis by auto
qed



text \<open>
  The slice pool is safe for its own slices and not for others. While every pooled slice is
  at least as large as its pool promises, \<^verbatim>\<open>Get\<close> returns a slice of exactly the requested length
  whatever slice the pool picks, and keeps that invariant; putting back a slice whose capacity
  is a power of two keeps it too. A slice of any other capacity is filed under the next power
  of two, and the \<^verbatim>\<open>Get\<close> that picks it up at that size panics.
\<close>

theorem byte_slice_pool_safety:
  assumes "bsp_ok bsp"
  shows "(\<forall>pick n. unat n \<le> 2 ^ 32 \<longrightarrow>
      (\<exists>b bsp'. ByteSlicePool_Get pick n bsp = (Inr b, bsp') \<and> sl_len b = unat n \<and> bsp_ok bsp')) \<and>
    (\<forall>b k. sl_cap b = 2 ^ k \<and> k \<le> 32 \<longrightarrow> bsp_ok (ByteSlicePool_Put b bsp)) \<and>
    (\<forall>b items. let p = roundUpPowerOf2 (of_nat (sl_cap b)) in
      0 < sl_len b \<and> 0 < sl_cap b \<and> sl_cap b \<le> 2 ^ 32 \<and> (\<nexists>k. sl_cap b = 2 ^ k) \<and>
      gm_get (bsp_pools bsp) p = Some items \<longrightarrow>
      fst (ByteSlicePool_Get (length items) p (ByteSlicePool_Put b bsp)) = Inl SliceOutOfRange)"
proof (intro conjI allI impI)
  fix pick and n :: "64 word" assume n: "unat n \<le> 2 ^ 32"
  obtain r bsp' where g: "ByteSlicePool_Get pick n bsp = (r, bsp')" by (cases "ByteSlicePool_Get pick n bsp")
  with ByteSlicePool_Get_ok [OF assms n g]
  show "\<exists>b bsp'. ByteSlicePool_Get pick n bsp = (Inr b, bsp') \<and> sl_len b = unat n \<and> bsp_ok bsp'" by auto
next
  fix b k assume b: "sl_cap b = 2 ^ k \<and> k \<le> 32"
  then have "(of_nat (sl_cap b) :: 64 word) = 2 ^ k" by simp
  with b unat_exp [of k] roundUp_of_power [of "2 ^ k" k] show "bsp_ok (ByteSlicePool_Put b bsp)"
    by (intro ByteSlicePool_Put_ok [OF assms]) simp
next
  fix b items
  show "let p = roundUpPowerOf2 (of_nat (sl_cap b)) in
      0 < sl_len b \<and> 0 < sl_cap b \<and> sl_cap b \<le> 2 ^ 32 \<and> (\<nexists>k. sl_cap b = 2 ^ k) \<and>
      gm_get (bsp_pools bsp) p = Some items \<longrightarrow>
      fst (ByteSlicePool_Get (length items) p (ByteSlicePool_Put b bsp)) = Inl SliceOutOfRange"
    unfolding Let_def by (intro impI foreign_slice_panics) auto
qed

definition demo_slice :: slice where
  "demo_slice = \<lparr>sl_mem = ''abc'', sl_len = 3\<rparr>"

theorem byte_slice_pool_safety_witness:
  "fst (ByteSlicePool_Get 0 4 (ByteSlicePool_Put demo_slice \<lparr>bsp_pools = [(4, [])]\<rparr>)) = Inl SliceOutOfRange"
proof -
  have ok: "bsp_ok \<lparr>bsp_pools = [(4, [])]\<rparr>" by (auto simp: bsp_ok_def gm_get_def split: if_splits)
  have three: "\<nexists>k. 3 = (2 :: nat) ^ k"
  proof
    assume "\<exists>k. 3 = (2 :: nat) ^ k"
    then obtain k where "3 = (2 :: nat) ^ k" by blast
    then show False by (cases k) (simp, metis dvd_triv_left odd_numeral power_Suc)
  qed
  have cap: "sl_cap demo_slice = 3" "sl_len demo_slice = 3" by (simp_all add: sl_cap_def demo_slice_def)
  have "roundUpPowerOf2 (of_nat 3) = 4" by code_simp
  with byte_slice_pool_safety [OF ok, THEN conjunct2, THEN conjunct2, rule_format, of demo_slice "[]"] three
  show ?thesis unfolding cap Let_def by (simp add: gm_get_def)
qed

text \<open>
  A buffer chosen for a size is large enough exactly up to one mebibyte. From the initial
  pools, and whatever valid buffers they hold later, the buffer returned has the size of its
  class; it covers the size asked for if and only if that is at most \<open>1024 * 1024\<close>.
\<close>

theorem optimal_buffer_size:
  assumes "bp_ok (SmallBufferPool g)" "bp_ok (MediumBufferPool g)" "bp_ok (LargeBufferPool g)" "bp_ok (HugeBufferPool g)"
    and "bp_size (SmallBufferPool g) = 4 * 1024" "bp_size (MediumBufferPool g) = 32 * 1024"
    "bp_size (LargeBufferPool g) = 64 * 1024" "bp_size (HugeBufferPool g) = 1024 * 1024"
  shows "\<exists>b. fst (GetOptimalBuffer pick sizeNeeded g) = Inr b \<and> sl_len b \<le> sl_cap b \<and>
    (sizeNeeded \<le> int (sl_len b) \<longleftrightarrow> sizeNeeded \<le> 1024 * 1024)"
proof -
  have get: "\<exists>b. fst (BufferPool_Get pick bp) = Inr b \<and> sl_len b = bp_size bp \<and> sl_len b \<le> sl_cap b" if "bp_ok bp" for bp
    using BufferPool_Get_ok(1) [OF that, of pick] by (cases "BufferPool_Get pick bp") auto
  show ?thesis
    using get [OF assms(1)] get [OF assms(2)] get [OF assms(3)] get [OF assms(4)] assms(5-8)
    by (auto simp: GetOptimalBuffer_def case_prod_beta Let_def)
qed

theorem optimal_buffer_size_witness:
  "\<exists>b. fst (GetOptimalBuffer 0 5000000 initial_pools) = Inr b \<and> \<not> 5000000 \<le> int (sl_len b)"
  using optimal_buffer_size [of initial_pools 0 5000000]
  by (simp add: initial_pools_def NewBufferPool_def bp_ok_def) blast



end
