(* ===== verification/ConnPool.thy ===== *)
theory ConnPool
  imports Prelude
begin

text \<open>
  Package \<^verbatim>\<open>pkg/pool\<close>, file \<^verbatim>\<open>connection.go\<close>: the pool of backend connections. Pooled connections are
  shared by pointer, so they live in a store inside the pool's state; the buffered channel is
  the list of the references in it, oldest first. Each method is one step. The network is an
  argument: whether a dial succeeds, whether the health probe's read reports a timeout, whether
  the context is done, and which arm of a \<^verbatim>\<open>select\<close> with several ready arms is taken.
\<close>

section \<open>Connections\<close>

type_synonym pcref = nat

text \<open>
  \<open>pc_nil\<close> says that the wrapped \<^verbatim>\<open>net.Conn\<close> is nil, \<open>pc_open\<close> that the socket is open, \<open>pc_closeOnce\<close> that
  the \<^verbatim>\<open>sync.Once\<close> has fired.
\<close>

record pooled_connection =
  pc_nil :: bool
  pc_open :: bool
  pc_lastUsed :: time
  pc_inUse :: bool
  pc_closeOnce :: bool

datatype pool_error = ErrPoolClosed | ErrConnectionClosed | ErrContext | ErrDial

record connection_pool =
  cn_maxSize :: nat
  cn_maxIdleTime :: duration
  cn_connections :: "pcref list"
  cn_closed :: bool
  cn_activeCount :: int
  cn_totalCreated :: int
  cn_totalReused :: int
  cn_heap :: "pcref \<Rightarrow> pooled_connection"
  cn_next :: pcref

definition no_connection :: pooled_connection where
  "no_connection = \<lparr>pc_nil = True, pc_open = False, pc_lastUsed = 0, pc_inUse = False, pc_closeOnce = False\<rparr>"

definition NewConnectionPool :: "int \<Rightarrow> duration \<Rightarrow> connection_pool" where
  "NewConnectionPool maxSize maxIdleTime =
     \<lparr>cn_maxSize = (if maxSize \<le> 0 then 10 else nat maxSize),
      cn_maxIdleTime = (if maxIdleTime \<le> 0 then 5 * Minute else maxIdleTime),
      cn_connections = [], cn_closed = False, cn_activeCount = 0, cn_totalCreated = 0,
      cn_totalReused = 0, cn_heap = (\<lambda>_. no_connection), cn_next = 0\<rparr>"

definition upd_conn :: "pcref \<Rightarrow> (pooled_connection \<Rightarrow> pooled_connection) \<Rightarrow> connection_pool \<Rightarrow> connection_pool" where
  "upd_conn c f p = p\<lparr>cn_heap := (cn_heap p)(c := f (cn_heap p c))\<rparr>"

text \<open>\<^verbatim>\<open>Read\<close> and \<^verbatim>\<open>Write\<close> differ only in the socket operation, whose result is \<open>io\<close>.\<close>

definition PooledConnection_io :: "time \<Rightarrow> 'r \<Rightarrow> pcref \<Rightarrow> connection_pool \<Rightarrow> (pool_error + 'r) \<times> connection_pool" where
  "PooledConnection_io now io c p =
     (if pc_nil (cn_heap p c) then (Inl ErrConnectionClosed, p)
      else (Inr io, upd_conn c (\<lambda>pc. pc\<lparr>pc_lastUsed := now\<rparr>) p))"

definition MarkInUse :: "time \<Rightarrow> pcref \<Rightarrow> connection_pool \<Rightarrow> connection_pool" where
  "MarkInUse now c = upd_conn c (\<lambda>pc. pc\<lparr>pc_inUse := True, pc_lastUsed := now\<rparr>)"

text \<open>\<open>timesOut c\<close>: a read into an empty buffer, with the deadline already passed, reports a timeout.\<close>

definition PooledConnection_IsHealthy :: "(pcref \<Rightarrow> bool) \<Rightarrow> pcref \<Rightarrow> connection_pool \<Rightarrow> bool" where
  "PooledConnection_IsHealthy timesOut c p = (if pc_nil (cn_heap p c) then False else timesOut c)"

definition close_conn :: "pcref \<Rightarrow> connection_pool \<Rightarrow> connection_pool" where
  "close_conn c p =
     (if pc_nil (cn_heap p c) then p else upd_conn c (\<lambda>pc. pc\<lparr>pc_open := False\<rparr>) p)"

section \<open>The pool\<close>

record pool_env =
  pe_now :: time
  pe_timesOut :: "pcref \<Rightarrow> bool"
  pe_ctxDone :: bool
  pe_preferCtx :: bool
  pe_dial :: bool

text \<open>What a \<^verbatim>\<open>Get\<close> ends in; \<open>Waiting\<close> is a \<^verbatim>\<open>select\<close> with no ready arm.\<close>

datatype get_result = Got pcref | GetError pool_error | Waiting

text \<open>The last part of \<^verbatim>\<open>Get\<close>: a new connection is counted, dialled and wrapped.\<close>

definition create_conn :: "pool_env \<Rightarrow> connection_pool \<Rightarrow> get_result \<times> connection_pool" where
  "create_conn env p0 =
     (let p = p0\<lparr>cn_activeCount := cn_activeCount p0 + 1, cn_totalCreated := cn_totalCreated p0 + 1\<rparr>
      in if \<not> pe_dial env then (GetError ErrDial, p\<lparr>cn_activeCount := cn_activeCount p - 1\<rparr>)
         else
           (Got (cn_next p),
            p\<lparr>cn_heap := (cn_heap p)(cn_next p :=
                \<lparr>pc_nil = False, pc_open = True, pc_lastUsed = pe_now env, pc_inUse = True, pc_closeOnce = False\<rparr>),
              cn_next := cn_next p + 1\<rparr>))"

definition reuse_conn :: "pool_env \<Rightarrow> pcref \<Rightarrow> connection_pool \<Rightarrow> get_result \<times> connection_pool" where
  "reuse_conn env c p =
     (let p = MarkInUse (pe_now env) c p in (Got c, p\<lparr>cn_totalReused := cn_totalReused p + 1\<rparr>))"

definition pop_conn :: "connection_pool \<Rightarrow> connection_pool" where
  "pop_conn p = p\<lparr>cn_connections := tl (cn_connections p)\<rparr>"

text \<open>
  The first \<^verbatim>\<open>select\<close>: return a healthy pooled connection, return the context's error, or go on to
  create one, with an unhealthy connection closed on the way.
\<close>

definition first_select :: "pool_env \<Rightarrow> connection_pool \<Rightarrow> get_result option \<times> connection_pool" where
  "first_select env p =
     (if pe_ctxDone env \<and> (pe_preferCtx env \<or> cn_connections p = []) then (Some (GetError ErrContext), p)
      else case cn_connections p of
        [] \<Rightarrow> (None, p)
      | c # _ \<Rightarrow>
          let p = pop_conn p in
          if PooledConnection_IsHealthy (pe_timesOut env) c p
          then (let (r, p) = reuse_conn env c p in (Some r, p))
          else (None, close_conn c p))"

lemma length_first_select:
  "first_select env p = (r, p') \<Longrightarrow> length (cn_connections p') \<le> length (cn_connections p)"
  by (auto simp: first_select_def pop_conn_def reuse_conn_def close_conn_def MarkInUse_def upd_conn_def Let_def
      split: if_splits list.splits)

function ConnectionPool_Get :: "pool_env \<Rightarrow> connection_pool \<Rightarrow> get_result \<times> connection_pool" where
  "ConnectionPool_Get env p0 =
     (if cn_closed p0 then (GetError ErrPoolClosed, p0)
      else case first_select env p0 of
        (Some r, p) \<Rightarrow> (r, p)
      | (None, p) \<Rightarrow>
          if cn_activeCount p \<ge> int (cn_maxSize p) then
            if pe_ctxDone env \<and> (pe_preferCtx env \<or> cn_connections p = []) then (GetError ErrContext, p)
            else (case cn_connections p of
                [] \<Rightarrow> (Waiting, p)
              | c # rest \<Rightarrow>
                  let p = pop_conn p in
                  if PooledConnection_IsHealthy (pe_timesOut env) c p then reuse_conn env c p
                  else
                    let p = close_conn c p
                    in ConnectionPool_Get env (p\<lparr>cn_activeCount := cn_activeCount p - 1\<rparr>))
          else create_conn env p)"
  by pat_completeness auto

lemma connections_close_pop [simp]:
  "cn_connections (close_conn c p) = cn_connections p" "cn_connections (pop_conn p) = tl (cn_connections p)"
  by (simp_all add: close_conn_def upd_conn_def pop_conn_def)

termination ConnectionPool_Get
proof (relation "measure (\<lambda>(env, p). length (cn_connections p))", goal_cases)
  case 2
  then show ?case by (auto dest!: sym [of "(None, _)"] length_first_select)
qed simp

declare ConnectionPool_Get.simps [simp del]

definition ConnectionPool_put :: "time \<Rightarrow> pcref \<Rightarrow> connection_pool \<Rightarrow> connection_pool" where
  "ConnectionPool_put now c p0 =
     (if cn_closed p0 then close_conn c p0
      else
        let p = upd_conn c (\<lambda>pc. pc\<lparr>pc_inUse := False, pc_lastUsed := now\<rparr>) p0
        in if length (cn_connections p) < cn_maxSize p then p\<lparr>cn_connections := cn_connections p @ [c]\<rparr>
           else close_conn c (p\<lparr>cn_activeCount := cn_activeCount p - 1\<rparr>))"

definition PooledConnection_Close :: "time \<Rightarrow> pcref \<Rightarrow> connection_pool \<Rightarrow> connection_pool" where
  "PooledConnection_Close now c p0 =
     (if pc_closeOnce (cn_heap p0 c) then p0
      else
        let p = upd_conn c (\<lambda>pc. pc\<lparr>pc_closeOnce := True\<rparr>) p0
        in if \<not> cn_closed p then ConnectionPool_put now c p
           else if \<not> pc_nil (cn_heap p c) then upd_conn c (\<lambda>pc. pc\<lparr>pc_nil := True\<rparr>) (close_conn c p)
           else p)"

text \<open>One turn of the loop of \<^verbatim>\<open>cleanup\<close>, for the connection received from the channel.\<close>

definition cleanup_turn :: "time \<Rightarrow> pcref \<Rightarrow> connection_pool \<Rightarrow> connection_pool" where
  "cleanup_turn now c p0 =
     (let p = pop_conn p0;
          idle = now - pc_lastUsed (cn_heap p c);
          dropped = (let q = close_conn c p in q\<lparr>cn_activeCount := cn_activeCount q - 1\<rparr>)
      in if pc_inUse (cn_heap p c) \<or> idle < cn_maxIdleTime p then
           if length (cn_connections p) < cn_maxSize p then p\<lparr>cn_connections := cn_connections p @ [c]\<rparr>
           else dropped
         else dropped)"

partial_function (option) ConnectionPool_cleanup :: "time \<Rightarrow> connection_pool \<Rightarrow> connection_pool option" where
  "ConnectionPool_cleanup now p =
     (case cn_connections p of
        [] \<Rightarrow> Some p
      | c # _ \<Rightarrow> ConnectionPool_cleanup now (cleanup_turn now c p))"

definition ConnectionPool_Close :: "connection_pool \<Rightarrow> connection_pool" where
  "ConnectionPool_Close p =
     (if cn_closed p then p
      else
        let q = p\<lparr>cn_closed := True\<rparr>
        in (fold close_conn (cn_connections q) q)\<lparr>cn_connections := []\<rparr>)"

record pool_stats =
  ps_Active :: int
  ps_Idle :: nat
  ps_TotalCreated :: int
  ps_TotalReused :: int
  ps_MaxSize :: nat

definition ConnectionPool_Stats :: "connection_pool \<Rightarrow> pool_stats" where
  "ConnectionPool_Stats p =
     \<lparr>ps_Active = cn_activeCount p, ps_Idle = length (cn_connections p), ps_TotalCreated = cn_totalCreated p,
      ps_TotalReused = cn_totalReused p, ps_MaxSize = cn_maxSize p\<rparr>"


section \<open>Reachable states\<close>

inductive pool_reach :: "connection_pool \<Rightarrow> bool" where
  pool_new: "pool_reach (NewConnectionPool maxSize maxIdleTime)"
| pool_get: "pool_reach p \<Longrightarrow> pool_reach (snd (ConnectionPool_Get env p))"
| pool_return: "\<lbrakk>pool_reach p; c < cn_next p\<rbrakk> \<Longrightarrow> pool_reach (PooledConnection_Close now c p)"
| pool_io: "pool_reach p \<Longrightarrow> pool_reach (snd (PooledConnection_io now () c p))"
| pool_turn: "\<lbrakk>pool_reach p; cn_connections p = c # cs\<rbrakk> \<Longrightarrow> pool_reach (cleanup_turn now c p)"
| pool_close: "pool_reach p \<Longrightarrow> pool_reach (ConnectionPool_Close p)"

text \<open>The connections that were handed out and not yet closed for the first time.\<close>

definition outstanding :: "connection_pool \<Rightarrow> pcref set" where
  "outstanding p = {c. c < cn_next p \<and> \<not> pc_closeOnce (cn_heap p c)}"

definition cn_inv :: "connection_pool \<Rightarrow> bool" where
  "cn_inv p \<longleftrightarrow>
     distinct (cn_connections p) \<and> (\<forall>c \<in> set (cn_connections p). c < cn_next p \<and> pc_closeOnce (cn_heap p c)) \<and>
     length (cn_connections p) \<le> cn_maxSize p \<and>
     int (length (cn_connections p)) + int (card (outstanding p)) \<le> cn_activeCount p \<and>
     cn_activeCount p \<le> int (cn_maxSize p)"

lemma finite_outstanding [simp]: "finite (outstanding p)"
  by (rule finite_subset [of _ "{..< cn_next p}"]) (auto simp: outstanding_def)

text \<open>What the smaller operations leave alone.\<close>

lemma upd_conn_simps [simp]:
  "cn_connections (upd_conn c f p) = cn_connections p" "cn_maxSize (upd_conn c f p) = cn_maxSize p"
  "cn_activeCount (upd_conn c f p) = cn_activeCount p" "cn_next (upd_conn c f p) = cn_next p"
  "cn_closed (upd_conn c f p) = cn_closed p" "cn_maxIdleTime (upd_conn c f p) = cn_maxIdleTime p"
  "cn_totalReused (upd_conn c f p) = cn_totalReused p"
  "cn_heap (upd_conn c f p) x = (if x = c then f (cn_heap p c) else cn_heap p x)"
  by (simp_all add: upd_conn_def)

lemma close_conn_simps [simp]:
  "cn_maxSize (close_conn c p) = cn_maxSize p" "cn_activeCount (close_conn c p) = cn_activeCount p"
  "cn_next (close_conn c p) = cn_next p" "cn_closed (close_conn c p) = cn_closed p"
  "cn_maxIdleTime (close_conn c p) = cn_maxIdleTime p" "cn_totalReused (close_conn c p) = cn_totalReused p"
  "pc_closeOnce (cn_heap (close_conn c p) x) = pc_closeOnce (cn_heap p x)"
  "pc_inUse (cn_heap (close_conn c p) x) = pc_inUse (cn_heap p x)"
  "pc_lastUsed (cn_heap (close_conn c p) x) = pc_lastUsed (cn_heap p x)"
  by (simp_all add: close_conn_def)

lemma pop_conn_simps [simp]:
  "cn_maxSize (pop_conn p) = cn_maxSize p" "cn_activeCount (pop_conn p) = cn_activeCount p"
  "cn_next (pop_conn p) = cn_next p" "cn_closed (pop_conn p) = cn_closed p" "cn_heap (pop_conn p) = cn_heap p"
  "cn_maxIdleTime (pop_conn p) = cn_maxIdleTime p" "cn_totalReused (pop_conn p) = cn_totalReused p"
  by (simp_all add: pop_conn_def)

text \<open>Operations that leave the queue, the counters and the close flags alone keep the invariant.\<close>

lemma cn_inv_cong:
  assumes "cn_inv p" and "cn_next q = cn_next p" "cn_maxSize q = cn_maxSize p"
    and "\<And>c. pc_closeOnce (cn_heap q c) = pc_closeOnce (cn_heap p c)"
    and "distinct (cn_connections q)" "set (cn_connections q) \<subseteq> set (cn_connections p)"
    and "cn_activeCount q \<le> cn_activeCount p"
    and "cn_activeCount p - cn_activeCount q \<le> int (length (cn_connections p)) - int (length (cn_connections q))"
  shows "cn_inv q"
proof -
  have "outstanding q = outstanding p" using assms(2,4) by (simp add: outstanding_def)
  moreover have "length (cn_connections q) \<le> length (cn_connections p)" using assms(7,8) by linarith
  ultimately show ?thesis using assms by (auto simp: cn_inv_def)
qed



lemma cn_inv_pop: "cn_inv p \<Longrightarrow> cn_inv (pop_conn p)"
  by (cases "cn_connections p") (auto simp: cn_inv_def outstanding_def)

lemma cn_inv_touch:
  assumes "cn_inv p" and "\<And>pc. pc_closeOnce (f pc) = pc_closeOnce pc"
  shows "cn_inv (upd_conn c f p)"
  using assms by (intro cn_inv_cong [OF assms(1)]) (auto simp: cn_inv_def)

lemma cn_inv_close_conn: "cn_inv p \<Longrightarrow> cn_inv (close_conn c p)"
  by (rule cn_inv_cong) (auto simp: cn_inv_def)

lemma cn_inv_reuse: "cn_inv p \<Longrightarrow> cn_inv (snd (reuse_conn env c p))"
  by (rule cn_inv_cong [of p]) (auto simp: reuse_conn_def MarkInUse_def Let_def cn_inv_def)

lemma cn_inv_create:
  assumes "cn_inv p" and "cn_activeCount p < int (cn_maxSize p)"
  shows "cn_inv (snd (create_conn env p))"
proof (cases "pe_dial env")
  case False
  then show ?thesis by (intro cn_inv_cong [OF assms(1)]) (use assms(1) in \<open>auto simp: create_conn_def Let_def cn_inv_def\<close>)
next
  case True
  let ?q = "snd (create_conn env p)"
  from True have "outstanding ?q = insert (cn_next p) (outstanding p)"
    by (auto simp: create_conn_def Let_def outstanding_def less_Suc_eq)
  moreover have "cn_next p \<notin> outstanding p" by (simp add: outstanding_def)
  ultimately have "card (outstanding ?q) = card (outstanding p) + 1" by simp
  with True assms show ?thesis by (auto simp: create_conn_def Let_def cn_inv_def)
qed

lemma cn_inv_first_select:
  "cn_inv p \<Longrightarrow> first_select env p = (r, p') \<Longrightarrow> cn_inv p' \<and> cn_maxSize p' = cn_maxSize p"
  using cn_inv_reuse [OF cn_inv_pop, of p env "hd (cn_connections p)"] cn_inv_close_conn [OF cn_inv_pop, of p]
  by (auto simp: first_select_def Let_def reuse_conn_def MarkInUse_def split: if_splits list.splits)



lemma Get_next:
  assumes "\<not> cn_closed p0" and "first_select env p0 = (None, p)" and "cn_activeCount p \<ge> int (cn_maxSize p)"
    and "cn_connections p = c # cs" and "\<not> (pe_ctxDone env \<and> pe_preferCtx env)"
  shows "ConnectionPool_Get env p0 =
    (if PooledConnection_IsHealthy (pe_timesOut env) c (pop_conn p) then reuse_conn env c (pop_conn p)
     else ConnectionPool_Get env
       ((close_conn c (pop_conn p))\<lparr>cn_activeCount := cn_activeCount (close_conn c (pop_conn p)) - 1\<rparr>))"
  using assms by (subst ConnectionPool_Get.simps) (cases "pe_ctxDone env"; simp add: Let_def)

lemma Get_stops:
  assumes "first_select env p0 = (r, p)"
    and "cn_closed p0 \<or> r \<noteq> None \<or> \<not> cn_activeCount p \<ge> int (cn_maxSize p) \<or> cn_connections p = [] \<or>
      pe_ctxDone env \<and> pe_preferCtx env"
  shows "snd (ConnectionPool_Get env p0) \<in> {p0, p} \<or>
    cn_activeCount p < int (cn_maxSize p) \<and> snd (ConnectionPool_Get env p0) = snd (create_conn env p)"
proof (cases "cn_closed p0 \<or> r \<noteq> None")
  case True
  with assms(1) show ?thesis by (auto simp: ConnectionPool_Get.simps [of env p0])
next
  case False
  with assms show ?thesis
    by (cases "cn_activeCount p \<ge> int (cn_maxSize p)"; cases "cn_connections p")
      (auto simp: ConnectionPool_Get.simps [of env p0])
qed

lemma cn_inv_Get: "cn_inv p \<Longrightarrow> cn_inv (snd (ConnectionPool_Get env p))"
proof (induction env p rule: ConnectionPool_Get.induct)
  case (1 env p0)
  obtain r p where f: "first_select env p0 = (r, p)" by (cases "first_select env p0")
  note p = cn_inv_first_select [OF 1(2) f, THEN conjunct1]
  show ?case
  proof (cases "cn_closed p0 \<or> r \<noteq> None \<or> \<not> cn_activeCount p \<ge> int (cn_maxSize p) \<or> cn_connections p = [] \<or>
      pe_ctxDone env \<and> pe_preferCtx env")
    case True
    from Get_stops [OF f True] 1(2) p cn_inv_create [OF p, of env] show ?thesis by auto
  next
    case False
    then obtain c cs where cs: "cn_connections p = c # cs" "r = None" "\<not> cn_closed p0"
      "cn_activeCount p \<ge> int (cn_maxSize p)" "\<not> (pe_ctxDone env \<and> pe_preferCtx env)"
      by (cases "cn_connections p") auto
    let ?q = "close_conn c (pop_conn p)"
    let ?q' = "?q\<lparr>cn_activeCount := cn_activeCount ?q - 1\<rparr>"
    have q: "cn_inv ?q'"
      by (rule cn_inv_cong [OF p]) (use p cs(1) in \<open>auto simp: cn_inv_def\<close>)
    note get = Get_next [OF cs(3) f [unfolded cs(2)] cs(4,1,5)]
    show ?thesis
    proof (cases "PooledConnection_IsHealthy (pe_timesOut env) c (pop_conn p)")
      case True
      with get cn_inv_reuse [OF cn_inv_pop [OF p]] show ?thesis by simp
    next
      case sick: False
      have "cn_inv (snd (ConnectionPool_Get env ?q'))"
        using f cs sick q by (intro 1(1) [OF cs(3)]) (simp_all, blast?)
      with get sick show ?thesis by simp
    qed
  qed
qed

lemma cn_inv_put:
  assumes "cn_inv p" and "c \<in> outstanding p"
  shows "cn_inv (ConnectionPool_put now c (upd_conn c (\<lambda>pc. pc\<lparr>pc_closeOnce := True\<rparr>) p))"
proof -
  let ?q = "ConnectionPool_put now c (upd_conn c (\<lambda>pc. pc\<lparr>pc_closeOnce := True\<rparr>) p)"
  have "outstanding ?q = outstanding p - {c}"
    by (auto simp: outstanding_def ConnectionPool_put_def Let_def split: if_splits)
  then have card: "int (card (outstanding ?q)) = int (card (outstanding p)) - 1"
    using assms(2) by (simp add: card_Diff_singleton card_gt_0_iff of_nat_diff Suc_leI) (metis One_nat_def Suc_leI card_gt_0_iff empty_iff finite_outstanding of_nat_1 of_nat_diff)
  have "c \<notin> set (cn_connections p)" "c < cn_next p"
    using assms by (auto simp: cn_inv_def outstanding_def)
  with assms(1) card show ?thesis
    unfolding cn_inv_def by (auto simp: ConnectionPool_put_def Let_def)
qed



lemma cn_inv_Close:
  assumes "cn_inv p" and "c < cn_next p"
  shows "cn_inv (PooledConnection_Close now c p)"
proof (cases "pc_closeOnce (cn_heap p c)")
  case True
  with assms(1) show ?thesis by (simp add: PooledConnection_Close_def)
next
  case False
  with assms(2) have out: "c \<in> outstanding p" by (simp add: outstanding_def)
  show ?thesis
  proof (cases "cn_closed p")
    case True
    let ?q = "PooledConnection_Close now c p"
    have "outstanding ?q \<subseteq> outstanding p"
      using True by (auto simp: outstanding_def PooledConnection_Close_def Let_def split: if_splits)
    then have "card (outstanding ?q) \<le> card (outstanding p)" by (intro card_mono) auto
    with True assms show ?thesis
      unfolding cn_inv_def by (auto simp: PooledConnection_Close_def Let_def)
  next
    case live: False
    from cn_inv_put [OF assms(1) out] False live show ?thesis
      by (simp add: PooledConnection_Close_def Let_def)
  qed
qed

lemma cn_inv_turn:
  assumes "cn_inv p" and "cn_connections p = c # cs"
  shows "cn_inv (cleanup_turn now c p)"
  by (rule cn_inv_cong [OF assms(1)])
    (use assms in \<open>auto simp: cleanup_turn_def cn_inv_def Let_def\<close>)

lemma fold_close_conn:
  "cn_maxSize (fold close_conn cs p) = cn_maxSize p \<and> cn_activeCount (fold close_conn cs p) = cn_activeCount p \<and>
   cn_next (fold close_conn cs p) = cn_next p \<and>
   (\<forall>x. pc_closeOnce (cn_heap (fold close_conn cs p) x) = pc_closeOnce (cn_heap p x))"
  by (induction cs arbitrary: p) auto

lemma cn_inv_pool_close:
  assumes "cn_inv p"
  shows "cn_inv (ConnectionPool_Close p)"
proof (cases "cn_closed p")
  case False
  let ?q = "ConnectionPool_Close p"
  have "outstanding ?q = outstanding p"
    using False by (simp add: outstanding_def ConnectionPool_Close_def Let_def fold_close_conn)
  with False assms show ?thesis
    unfolding cn_inv_def by (simp add: ConnectionPool_Close_def Let_def fold_close_conn)
qed (use assms in \<open>simp add: ConnectionPool_Close_def\<close>)



lemma pool_reach_inv: "pool_reach p \<Longrightarrow> cn_inv p"
proof (induction rule: pool_reach.induct)
  case (pool_new maxSize maxIdleTime)
  show ?case by (simp add: cn_inv_def NewConnectionPool_def outstanding_def)
next
  case (pool_io p now c)
  then show ?case by (auto simp: PooledConnection_io_def intro!: cn_inv_touch)
qed (simp_all add: cn_inv_Get cn_inv_Close cn_inv_turn cn_inv_pool_close)

section \<open>One client after another\<close>

text \<open>A client that gets a connection, uses it and closes it.\<close>

definition use_once :: "pool_env \<Rightarrow> connection_pool \<Rightarrow> connection_pool" where
  "use_once env p =
     (case ConnectionPool_Get env p of
        (Got c, p') \<Rightarrow> PooledConnection_Close (pe_now env) c p'
      | (_, p') \<Rightarrow> p')"

text \<open>The state after \<open>k\<close> such clients.\<close>

definition after_uses :: "nat \<Rightarrow> connection_pool \<Rightarrow> bool" where
  "after_uses k p \<longleftrightarrow>
     \<not> cn_closed p \<and> cn_connections p = (if k = 0 then [] else [k - 1]) \<and> cn_next p = k \<and>
     cn_activeCount p = int k \<and> cn_totalReused p = 0"

lemma first_select_sick:
  assumes "after_uses k p" and "\<not> pe_ctxDone env" and "\<And>c. \<not> pe_timesOut env c"
  obtains q where "first_select env p = (None, q)" "cn_connections q = []" "cn_activeCount q = int k"
    "cn_next q = k" "\<not> cn_closed q" "cn_maxSize q = cn_maxSize p" "cn_totalReused q = 0"
  using assms
  by (auto simp: after_uses_def first_select_def PooledConnection_IsHealthy_def Let_def split: if_splits)

lemma use_once_step:
  assumes "after_uses k p" and "k < cn_maxSize p" and env: "\<not> pe_ctxDone env" "\<And>c. \<not> pe_timesOut env c" "pe_dial env"
  shows "fst (ConnectionPool_Get env p) = Got k" "after_uses (Suc k) (use_once env p)"
    "cn_maxSize (use_once env p) = cn_maxSize p"
proof -
  obtain q where q: "first_select env p = (None, q)" "cn_connections q = []" "cn_activeCount q = int k"
    "cn_next q = k" "\<not> cn_closed q" "cn_maxSize q = cn_maxSize p" "cn_totalReused q = 0"
    using first_select_sick [OF assms(1) env(1,2)] by blast
  then have get: "ConnectionPool_Get env p = create_conn env q"
    using assms(1,2) by (subst ConnectionPool_Get.simps) (simp add: after_uses_def)
  from q env(3) show "fst (ConnectionPool_Get env p) = Got k"
    by (simp add: get create_conn_def Let_def)
  from q env(3) assms(2) show "after_uses (Suc k) (use_once env p)" "cn_maxSize (use_once env p) = cn_maxSize p"
    by (simp_all add: use_once_def get create_conn_def after_uses_def PooledConnection_Close_def
        ConnectionPool_put_def Let_def)
qed

lemma uses_until_full:
  assumes "k \<le> cn_maxSize p" and "after_uses 0 p" and "\<not> pe_ctxDone env" "\<And>c. \<not> pe_timesOut env c" "pe_dial env"
  shows "after_uses k ((use_once env ^^ k) p) \<and> cn_maxSize ((use_once env ^^ k) p) = cn_maxSize p"
  using assms(1)
proof (induction k)
  case 0
  with assms(2) show ?case by simp
next
  case (Suc k)
  with use_once_step [of k "(use_once env ^^ k) p" env] assms(3-5) show ?case by simp
qed

section \<open>The cleanup loop\<close>

definition still_fresh :: "time \<Rightarrow> connection_pool \<Rightarrow> pcref \<Rightarrow> bool" where
  "still_fresh now p c \<longleftrightarrow> pc_inUse (cn_heap p c) \<or> now - pc_lastUsed (cn_heap p c) < cn_maxIdleTime p"

lemma cleanup_turn_keeps:
  "still_fresh now (cleanup_turn now c p) x = still_fresh now p x"
  "cn_maxSize (cleanup_turn now c p) = cn_maxSize p"
  by (simp_all add: cleanup_turn_def still_fresh_def Let_def)

lemma cleanup_turn_connections:
  assumes "cn_connections p = c # cs" and "length (cn_connections p) \<le> cn_maxSize p"
  shows "cn_connections (cleanup_turn now c p) = (if still_fresh now p c then cs @ [c] else cs)"
    "cn_activeCount (cleanup_turn now c p) = cn_activeCount p - (if still_fresh now p c then 0 else 1)"
  using assms by (simp_all add: cleanup_turn_def still_fresh_def Let_def)



lemma cleanup_fresh_loops:
  assumes "ConnectionPool_cleanup now p = Some q"
  shows "length (cn_connections p) \<le> cn_maxSize p \<longrightarrow> (\<forall>c \<in> set (cn_connections p). \<not> still_fresh now p c)"
proof (rule ConnectionPool_cleanup.raw_induct [where P = "\<lambda>now p q. length (cn_connections p) \<le> cn_maxSize p \<longrightarrow>
      (\<forall>c \<in> set (cn_connections p). \<not> still_fresh now p c)", OF _ assms], goal_cases)
  case (1 f now p q)
  show ?case
  proof (cases "cn_connections p")
    case (Cons c cs)
    with 1(2) have "f now (cleanup_turn now c p) = Some q" by simp
    note IH = 1(1) [OF this]
    show ?thesis
    proof
      assume len: "length (cn_connections p) \<le> cn_maxSize p"
      note turn = cleanup_turn_connections(1) [OF Cons len, of now] cleanup_turn_keeps [of now c p]
      from IH len Cons turn show "\<forall>c \<in> set (cn_connections p). \<not> still_fresh now p c"
        by (cases "still_fresh now p c") auto
    qed
  qed simp
qed

lemma cleanup_expired:
  assumes "\<forall>c \<in> set (cn_connections p). \<not> still_fresh now p c" and "length (cn_connections p) \<le> cn_maxSize p"
  shows "\<exists>q. ConnectionPool_cleanup now p = Some q \<and> cn_connections q = [] \<and>
    cn_activeCount q = cn_activeCount p - int (length (cn_connections p))"
  using assms
proof (induction "cn_connections p" arbitrary: p)
  case Nil
  then show ?case by (subst ConnectionPool_cleanup.simps) simp
next
  case (Cons c cs)
  from Cons.hyps(2) have cs: "cn_connections p = c # cs" by simp
  let ?p = "cleanup_turn now c p"
  have conns: "cn_connections ?p = cs" "cn_activeCount ?p = cn_activeCount p - 1"
    using cleanup_turn_connections [OF cs Cons.prems(2), of now] Cons.prems(1) cs by simp_all
  with Cons.hyps(1) [of ?p] Cons.prems cs obtain q where "ConnectionPool_cleanup now ?p = Some q"
    "cn_connections q = []" "cn_activeCount q = cn_activeCount ?p - int (length cs)"
    by (auto simp: cleanup_turn_keeps)
  with cs conns show ?case by (subst ConnectionPool_cleanup.simps) simp
qed

lemma reuse_closeOnce: "pc_closeOnce (cn_heap (snd (reuse_conn env c p)) x) = pc_closeOnce (cn_heap p x)"
  by (simp add: reuse_conn_def MarkInUse_def Let_def)

lemma create_closeOnce:
  "x < cn_next p \<Longrightarrow> pc_closeOnce (cn_heap (snd (create_conn env p)) x) = pc_closeOnce (cn_heap p x)"
  by (simp add: create_conn_def Let_def)

lemma first_select_closeOnce:
  "first_select env p = (r, p') \<Longrightarrow>
     cn_next p' = cn_next p \<and> pc_closeOnce (cn_heap p' x) = pc_closeOnce (cn_heap p x)"
  using reuse_closeOnce [of env "hd (cn_connections p)" "pop_conn p" x]
  by (auto simp: first_select_def reuse_conn_def MarkInUse_def Let_def split: if_splits list.splits)

lemma Get_keeps_closeOnce:
  "x < cn_next p \<Longrightarrow> pc_closeOnce (cn_heap (snd (ConnectionPool_Get env p)) x) = pc_closeOnce (cn_heap p x)"
proof (induction env p rule: ConnectionPool_Get.induct)
  case (1 env p0)
  obtain r p where f: "first_select env p0 = (r, p)" by (cases "first_select env p0")
  note keep = first_select_closeOnce [OF f, of x]
  show ?case
  proof (cases "cn_closed p0 \<or> r \<noteq> None \<or> \<not> cn_activeCount p \<ge> int (cn_maxSize p) \<or> cn_connections p = [] \<or>
      pe_ctxDone env \<and> pe_preferCtx env")
    case True
    from Get_stops [OF f True] keep create_closeOnce [of x p env] 1(2) show ?thesis by auto
  next
    case False
    then obtain c cs where cs: "cn_connections p = c # cs" "r = None" "\<not> cn_closed p0"
      "cn_activeCount p \<ge> int (cn_maxSize p)" "\<not> (pe_ctxDone env \<and> pe_preferCtx env)"
      by (cases "cn_connections p") auto
    let ?q = "close_conn c (pop_conn p)"
    let ?q' = "?q\<lparr>cn_activeCount := cn_activeCount ?q - 1\<rparr>"
    note get = Get_next [OF cs(3) f [unfolded cs(2)] cs(4,1,5)]
    show ?thesis
    proof (cases "PooledConnection_IsHealthy (pe_timesOut env) c (pop_conn p)")
      case True
      with get reuse_closeOnce [of env c "pop_conn p" x] keep show ?thesis by simp
    next
      case sick: False
      have "pc_closeOnce (cn_heap (snd (ConnectionPool_Get env ?q')) x) = pc_closeOnce (cn_heap ?q' x)"
        using f cs sick keep 1(2) by (intro 1(1) [OF cs(3)]) (simp_all, blast?)
      with get sick keep show ?thesis by simp
    qed
  qed
qed

definition demo_env :: "bool \<Rightarrow> pool_env" where
  "demo_env timesOut = \<lparr>pe_now = 0, pe_timesOut = (\<lambda>_. timesOut), pe_ctxDone = False, pe_preferCtx = False, pe_dial = True\<rparr>"

section \<open>Properties\<close>

text \<open>
  C10: The pool never exceeds its size. In every state reachable by getting, returning, using
  and cleaning up connections and closing the pool, the active count lies between zero and the
  maximum, the idle connections and those still out for the first time together do not exceed
  it, and no connection is in the pool twice.
\<close>

theorem connection_pool_bounded:
  assumes "pool_reach p"
  shows "0 \<le> cn_activeCount p \<and> cn_activeCount p \<le> int (cn_maxSize p) \<and>
    int (length (cn_connections p)) + int (card (outstanding p)) \<le> cn_activeCount p \<and>
    distinct (cn_connections p)"
  using pool_reach_inv [OF assms] by (simp add: cn_inv_def)

theorem connection_pool_bounded_witness:
  "cn_activeCount (snd (ConnectionPool_Get (demo_env True) (NewConnectionPool 1 0))) \<le> 1"
  using connection_pool_bounded [OF pool_get [OF pool_new [of 1 0]], of "demo_env True"]
  by (simp add: ConnectionPool_Get.simps first_select_def create_conn_def NewConnectionPool_def Let_def)



text \<open>
  A connection goes back to the pool at most once. Every connection that waits in the pool
  has been closed before, and its close fires only once; so a client that gets it again cannot
  return it: its \<^verbatim>\<open>Close\<close> changes nothing, and the connection is lost to the pool.
\<close>

theorem reused_connection_not_returned:
  assumes "pool_reach p" and "ConnectionPool_Get env p = (Got c, p')" and "c \<in> set (cn_connections p)"
  shows "PooledConnection_Close now c p' = p'"
  using Get_keeps_closeOnce [of c p env] pool_reach_inv [OF assms(1)] assms(2,3)
  by (auto simp: cn_inv_def PooledConnection_Close_def)

theorem reused_connection_not_returned_witness:
  "\<exists>p p'. pool_reach p \<and> ConnectionPool_Get (demo_env True) p = (Got 0, p') \<and> cn_connections p = [0] \<and>
     cn_connections (PooledConnection_Close 0 0 p') = []"
proof -
  let ?e = "demo_env True"
  let ?p0 = "NewConnectionPool 1 0"
  let ?p1 = "snd (create_conn ?e ?p0)"
  define p where "p = PooledConnection_Close 0 0 ?p1"
  have p1: "snd (ConnectionPool_Get ?e ?p0) = ?p1"
    by (simp add: ConnectionPool_Get.simps first_select_def NewConnectionPool_def demo_env_def)
  have reach: "pool_reach p"
    unfolding p_def using pool_return [OF pool_get [OF pool_new [of 1 0], of ?e], of 0 0]
    by (simp add: p1) (simp add: create_conn_def NewConnectionPool_def demo_env_def Let_def)
  have conns: "cn_connections p = [0]" "\<not> cn_closed p" "\<not> pc_nil (cn_heap p 0)"
    by (simp_all add: p_def create_conn_def NewConnectionPool_def demo_env_def PooledConnection_Close_def
        ConnectionPool_put_def Let_def)
  obtain p' where get: "ConnectionPool_Get ?e p = (Got 0, p')" and "cn_connections p' = []"
    using conns by (simp add: ConnectionPool_Get.simps first_select_def PooledConnection_IsHealthy_def demo_env_def
        reuse_conn_def MarkInUse_def pop_conn_def Let_def)
  with reused_connection_not_returned [OF reach get, of 0] conns reach show ?thesis by fastforce
qed

text \<open>
  With TCP connections the pool runs dry. A read into an empty buffer returns at once and
  never reports a timeout, so no pooled connection passes the health test: none is ever reused,
  and each one found unhealthy keeps its place in the active count. Clients that come one after
  another, each returning its connection, are served \<open>maxSize\<close> times; the next one waits for a
  connection although none is in use.
\<close>

theorem connection_pool_runs_dry:
  assumes "0 < maxSize" and "\<And>c. \<not> pe_timesOut env c" and "\<not> pe_ctxDone env" and "pe_dial env"
  shows "(\<forall>k < nat maxSize. fst (ConnectionPool_Get env ((use_once env ^^ k) (NewConnectionPool maxSize idle))) = Got k) \<and>
    fst (ConnectionPool_Get env ((use_once env ^^ nat maxSize) (NewConnectionPool maxSize idle))) = Waiting \<and>
    cn_totalReused ((use_once env ^^ nat maxSize) (NewConnectionPool maxSize idle)) = 0"
proof -
  let ?p = "NewConnectionPool maxSize idle"
  have new: "after_uses 0 ?p" "cn_maxSize ?p = nat maxSize"
    using assms(1) by (simp_all add: after_uses_def NewConnectionPool_def)
  note until = uses_until_full [OF _ new(1) assms(3,2,4), unfolded new(2)]
  have "fst (ConnectionPool_Get env ((use_once env ^^ k) ?p)) = Got k" if "k < nat maxSize" for k
    using until [of k] that by (intro use_once_step(1)) (auto simp: assms)
  moreover
  let ?q = "(use_once env ^^ nat maxSize) ?p"
  from until [of "nat maxSize"] have full: "after_uses (nat maxSize) ?q" "cn_maxSize ?q = nat maxSize" by auto
  obtain q where "first_select env ?q = (None, q)" "cn_connections q = []" "cn_activeCount q = int (nat maxSize)"
    "cn_maxSize q = cn_maxSize ?q"
    using first_select_sick [OF full(1) assms(3,2)] by blast
  with full assms(3) have "fst (ConnectionPool_Get env ?q) = Waiting"
    by (subst ConnectionPool_Get.simps) (simp add: after_uses_def)
  ultimately show ?thesis using full(1) by (simp add: after_uses_def)
qed

theorem connection_pool_runs_dry_witness:
  "fst (ConnectionPool_Get (demo_env False) ((use_once (demo_env False) ^^ 2) (NewConnectionPool 2 0))) = Waiting"
  using connection_pool_runs_dry [of 2 "demo_env False" 0] by (simp add: demo_env_def)

text \<open>
  The cleanup returns exactly when nothing is worth keeping. If every idle connection has
  exceeded the idle time the loop ends with an empty pool and the active count reduced by their
  number; if one has not, the loop puts it back and receives it again, for ever.
\<close>

theorem cleanup_returns_iff_all_expired:
  assumes "length (cn_connections p) \<le> cn_maxSize p"
  shows "(case ConnectionPool_cleanup now p of
      None \<Rightarrow> \<exists>c \<in> set (cn_connections p). still_fresh now p c
    | Some q \<Rightarrow> (\<forall>c \<in> set (cn_connections p). \<not> still_fresh now p c) \<and> cn_connections q = [] \<and>
        cn_activeCount q = cn_activeCount p - int (length (cn_connections p)))"
proof (cases "\<forall>c \<in> set (cn_connections p). \<not> still_fresh now p c")
  case True
  from cleanup_expired [OF this assms] True show ?thesis by auto
next
  case False
  then have "ConnectionPool_cleanup now p = None"
    using cleanup_fresh_loops [of now p] assms by (cases "ConnectionPool_cleanup now p") auto
  with False show ?thesis by auto
qed

theorem cleanup_returns_iff_all_expired_witness:
  "ConnectionPool_cleanup 5 ((NewConnectionPool 2 10)\<lparr>cn_connections := [0]\<rparr>) = None"
  using cleanup_returns_iff_all_expired [of "(NewConnectionPool 2 10)\<lparr>cn_connections := [0]\<rparr>" 5]
  by (auto simp: NewConnectionPool_def still_fresh_def no_connection_def split: option.splits)

end
