(* ===== verification/GoroutinePool.thy ===== *)
theory GoroutinePool
  imports Prelude
begin

text \<open>
  The goroutine pool (\<^verbatim>\<open>pkg/pool/goroutine.go\<close>) as a system of goroutines that interleave between
  any two accesses to shared memory: callers of \<^verbatim>\<open>Submit\<close> and its variants, workers, and the caller
  of \<^verbatim>\<open>Close\<close>. Each goroutine has a program counter (\<open>submitter\<close>, \<open>worker\<close>, \<open>closer\<close>), and each kind
  has a step function with one case per atomic action of the code: an atomic load or addition, a
  compare-and-swap, a \<^verbatim>\<open>select\<close>, the closing of a channel. A step function gets the case its \<^verbatim>\<open>select\<close>
  takes as an argument and is \<open>None\<close> where that case is not ready. An idle timer may fire and a
  context may be done at any time.

  The channel of tasks is a list with a capacity; with capacity zero a send hands the task to a
  worker that waits in its \<^verbatim>\<open>select\<close>. A caller already parked in its \<^verbatim>\<open>select\<close> is not distinguished
  from one that enters it, so the model also lets a parked caller send on the closed channel. The
  effect of a task is that it is executed; a panic of a task is recovered and changes nothing else.
\<close>

section \<open>The pool\<close>

type_synonym task = nat

record goroutine_pool_config =
  gc_MaxWorkers :: int
  gc_MaxIdleTime :: duration
  gc_QueueSize :: int
  gc_NonBlocking :: bool

definition DefaultGoroutinePoolConfig :: goroutine_pool_config where
  "DefaultGoroutinePoolConfig =
     \<lparr>gc_MaxWorkers = 100, gc_MaxIdleTime = 10 * Second, gc_QueueSize = 1000, gc_NonBlocking = False\<rparr>"

record goroutine_pool =
  gp_maxWorkers :: int
  gp_maxIdleTime :: duration
  gp_queueSize :: nat
  gp_nonBlocking :: bool
  gp_workers :: int
  gp_running :: int
  gp_closed :: bool
  gp_taskQueue :: "task list"
  gp_queueClosed :: bool
  gp_stopped :: bool
  gp_wg :: int
  gp_submitted :: "64 word"
  gp_completed :: "64 word"
  gp_rejected :: "64 word"

definition NewGoroutinePool :: "goroutine_pool_config \<Rightarrow> goroutine_pool" where
  "NewGoroutinePool config =
     (let config = (if gc_MaxWorkers config \<le> 0 then config\<lparr>gc_MaxWorkers := 100\<rparr> else config);
          config = (if gc_MaxIdleTime config \<le> 0 then config\<lparr>gc_MaxIdleTime := 10 * Second\<rparr> else config);
          queueSize = gc_QueueSize config;
          queueSize = (if queueSize < 0 then 0 else queueSize)
      in \<lparr>gp_maxWorkers = sint (word_of_int (gc_MaxWorkers config) :: 32 word),
          gp_maxIdleTime = gc_MaxIdleTime config, gp_queueSize = nat queueSize,
          gp_nonBlocking = gc_NonBlocking config, gp_workers = 0, gp_running = 0, gp_closed = False,
          gp_taskQueue = [], gp_queueClosed = False, gp_stopped = False, gp_wg = 0,
          gp_submitted = 0, gp_completed = 0, gp_rejected = 0\<rparr>)"

definition GetDefaultPool :: goroutine_pool where
  "GetDefaultPool = NewGoroutinePool (DefaultGoroutinePoolConfig\<lparr>gc_MaxWorkers := 1000, gc_QueueSize := 10000\<rparr>)"

section \<open>Submitting\<close>

datatype submit_error = ErrGoroutinePoolClosed | ErrGoroutinePoolTimeout | CtxErr

text \<open>\<^verbatim>\<open>Submit\<close>, \<^verbatim>\<open>SubmitWithTimeout\<close> and \<^verbatim>\<open>SubmitWithContext\<close>.\<close>

datatype submit_kind = Submit | SubmitWithTimeout | SubmitWithContext

datatype submitter =
    S_Called submit_kind task
  | S_Counting submit_kind task
  | S_Select submit_kind task
  | S_Sent
  | S_Loaded int
  | S_Swapped
  | S_Rejecting submit_error
  | S_Returned "submit_error option"
  | S_Panicked go_panic

datatype select_case = CaseSend | CaseStop | CaseTimer | CaseDone | CaseDefault

text \<open>
  The \<^verbatim>\<open>select\<close> statements of the three variants. \<open>try_send\<close> is the case that sends; \<open>receiver\<close> tells
  whether a worker waits for a task, which makes a send without capacity ready.
\<close>

definition try_send :: "task \<Rightarrow> goroutine_pool \<Rightarrow> (submitter \<times> goroutine_pool) option" where
  "try_send t p =
     (if gp_queueClosed p then Some (S_Panicked SendOnClosed, p)
      else if length (gp_taskQueue p) < gp_queueSize p
        then Some (S_Sent, p\<lparr>gp_taskQueue := gp_taskQueue p @ [t]\<rparr>)
      else None)"

definition send_ready :: "bool \<Rightarrow> goroutine_pool \<Rightarrow> bool" where
  "send_ready receiver p \<longleftrightarrow>
     gp_queueClosed p \<or> length (gp_taskQueue p) < gp_queueSize p \<or> (gp_queueSize p = 0 \<and> receiver)"

definition Submit_select :: "bool \<Rightarrow> select_case \<Rightarrow> task \<Rightarrow> goroutine_pool \<Rightarrow> (submitter \<times> goroutine_pool) option" where
  "Submit_select receiver c t p =
     (if gp_nonBlocking p then
        case c of
          CaseSend \<Rightarrow> try_send t p
        | CaseDefault \<Rightarrow> if send_ready receiver p then None else Some (S_Rejecting ErrGoroutinePoolTimeout, p)
        | _ \<Rightarrow> None
      else
        case c of
          CaseSend \<Rightarrow> try_send t p
        | CaseStop \<Rightarrow> if gp_stopped p then Some (S_Rejecting ErrGoroutinePoolClosed, p) else None
        | _ \<Rightarrow> None)"

definition SubmitWithTimeout_select :: "select_case \<Rightarrow> task \<Rightarrow> goroutine_pool \<Rightarrow> (submitter \<times> goroutine_pool) option" where
  "SubmitWithTimeout_select c t p =
     (case c of
        CaseSend \<Rightarrow> try_send t p
      | CaseTimer \<Rightarrow> Some (S_Rejecting ErrGoroutinePoolTimeout, p)
      | CaseStop \<Rightarrow> if gp_stopped p then Some (S_Rejecting ErrGoroutinePoolClosed, p) else None
      | _ \<Rightarrow> None)"

definition SubmitWithContext_select :: "select_case \<Rightarrow> task \<Rightarrow> goroutine_pool \<Rightarrow> (submitter \<times> goroutine_pool) option" where
  "SubmitWithContext_select c t p =
     (case c of
        CaseSend \<Rightarrow> try_send t p
      | CaseDone \<Rightarrow> Some (S_Rejecting CtxErr, p)
      | CaseStop \<Rightarrow> if gp_stopped p then Some (S_Rejecting ErrGoroutinePoolClosed, p) else None
      | _ \<Rightarrow> None)"

fun submit_select ::
    "bool \<Rightarrow> select_case \<Rightarrow> submit_kind \<Rightarrow> task \<Rightarrow> goroutine_pool \<Rightarrow> (submitter \<times> goroutine_pool) option" where
  "submit_select receiver c Submit t p = Submit_select receiver c t p"
| "submit_select receiver c SubmitWithTimeout t p = SubmitWithTimeout_select c t p"
| "submit_select receiver c SubmitWithContext t p = SubmitWithContext_select c t p"

lemmas submit_defs = Submit_select_def SubmitWithTimeout_select_def SubmitWithContext_select_def send_ready_def try_send_def

text \<open>\<^verbatim>\<open>ensureWorker\<close>: the load, the compare-and-swap, and the start of the goroutine.\<close>

fun ensureWorker :: "submitter \<Rightarrow> goroutine_pool \<Rightarrow> (submitter \<times> goroutine_pool \<times> bool) option" where
  "ensureWorker S_Sent p =
     Some (if gp_workers p < gp_maxWorkers p then S_Loaded (gp_workers p) else S_Returned None, p, False)"
| "ensureWorker (S_Loaded currentWorkers) p =
     Some (if gp_workers p = currentWorkers
           then (S_Swapped, p\<lparr>gp_workers := currentWorkers + 1\<rparr>, False)
           else (S_Returned None, p, False))"
| "ensureWorker S_Swapped p = Some (S_Returned None, p\<lparr>gp_wg := gp_wg p + 1\<rparr>, True)"
| "ensureWorker _ p = None"

text \<open>One step of a caller; the last component tells whether it starts a worker.\<close>

fun submit_step ::
    "bool \<Rightarrow> select_case \<Rightarrow> submitter \<Rightarrow> goroutine_pool \<Rightarrow> (submitter \<times> goroutine_pool \<times> bool) option" where
  "submit_step receiver c (S_Called k t) p =
     Some (if gp_closed p then S_Rejecting ErrGoroutinePoolClosed else S_Counting k t, p, False)"
| "submit_step receiver c (S_Counting k t) p =
     Some (S_Select k t, p\<lparr>gp_submitted := gp_submitted p + 1\<rparr>, False)"
| "submit_step receiver c (S_Select k t) p =
     map_option (\<lambda>(s, p). (s, p, False)) (submit_select receiver c k t p)"
| "submit_step receiver c (S_Rejecting e) p =
     Some (S_Returned (Some e), p\<lparr>gp_rejected := gp_rejected p + 1\<rparr>, False)"
| "submit_step receiver c s p = ensureWorker s p"

section \<open>Workers\<close>

datatype worker_pc =
    W_Select
  | W_Got task
  | W_Run task
  | W_Ran
  | W_Completed
  | W_Timer
  | W_Workers int
  | W_Both int int
  | W_Leaving
  | W_Left
  | W_Exited

datatype worker_case = CaseTask | CaseIdle | CaseStopped

text \<open>\<^verbatim>\<open>executeTask\<close>: count as running, run, then the deferred functions in reverse order.\<close>

fun executeTask :: "worker_pc \<Rightarrow> goroutine_pool \<Rightarrow> (worker_pc \<times> goroutine_pool) option" where
  "executeTask (W_Got t) p = Some (W_Run t, p\<lparr>gp_running := gp_running p + 1\<rparr>)"
| "executeTask (W_Run t) p = Some (W_Ran, p)"
| "executeTask W_Ran p = Some (W_Completed, p\<lparr>gp_completed := gp_completed p + 1\<rparr>)"
| "executeTask W_Completed p = Some (W_Select, p\<lparr>gp_running := gp_running p - 1\<rparr>)"
| "executeTask _ p = None"

fun worker_step :: "worker_case \<Rightarrow> worker_pc \<Rightarrow> goroutine_pool \<Rightarrow> (worker_pc \<times> goroutine_pool) option" where
  "worker_step CaseTask W_Select p =
     (case gp_taskQueue p of
        t # ts \<Rightarrow> Some (W_Got t, p\<lparr>gp_taskQueue := ts\<rparr>)
      | [] \<Rightarrow> if gp_queueClosed p then Some (W_Leaving, p) else None)"
| "worker_step CaseIdle W_Select p = Some (W_Timer, p)"
| "worker_step CaseStopped W_Select p = (if gp_stopped p then Some (W_Leaving, p) else None)"
| "worker_step c W_Timer p = Some (W_Workers (gp_workers p), p)"
| "worker_step c (W_Workers currentWorkers) p = Some (W_Both currentWorkers (gp_running p), p)"
| "worker_step c (W_Both currentWorkers running) p =
     Some (if currentWorkers > 1 \<or> (gp_taskQueue p = [] \<and> running = 0) then W_Leaving else W_Select, p)"
| "worker_step c W_Leaving p = Some (W_Left, p\<lparr>gp_workers := gp_workers p - 1\<rparr>)"
| "worker_step c W_Left p = Some (W_Exited, p\<lparr>gp_wg := gp_wg p - 1\<rparr>)"
| "worker_step c w p = executeTask w p"

section \<open>Closing\<close>

datatype closer = C_Open | C_Stored | C_Stopped | C_Waiting | C_Closed

fun GoroutinePool_Close :: "closer \<Rightarrow> goroutine_pool \<Rightarrow> (closer \<times> goroutine_pool) option" where
  "GoroutinePool_Close C_Open p = Some (C_Stored, p\<lparr>gp_closed := True\<rparr>)"
| "GoroutinePool_Close C_Stored p = Some (C_Stopped, p\<lparr>gp_stopped := True\<rparr>)"
| "GoroutinePool_Close C_Stopped p = Some (C_Waiting, p\<lparr>gp_queueClosed := True\<rparr>)"
| "GoroutinePool_Close C_Waiting p = (if gp_wg p = 0 then Some (C_Closed, p) else None)"
| "GoroutinePool_Close C_Closed p = None"

record goroutine_pool_stats =
  gs_Workers :: int
  gs_Running :: int
  gs_QueueSize :: nat
  gs_Submitted :: "64 word"
  gs_Completed :: "64 word"
  gs_Rejected :: "64 word"
  gs_IsClosed :: bool

definition GoroutinePool_Stats :: "goroutine_pool \<Rightarrow> goroutine_pool_stats" where
  "GoroutinePool_Stats p =
     \<lparr>gs_Workers = gp_workers p, gs_Running = gp_running p, gs_QueueSize = length (gp_taskQueue p),
      gs_Submitted = gp_submitted p, gs_Completed = gp_completed p, gs_Rejected = gp_rejected p,
      gs_IsClosed = gp_closed p\<rparr>"

section \<open>The system\<close>

text \<open>
  All goroutines with the pool, and the history of the tasks that were accepted (sent to the
  channel) and executed. An action names the goroutine that moves.
\<close>

record pool_system =
  sys_pool :: goroutine_pool
  sys_subs :: "submitter list"
  sys_workers :: "worker_pc list"
  sys_closer :: closer
  sys_accepted :: "task list"
  sys_executed :: "task list"

datatype action =
    Call submit_kind task
  | Step nat select_case
  | Handover nat nat
  | Work nat worker_case
  | Closing

fun sending :: "submitter \<Rightarrow> task list" where
  "sending (S_Select k t) = [t]"
| "sending _ = []"

fun executing :: "worker_pc \<Rightarrow> task list" where
  "executing (W_Run t) = [t]"
| "executing _ = []"

fun sys_do :: "action \<Rightarrow> pool_system \<Rightarrow> pool_system option" where
  "sys_do (Call k t) s = Some (s\<lparr>sys_subs := sys_subs s @ [S_Called k t]\<rparr>)"
| "sys_do (Step i c) s =
     (if i < length (sys_subs s) then
        case submit_step (W_Select \<in> set (sys_workers s)) c (sys_subs s ! i) (sys_pool s) of
          None \<Rightarrow> None
        | Some (sub, p, spawn) \<Rightarrow>
            Some (s\<lparr>sys_pool := p, sys_subs := (sys_subs s)[i := sub],
                    sys_workers := sys_workers s @ (if spawn then [W_Select] else []),
                    sys_accepted := sys_accepted s @ (if sub = S_Sent then sending (sys_subs s ! i) else [])\<rparr>)
      else None)"
| "sys_do (Handover i j) s =
     (if i < length (sys_subs s) \<and> j < length (sys_workers s) \<and> sys_workers s ! j = W_Select \<and>
         gp_queueSize (sys_pool s) = 0 \<and> \<not> gp_queueClosed (sys_pool s) then
        case sys_subs s ! i of
          S_Select k t \<Rightarrow>
            Some (s\<lparr>sys_subs := (sys_subs s)[i := S_Sent], sys_workers := (sys_workers s)[j := W_Got t],
                    sys_accepted := sys_accepted s @ [t]\<rparr>)
        | _ \<Rightarrow> None
      else None)"
| "sys_do (Work j c) s =
     (if j < length (sys_workers s) then
        case worker_step c (sys_workers s ! j) (sys_pool s) of
          None \<Rightarrow> None
        | Some (w, p) \<Rightarrow>
            Some (s\<lparr>sys_pool := p, sys_workers := (sys_workers s)[j := w],
                    sys_executed := sys_executed s @ executing (sys_workers s ! j)\<rparr>)
      else None)"
| "sys_do Closing s =
     map_option (\<lambda>(c, p). s\<lparr>sys_closer := c, sys_pool := p\<rparr>) (GoroutinePool_Close (sys_closer s) (sys_pool s))"

definition sys_start :: "goroutine_pool_config \<Rightarrow> pool_system" where
  "sys_start config =
     \<lparr>sys_pool = NewGoroutinePool config, sys_subs = [], sys_workers = [], sys_closer = C_Open,
      sys_accepted = [], sys_executed = []\<rparr>"

inductive sys_reach :: "goroutine_pool_config \<Rightarrow> pool_system \<Rightarrow> bool" for config where
  sys_init: "sys_reach config (sys_start config)"
| sys_act: "\<lbrakk>sys_reach config s; sys_do a s = Some s'\<rbrakk> \<Longrightarrow> sys_reach config s'"

fun sys_run :: "action list \<Rightarrow> pool_system \<Rightarrow> pool_system option" where
  "sys_run [] s = Some s"
| "sys_run (a # as) s = (case sys_do a s of None \<Rightarrow> None | Some s' \<Rightarrow> sys_run as s')"

lemma sys_run_reach: "sys_reach config s \<Longrightarrow> sys_run as s = Some s' \<Longrightarrow> sys_reach config s'"
  by (induction as s rule: sys_run.induct) (auto split: option.splits intro: sys_act)


section \<open>Invariant\<close>

text \<open>Adding up a number per goroutine: what the move of one goroutine does to the sum.\<close>

definition tally :: "('a \<Rightarrow> int) \<Rightarrow> 'a list \<Rightarrow> int" where
  "tally f xs = sum_list (map f xs)"

lemma tally_simps [simp]: "tally f [] = 0" "tally f (xs @ ys) = tally f xs + tally f ys" "tally f (x # xs) = f x + tally f xs"
  by (simp_all add: tally_def)

lemma tally_update: "i < length xs \<Longrightarrow> tally f (xs[i := x]) = tally f xs + f x - f (xs ! i)"
  by (induction xs arbitrary: i) (auto split: nat.splits)

lemma tally_nonneg: "(\<And>x. 0 \<le> f x) \<Longrightarrow> 0 \<le> tally f xs"
  by (induction xs) (auto intro: add_nonneg_nonneg)

lemma tally_mono: "(\<And>x. f x \<le> g x) \<Longrightarrow> tally f xs \<le> tally g xs"
  by (induction xs) (auto intro: add_mono)

lemma tally_pos: "(\<And>x. 0 \<le> f x) \<Longrightarrow> x \<in> set xs \<Longrightarrow> f x \<le> tally f xs"
proof (induction xs)
  case (Cons y ys)
  from Cons.prems(1) [of y] tally_nonneg [of f ys] Cons show ?case by (auto intro: order_trans)
qed simp

text \<open>Workers that count as such, that count as running, that the wait group waits for; the task a worker holds.\<close>

fun is_live :: "worker_pc \<Rightarrow> int" where
  "is_live W_Left = 0"
| "is_live W_Exited = 0"
| "is_live _ = 1"

fun is_running :: "worker_pc \<Rightarrow> int" where
  "is_running (W_Run t) = 1"
| "is_running W_Ran = 1"
| "is_running W_Completed = 1"
| "is_running _ = 0"

fun is_waited :: "worker_pc \<Rightarrow> int" where
  "is_waited W_Exited = 0"
| "is_waited _ = 1"

fun has_ran :: "worker_pc \<Rightarrow> int" where
  "has_ran W_Ran = 1"
| "has_ran _ = 0"

fun holding :: "worker_pc \<Rightarrow> task list" where
  "holding (W_Got t) = [t]"
| "holding (W_Run t) = [t]"
| "holding _ = []"

fun is_swapped :: "submitter \<Rightarrow> int" where
  "is_swapped S_Swapped = 1"
| "is_swapped _ = 0"

fun below_max :: "int \<Rightarrow> submitter \<Rightarrow> bool" where
  "below_max m (S_Loaded w) \<longleftrightarrow> w < m"
| "below_max m _ \<longleftrightarrow> True"

definition occurs :: "task \<Rightarrow> task list \<Rightarrow> int" where
  "occurs t xs = int (count_list xs t)"

lemma occurs_simps [simp]:
  "occurs t [] = 0" "occurs t (xs @ ys) = occurs t xs + occurs t ys"
  "occurs t (x # xs) = (if x = t then 1 else 0) + occurs t xs"
  by (simp_all add: occurs_def)

definition gp_counts :: "pool_system \<Rightarrow> bool" where
  "gp_counts s \<longleftrightarrow>
     gp_workers (sys_pool s) = tally is_live (sys_workers s) + tally is_swapped (sys_subs s) \<and>
     gp_running (sys_pool s) = tally is_running (sys_workers s) \<and>
     gp_wg (sys_pool s) = tally is_waited (sys_workers s) \<and>
     gp_completed (sys_pool s) = word_of_int (int (length (sys_executed s)) - tally has_ran (sys_workers s))"

definition gp_limits :: "goroutine_pool_config \<Rightarrow> pool_system \<Rightarrow> bool" where
  "gp_limits config s \<longleftrightarrow>
     gp_maxWorkers (sys_pool s) = gp_maxWorkers (NewGoroutinePool config) \<and>
     gp_queueSize (sys_pool s) = gp_queueSize (NewGoroutinePool config) \<and>
     gp_workers (sys_pool s) \<le> max 0 (gp_maxWorkers (sys_pool s)) \<and>
     list_all (below_max (gp_maxWorkers (sys_pool s))) (sys_subs s) \<and>
     length (gp_taskQueue (sys_pool s)) \<le> gp_queueSize (sys_pool s)"

definition gp_tasks :: "pool_system \<Rightarrow> bool" where
  "gp_tasks s \<longleftrightarrow>
     (\<forall>t. occurs t (sys_accepted s) =
        occurs t (gp_taskQueue (sys_pool s)) + tally (\<lambda>w. occurs t (holding w)) (sys_workers s) + occurs t (sys_executed s))"

lemma gp_start: "gp_counts (sys_start config)" "gp_limits config (sys_start config)" "gp_tasks (sys_start config)"
  by (simp_all add: gp_counts_def gp_limits_def gp_tasks_def sys_start_def NewGoroutinePool_def Let_def)

lemma list_all_update: "list_all P xs \<Longrightarrow> P x \<Longrightarrow> list_all P (xs[i := x])"
  by (auto simp: list_all_iff dest: set_update_subset_insert [THEN subsetD])

lemma list_all_nth': "list_all P xs \<Longrightarrow> i < length xs \<Longrightarrow> P (xs ! i)"
  by (simp add: list_all_length)


text \<open>The outcomes of a step of a caller and of a worker, one per line of the code.\<close>

lemma try_send_cases:
  assumes "try_send t p = Some (sub', p')"
  shows "sub' = S_Sent \<and> \<not> gp_queueClosed p \<and> length (gp_taskQueue p) < gp_queueSize p \<and>
      p' = p\<lparr>gp_taskQueue := gp_taskQueue p @ [t]\<rparr> \<or>
    sub' = S_Panicked SendOnClosed \<and> gp_queueClosed p \<and> p' = p"
proof (cases "gp_queueClosed p")
  case True
  with assms show ?thesis by (simp add: try_send_def)
next
  case False
  with assms show ?thesis by (cases "length (gp_taskQueue p) < gp_queueSize p") (simp_all add: try_send_def)
qed

lemma submit_select_outcome:
  "submit_select receiver c k t p = Some r \<Longrightarrow> try_send t p = Some r \<or> (\<exists>e. r = (S_Rejecting e, p))"
  by (cases k; cases c)
    (auto simp: Submit_select_def SubmitWithTimeout_select_def SubmitWithContext_select_def split: if_splits)

lemma submit_select_cases:
  assumes "submit_select receiver c k t p = Some (sub', p')"
  shows "sub' = S_Sent \<and> \<not> gp_queueClosed p \<and> length (gp_taskQueue p) < gp_queueSize p \<and>
      p' = p\<lparr>gp_taskQueue := gp_taskQueue p @ [t]\<rparr> \<or>
    sub' = S_Panicked SendOnClosed \<and> gp_queueClosed p \<and> p' = p \<or> (\<exists>e. sub' = S_Rejecting e \<and> p' = p)"
  using submit_select_outcome [OF assms] try_send_cases [of t p sub' p'] by blast

lemma submit_step_cases:
  assumes "submit_step receiver c sub p = Some (sub', p', spawn)"
  obtains
    (checked) k t where "sub = S_Called k t" "sub' = S_Rejecting ErrGoroutinePoolClosed \<or> sub' = S_Counting k t" "p' = p" "\<not> spawn"
  | (counted) k t where "sub = S_Counting k t" "sub' = S_Select k t" "p' = p\<lparr>gp_submitted := gp_submitted p + 1\<rparr>" "\<not> spawn"
  | (sent) k t where "sub = S_Select k t" "sub' = S_Sent" "\<not> gp_queueClosed p" "length (gp_taskQueue p) < gp_queueSize p"
      "p' = p\<lparr>gp_taskQueue := gp_taskQueue p @ [t]\<rparr>" "\<not> spawn"
  | (panicked) k t where "sub = S_Select k t" "sub' = S_Panicked SendOnClosed" "gp_queueClosed p" "p' = p" "\<not> spawn"
  | (refused) k t e where "sub = S_Select k t" "sub' = S_Rejecting e" "p' = p" "\<not> spawn"
  | (rejected) e where "sub = S_Rejecting e" "sub' = S_Returned (Some e)" "p' = p\<lparr>gp_rejected := gp_rejected p + 1\<rparr>" "\<not> spawn"
  | (loaded) "sub = S_Sent" "gp_workers p < gp_maxWorkers p" "sub' = S_Loaded (gp_workers p)" "p' = p" "\<not> spawn"
  | (enough) "sub = S_Sent" "\<not> gp_workers p < gp_maxWorkers p" "sub' = S_Returned None" "p' = p" "\<not> spawn"
  | (swapped) "sub = S_Loaded (gp_workers p)" "sub' = S_Swapped" "p' = p\<lparr>gp_workers := gp_workers p + 1\<rparr>" "\<not> spawn"
  | (raced) w where "sub = S_Loaded w" "w \<noteq> gp_workers p" "sub' = S_Returned None" "p' = p" "\<not> spawn"
  | (started) "sub = S_Swapped" "sub' = S_Returned None" "p' = p\<lparr>gp_wg := gp_wg p + 1\<rparr>" "spawn"
proof (cases sub)
  case (S_Called k t)
  with assms checked [of k t] show thesis by (simp split: if_splits)
next
  case (S_Counting k t)
  with assms counted [of k t] show thesis by simp
next
  case (S_Select k t)
  with assms have sel: "submit_select receiver c k t p = Some (sub', p')" and spawn: "\<not> spawn" by auto
  from submit_select_cases [OF sel] show thesis
  proof (elim disjE conjE exE, goal_cases)
    case 1
    from sent [OF S_Select 1 spawn] show ?case .
  next
    case 2
    from panicked [OF S_Select 2 spawn] show ?case .
  next
    case (3 e)
    from refused [OF S_Select 3 spawn] show ?case .
  qed
next
  case (S_Rejecting e)
  with assms rejected [of e] show thesis by simp
next
  case S_Sent
  show thesis
  proof (cases "gp_workers p < gp_maxWorkers p")
    case True
    with assms S_Sent show thesis by (intro loaded) auto
  next
    case False
    with assms S_Sent show thesis by (intro enough) auto
  qed
next
  case (S_Loaded w)
  with assms swapped raced [of w] show thesis by (simp split: if_splits)
next
  case S_Swapped
  with assms started show thesis by simp
qed (use assms in simp_all)

lemma gp_counts_step:
  assumes "gp_counts s" and "sys_do (Step i c) s = Some s'"
  shows "gp_counts s'"
proof -
  from assms(2) obtain sub p spawn where i: "i < length (sys_subs s)"
    and st: "submit_step (W_Select \<in> set (sys_workers s)) c (sys_subs s ! i) (sys_pool s) = Some (sub, p, spawn)"
    and s': "s' = s\<lparr>sys_pool := p, sys_subs := (sys_subs s)[i := sub],
                    sys_workers := sys_workers s @ (if spawn then [W_Select] else []),
                    sys_accepted := sys_accepted s @ (if sub = S_Sent then sending (sys_subs s ! i) else [])\<rparr>"
    by (auto split: if_splits option.splits)
  from st show ?thesis
    by (cases rule: submit_step_cases) (use assms(1) i in \<open>auto simp: s' gp_counts_def tally_update\<close>)
qed


lemma gp_limits_step:
  assumes "gp_limits config s" and "sys_do (Step i c) s = Some s'"
  shows "gp_limits config s'"
proof -
  from assms(2) obtain sub p spawn where i: "i < length (sys_subs s)"
    and st: "submit_step (W_Select \<in> set (sys_workers s)) c (sys_subs s ! i) (sys_pool s) = Some (sub, p, spawn)"
    and s': "sys_pool s' = p" "sys_subs s' = (sys_subs s)[i := sub]"
    by (auto split: if_splits option.splits)
  have old: "below_max (gp_maxWorkers (sys_pool s)) (sys_subs s ! i)"
    by (rule list_all_nth' [OF _ i]) (use assms(1) in \<open>unfold gp_limits_def, blast\<close>)
  from st show ?thesis
    by (cases rule: submit_step_cases) (use assms(1) old in \<open>auto simp: s' gp_limits_def list_all_update\<close>)
qed

lemma gp_tasks_step:
  assumes "gp_tasks s" and "sys_do (Step i c) s = Some s'"
  shows "gp_tasks s'"
proof -
  from assms(2) obtain sub p spawn where
    st: "submit_step (W_Select \<in> set (sys_workers s)) c (sys_subs s ! i) (sys_pool s) = Some (sub, p, spawn)"
    and s': "s' = s\<lparr>sys_pool := p, sys_subs := (sys_subs s)[i := sub],
                    sys_workers := sys_workers s @ (if spawn then [W_Select] else []),
                    sys_accepted := sys_accepted s @ (if sub = S_Sent then sending (sys_subs s ! i) else [])\<rparr>"
    by (auto split: if_splits option.splits)
  from st show ?thesis
    by (cases rule: submit_step_cases) (use assms(1) in \<open>auto simp: s' gp_tasks_def\<close>)
qed


lemma worker_step_cases:
  assumes "worker_step c w p = Some (w', p')"
  obtains
    (took) t ts where "w = W_Select" "gp_taskQueue p = t # ts" "w' = W_Got t" "p' = p\<lparr>gp_taskQueue := ts\<rparr>"
  | (quiet) "is_live w = 1" "is_live w' = 1" "is_running w = 0" "is_running w' = 0" "is_waited w = 1" "is_waited w' = 1"
      "holding w = []" "holding w' = []" "executing w = []" "has_ran w = 0" "has_ran w' = 0" "p' = p"
  | (start) t where "w = W_Got t" "w' = W_Run t" "p' = p\<lparr>gp_running := gp_running p + 1\<rparr>"
  | (run) t where "w = W_Run t" "w' = W_Ran" "p' = p"
  | (complete) "w = W_Ran" "w' = W_Completed" "p' = p\<lparr>gp_completed := gp_completed p + 1\<rparr>"
  | (finish) "w = W_Completed" "w' = W_Select" "p' = p\<lparr>gp_running := gp_running p - 1\<rparr>"
  | (leave) "w = W_Leaving" "w' = W_Left" "p' = p\<lparr>gp_workers := gp_workers p - 1\<rparr>"
  | (exit) "w = W_Left" "w' = W_Exited" "p' = p\<lparr>gp_wg := gp_wg p - 1\<rparr>"
proof (cases w)
  case W_Select
  show thesis
  proof (cases "c = CaseTask \<and> gp_taskQueue p \<noteq> []")
    case True
    then obtain t ts where "gp_taskQueue p = t # ts" by (cases "gp_taskQueue p") auto
    with assms W_Select True show thesis by (intro took [of t ts]) auto
  next
    case False
    then have "(w' = W_Timer \<or> w' = W_Leaving) \<and> p' = p"
      using assms W_Select by (cases c) (auto split: if_splits list.splits)
    with W_Select show thesis by (intro quiet) auto
  qed
next
  case (W_Both cw r)
  with assms have "(w' = W_Leaving \<or> w' = W_Select) \<and> p' = p" by (auto split: if_splits)
  with W_Both show thesis by (intro quiet) auto
next
  case (W_Got t)
  with assms show thesis by (intro start [of t]) auto
next
  case (W_Run t)
  with assms show thesis by (intro run [of t]) auto
next
  case W_Ran
  with assms show thesis by (intro complete) auto
next
  case W_Completed
  with assms show thesis by (intro finish) auto
next
  case W_Timer
  with assms show thesis by (intro quiet) auto
next
  case (W_Workers cw)
  with assms show thesis by (intro quiet) auto
next
  case W_Leaving
  with assms show thesis by (intro leave) auto
next
  case W_Left
  with assms show thesis by (intro exit) auto
qed (use assms in simp)

lemma gp_counts_work:
  assumes "gp_counts s" and "sys_do (Work j c) s = Some s'"
  shows "gp_counts s'"
proof -
  from assms(2) obtain w p where j: "j < length (sys_workers s)"
    and st: "worker_step c (sys_workers s ! j) (sys_pool s) = Some (w, p)"
    and s': "s' = s\<lparr>sys_pool := p, sys_workers := (sys_workers s)[j := w],
                    sys_executed := sys_executed s @ executing (sys_workers s ! j)\<rparr>"
    by (auto split: if_splits option.splits)
  from st show ?thesis
    by (cases rule: worker_step_cases) (use assms(1) j in \<open>auto simp: s' gp_counts_def tally_update algebra_simps\<close>)
qed

lemma gp_limits_work: "gp_limits config s \<Longrightarrow> sys_do (Work j c) s = Some s' \<Longrightarrow> gp_limits config s'"
  by (auto split: if_splits option.splits elim!: worker_step_cases simp: gp_limits_def)

lemma gp_tasks_work:
  assumes "gp_tasks s" and "sys_do (Work j c) s = Some s'"
  shows "gp_tasks s'"
proof -
  from assms(2) obtain w p where j: "j < length (sys_workers s)"
    and st: "worker_step c (sys_workers s ! j) (sys_pool s) = Some (w, p)"
    and s': "s' = s\<lparr>sys_pool := p, sys_workers := (sys_workers s)[j := w],
                    sys_executed := sys_executed s @ executing (sys_workers s ! j)\<rparr>"
    by (auto split: if_splits option.splits)
  from st show ?thesis
    by (cases rule: worker_step_cases) (use assms(1) j in \<open>auto simp: s' gp_tasks_def tally_update\<close>)
qed

lemma gp_close:
  assumes "sys_do Closing s = Some s'"
  shows "gp_counts s \<Longrightarrow> gp_counts s'" "gp_limits config s \<Longrightarrow> gp_limits config s'" "gp_tasks s \<Longrightarrow> gp_tasks s'"
  using assms by (cases "sys_closer s"; auto simp: gp_counts_def gp_limits_def gp_tasks_def split: if_splits)+

lemma gp_handover:
  assumes "sys_do (Handover i j) s = Some s'"
  shows "gp_counts s \<Longrightarrow> gp_counts s'" "gp_limits config s \<Longrightarrow> gp_limits config s'" "gp_tasks s \<Longrightarrow> gp_tasks s'"
  using assms
  by (auto simp: gp_counts_def gp_limits_def gp_tasks_def tally_update list_all_update split: if_splits submitter.splits)

lemma sys_reach_inv:
  assumes "sys_reach config s"
  shows "gp_counts s \<and> gp_limits config s \<and> gp_tasks s"
  using assms
proof (induction rule: sys_reach.induct)
  case (sys_act s a s')
  show ?case
  proof (cases a)
    case (Call k t)
    with sys_act show ?thesis by (auto simp: gp_counts_def gp_limits_def gp_tasks_def)
  next
    case (Step i c)
    with sys_act show ?thesis by (blast intro: gp_counts_step gp_limits_step gp_tasks_step)
  next
    case (Handover i j)
    with sys_act show ?thesis by (blast intro: gp_handover)
  next
    case (Work j c)
    with sys_act show ?thesis by (blast intro: gp_counts_work gp_limits_work gp_tasks_work)
  next
    case Closing
    with sys_act show ?thesis by (blast intro: gp_close)
  qed
qed (simp add: gp_start)

text \<open>The tasks in the hands of the workers, as a multiset.\<close>

lemma occurs_count: "occurs t xs = int (count (mset xs) t)"
  by (induction xs) (auto simp: occurs_def)

lemma tally_holding: "tally (\<lambda>w. occurs t (holding w)) ws = int (count (mset (concat (map holding ws))) t)"
  by (induction ws) (simp_all add: occurs_count)


lemma gp_tasks_mset:
  assumes "gp_tasks s"
  shows "mset (sys_accepted s) =
    mset (gp_taskQueue (sys_pool s)) + mset (concat (map holding (sys_workers s))) + mset (sys_executed s)"
proof (rule multiset_eqI)
  fix t
  from assms have "int (count (mset (sys_accepted s)) t) = int (count (mset (gp_taskQueue (sys_pool s))) t) +
      int (count (mset (concat (map holding (sys_workers s)))) t) + int (count (mset (sys_executed s)) t)"
    unfolding gp_tasks_def tally_holding by (simp only: occurs_count)
  then show "count (mset (sys_accepted s)) t =
      count (mset (gp_taskQueue (sys_pool s)) + mset (concat (map holding (sys_workers s))) + mset (sys_executed s)) t"
    by (simp only: count_union)
qed

lemma running_le_live: "is_running w \<le> is_live w"
  by (cases w) auto

lemma is_nonneg: "0 \<le> is_running w" "0 \<le> is_live w" "0 \<le> is_swapped sub"
  by (cases w; simp)+ (cases sub; simp)

text \<open>Without capacity nothing is ever sent, because only a send starts a worker.\<close>

fun not_sent :: "submitter \<Rightarrow> bool" where
  "not_sent S_Sent \<longleftrightarrow> False"
| "not_sent (S_Loaded w) \<longleftrightarrow> False"
| "not_sent S_Swapped \<longleftrightarrow> False"
| "not_sent (S_Returned r) \<longleftrightarrow> r \<noteq> None"
| "not_sent _ \<longleftrightarrow> True"

definition gp_idle :: "pool_system \<Rightarrow> bool" where
  "gp_idle s \<longleftrightarrow> gp_queueSize (sys_pool s) = 0 \<and> sys_workers s = [] \<and> sys_accepted s = [] \<and> list_all not_sent (sys_subs s)"

lemma gp_idle_step:
  assumes "gp_idle s" and "sys_do (Step i c) s = Some s'"
  shows "gp_idle s'"
proof -
  from assms(2) obtain sub p spawn where i: "i < length (sys_subs s)"
    and st: "submit_step (W_Select \<in> set (sys_workers s)) c (sys_subs s ! i) (sys_pool s) = Some (sub, p, spawn)"
    and s': "s' = s\<lparr>sys_pool := p, sys_subs := (sys_subs s)[i := sub],
                    sys_workers := sys_workers s @ (if spawn then [W_Select] else []),
                    sys_accepted := sys_accepted s @ (if sub = S_Sent then sending (sys_subs s ! i) else [])\<rparr>"
    by (auto split: if_splits option.splits)
  have old: "not_sent (sys_subs s ! i)"
    using assms(1) i by (simp add: gp_idle_def list_all_nth')
  from st show ?thesis
    by (cases rule: submit_step_cases) (use assms(1) old in \<open>auto simp: s' gp_idle_def list_all_update\<close>)
qed

lemma gp_idle_close: "gp_idle s \<Longrightarrow> sys_do Closing s = Some s' \<Longrightarrow> gp_idle s'"
  by (cases "sys_closer s") (auto simp: gp_idle_def split: if_splits)

lemma sys_reach_idle:
  assumes "sys_reach config s" and "gc_QueueSize config \<le> 0"
  shows "gp_idle s"
  using assms
proof (induction rule: sys_reach.induct)
  case sys_init
  then show ?case by (simp add: gp_idle_def sys_start_def NewGoroutinePool_def Let_def)
next
  case (sys_act s a s')
  then have idle: "gp_idle s" by simp
  show ?case
  proof (cases a)
    case (Call k t)
    with sys_act.hyps idle show ?thesis by (auto simp: gp_idle_def)
  next
    case (Step i c)
    with sys_act.hyps idle show ?thesis by (blast intro: gp_idle_step)
  next
    case (Handover i j)
    with sys_act.hyps idle show ?thesis by (auto simp: gp_idle_def)
  next
    case (Work j c)
    with sys_act.hyps idle show ?thesis by (auto simp: gp_idle_def)
  next
    case Closing
    with sys_act.hyps idle show ?thesis by (blast intro: gp_idle_close)
  qed
qed

text \<open>A schedule in which the only worker decides to leave just before a task is sent.\<close>

definition stranding :: "task \<Rightarrow> task \<Rightarrow> action list" where
  "stranding t t' =
     [Call Submit t, Step 0 CaseSend, Step 0 CaseSend, Step 0 CaseSend, Step 0 CaseSend, Step 0 CaseSend, Step 0 CaseSend,
      Work 0 CaseTask, Work 0 CaseTask, Work 0 CaseTask, Work 0 CaseTask, Work 0 CaseTask,
      Work 0 CaseIdle, Work 0 CaseTask, Work 0 CaseTask, Work 0 CaseTask,
      Call Submit t', Step 1 CaseSend, Step 1 CaseSend, Step 1 CaseSend, Step 1 CaseSend,
      Work 0 CaseTask, Work 0 CaseTask]"

lemma stranding_run:
  assumes "gc_MaxWorkers config = 1" and "0 < gc_QueueSize config"
  shows "\<exists>s. sys_run (stranding t t') (sys_start config) = Some s \<and> \<not> gp_closed (sys_pool s) \<and>
    gp_taskQueue (sys_pool s) = [t'] \<and> gp_workers (sys_pool s) = 0 \<and> sys_executed s = [t] \<and>
    sys_subs s = [S_Returned None, S_Returned None] \<and> sys_workers s = [W_Exited]"
  using assms by (cases "gc_NonBlocking config") (simp_all add: stranding_def sys_start_def NewGoroutinePool_def submit_defs Let_def)

lemma stuck_without_goroutines:
  assumes "sys_subs s = [S_Returned None, S_Returned None]" and "sys_workers s = [W_Exited]" and "sys_do a s = Some s'"
  shows "(\<exists>k t. a = Call k t) \<or> a = Closing"
proof (cases a)
  case (Step i c)
  with assms show ?thesis by (cases i) (auto split: if_splits simp: less_Suc_eq)
next
  case (Handover i j)
  with assms show ?thesis by (auto split: if_splits)
next
  case (Work j c)
  with assms show ?thesis by (auto split: if_splits)
qed auto

text \<open>A caller that saw the pool open and enters its \<^verbatim>\<open>select\<close> after the channel was closed panics.\<close>

lemma submit_races_with_close:
  "\<exists>s. sys_reach config s \<and> S_Panicked SendOnClosed \<in> set (sys_subs s)"
proof -
  have "\<exists>s. sys_run [Call Submit 0, Step 0 CaseSend, Step 0 CaseSend, Closing, Closing, Closing, Step 0 CaseSend]
      (sys_start config) = Some s \<and> S_Panicked SendOnClosed \<in> set (sys_subs s)"
    by (simp add: sys_start_def NewGoroutinePool_def submit_defs Let_def)
  then show ?thesis using sys_run_reach sys_init by blast
qed

section \<open>Properties\<close>

text \<open>
  C7: No task is lost or run twice. In every interleaving of callers, workers and closing, the
  tasks accepted so far are exactly those in the queue, those a worker has taken and not yet run,
  and those executed, each as often as it was accepted; and the queue stays within its capacity.
\<close>

theorem accepted_tasks_accounted:
  assumes "sys_reach config s"
  shows "mset (sys_accepted s) =
      mset (gp_taskQueue (sys_pool s)) + mset (concat (map holding (sys_workers s))) + mset (sys_executed s) \<and>
    length (gp_taskQueue (sys_pool s)) \<le> gp_queueSize (NewGoroutinePool config)"
  using sys_reach_inv [OF assms] gp_tasks_mset [of s] by (simp add: gp_limits_def)

definition demo_config :: goroutine_pool_config where
  "demo_config = DefaultGoroutinePoolConfig\<lparr>gc_MaxWorkers := 1, gc_QueueSize := 1\<rparr>"

theorem accepted_tasks_accounted_witness:
  "\<exists>s. sys_reach demo_config s \<and> mset (sys_accepted s) = {#7, 8#} \<and> sys_executed s = [7]"
proof -
  obtain s where "sys_run (stranding 7 8) (sys_start demo_config) = Some s" "gp_taskQueue (sys_pool s) = [8]"
    "sys_executed s = [7]" "sys_workers s = [W_Exited]"
    using stranding_run [of demo_config 7 8] by (auto simp: demo_config_def DefaultGoroutinePoolConfig_def)
  moreover from this(1) have r: "sys_reach demo_config s" by (rule sys_run_reach [OF sys_init])
  ultimately show ?thesis using accepted_tasks_accounted [OF r] by (auto simp: add_mset_commute)
qed



text \<open>
  The counters mean what they say. The worker count is the number of workers that have not
  begun to leave plus the callers about to start one; it never exceeds the maximum although
  callers race, and the number of running tasks is the number of workers inside a task and at
  most the worker count. The wait group counts the workers not gone, and the completed count is
  the number of tasks run and counted, modulo its width.
\<close>

theorem pool_counters_exact:
  assumes "sys_reach config s"
  shows "gs_Workers (GoroutinePool_Stats (sys_pool s)) = tally is_live (sys_workers s) + tally is_swapped (sys_subs s) \<and>
    gs_Running (GoroutinePool_Stats (sys_pool s)) = tally is_running (sys_workers s) \<and>
    0 \<le> gs_Running (GoroutinePool_Stats (sys_pool s)) \<and>
    gs_Running (GoroutinePool_Stats (sys_pool s)) \<le> gs_Workers (GoroutinePool_Stats (sys_pool s)) \<and>
    gs_Workers (GoroutinePool_Stats (sys_pool s)) \<le> max 0 (gp_maxWorkers (NewGoroutinePool config)) \<and>
    gp_wg (sys_pool s) = tally is_waited (sys_workers s) \<and>
    gs_Completed (GoroutinePool_Stats (sys_pool s)) =
      word_of_int (int (length (sys_executed s)) - tally has_ran (sys_workers s))"
proof -
  have "tally is_running (sys_workers s) \<le> tally is_live (sys_workers s)" "0 \<le> tally is_running (sys_workers s)"
    "0 \<le> tally is_swapped (sys_subs s)"
    by (simp_all add: tally_mono tally_nonneg running_le_live is_nonneg)
  with sys_reach_inv [OF assms] show ?thesis
    by (auto simp: gp_counts_def gp_limits_def GoroutinePool_Stats_def)
qed

theorem pool_counters_exact_witness:
  "\<exists>s. sys_reach demo_config s \<and> gs_Completed (GoroutinePool_Stats (sys_pool s)) = 1"
proof -
  obtain s where "sys_run (stranding 7 8) (sys_start demo_config) = Some s"
    "sys_executed s = [7]" "sys_workers s = [W_Exited]"
    using stranding_run [of demo_config 7 8] by (auto simp: demo_config_def DefaultGoroutinePoolConfig_def)
  moreover from this(1) have r: "sys_reach demo_config s" by (rule sys_run_reach [OF sys_init])
  ultimately show ?thesis using pool_counters_exact [OF r] by auto
qed

text \<open>
  A queued task can be stranded. With one worker allowed, the worker may find the queue empty
  and decide to leave just before a task is sent: the caller still counts the worker and starts
  none. Its task was accepted without an error and stays in the open pool's queue; no goroutine
  of the pool can move until another task is submitted or the pool is closed.
\<close>

theorem queued_task_stranded:
  assumes "gc_MaxWorkers config = 1" and "0 < gc_QueueSize config"
  shows "\<exists>s. sys_reach config s \<and> \<not> gp_closed (sys_pool s) \<and> gp_taskQueue (sys_pool s) = [t'] \<and>
    sys_executed s = [t] \<and> sys_subs s = [S_Returned None, S_Returned None] \<and>
    (\<forall>a s'. sys_do a s = Some s' \<longrightarrow> (\<exists>k t. a = Call k t) \<or> a = Closing)"
proof -
  obtain s where s: "sys_run (stranding t t') (sys_start config) = Some s" "\<not> gp_closed (sys_pool s)"
    "gp_taskQueue (sys_pool s) = [t']" "sys_executed s = [t]" "sys_subs s = [S_Returned None, S_Returned None]"
    "sys_workers s = [W_Exited]"
    using stranding_run [OF assms] by blast
  from sys_run_reach [OF sys_init s(1)] s(2-5) stuck_without_goroutines [OF s(5,6)] show ?thesis by blast
qed

theorem queued_task_stranded_witness:
  "\<exists>s. sys_reach demo_config s \<and> gp_taskQueue (sys_pool s) = [8] \<and> sys_executed s = [7]"
  using queued_task_stranded [of demo_config 8 7] by (auto simp: demo_config_def DefaultGoroutinePoolConfig_def)

text \<open>
  A pool whose queue has no capacity accepts nothing. A worker is started only after a task
  was sent, and a send without capacity needs a worker: with a queue size of zero (or less) no
  task is ever accepted, no worker ever started, and no submission returns without an error.
\<close>

theorem unbuffered_pool_accepts_nothing:
  assumes "sys_reach config s" and "gc_QueueSize config \<le> 0"
  shows "sys_accepted s = [] \<and> sys_workers s = [] \<and> S_Returned None \<notin> set (sys_subs s)"
  using sys_reach_idle [OF assms] by (auto simp: gp_idle_def list_all_iff)

theorem unbuffered_pool_accepts_nothing_witness:
  "sys_workers (sys_start (DefaultGoroutinePoolConfig\<lparr>gc_QueueSize := 0\<rparr>)) = []"
  using unbuffered_pool_accepts_nothing [OF sys_init [of "DefaultGoroutinePoolConfig\<lparr>gc_QueueSize := 0\<rparr>"]] by simp



end
