(* ===== verification/Interner.thy ===== *)
theory Interner
  imports Prelude
begin

text \<open>
  String interning (\<^verbatim>\<open>pkg/optimize/stringintern.go\<close>): the interner with its bound, its eviction
  and its statistics, the interner of header names, and the comparisons of \<^verbatim>\<open>ByteString\<close>.

  A string is its bytes, so the model does not see whether two equal strings share storage;
  what it does see is which strings the map holds. \<^verbatim>\<open>evictLRU\<close> ranges over a Go map, whose
  order is unspecified: the order in which the keys come is an argument, any permutation of
  the keys. \<^verbatim>\<open>Intern\<close> takes its lock twice; the two critical sections are separate definitions,
  and between them other goroutines may run. \<^verbatim>\<open>Hits\<close>, \<^verbatim>\<open>Misses\<close> and \<^verbatim>\<open>Evictions\<close> are words.
\<close>

section \<open>The interner\<close>

record intern_stats =
  is_Hits :: "64 word"
  is_Misses :: "64 word"
  is_Evictions :: "64 word"
  is_TotalSize :: int
  is_UniqueKeys :: int

definition zero_stats :: intern_stats where
  "zero_stats = \<lparr>is_Hits = 0, is_Misses = 0, is_Evictions = 0, is_TotalSize = 0, is_UniqueKeys = 0\<rparr>"

record string_interner =
  si_strings :: "(string, string) gomap"
  si_maxSize :: int
  si_stats :: intern_stats

definition NewStringInterner :: "int \<Rightarrow> string_interner" where
  "NewStringInterner maxSize =
     (let maxSize = (if maxSize \<le> 0 then 10000 else maxSize)
      in \<lparr>si_strings = [], si_maxSize = maxSize, si_stats = zero_stats\<rparr>)"

definition count_hit :: "string_interner \<Rightarrow> string_interner" where
  "count_hit si = si\<lparr>si_stats := (si_stats si)\<lparr>is_Hits := is_Hits (si_stats si) + 1\<rparr>\<rparr>"

text \<open>The first critical section of \<^verbatim>\<open>Intern\<close>: \<open>None\<close> when the string is not there.\<close>

definition Intern_fast :: "string \<Rightarrow> string_interner \<Rightarrow> (string \<times> string_interner) option" where
  "Intern_fast s si =
     (case gm_get (si_strings si) s of
        Some interned \<Rightarrow> Some (interned, count_hit si)
      | None \<Rightarrow> None)"

fun evict_loop :: "int \<Rightarrow> int \<Rightarrow> string list \<Rightarrow> string_interner \<Rightarrow> int \<times> string_interner" where
  "evict_loop toEvict evicted [] si = (evicted, si)"
| "evict_loop toEvict evicted (key # keys) si =
     (let si = si\<lparr>si_strings := gm_del key (si_strings si),
                  si_stats := (si_stats si)\<lparr>is_TotalSize := is_TotalSize (si_stats si) - int (length key)\<rparr>\<rparr>;
          evicted = evicted + 1
      in if evicted \<ge> toEvict then (evicted, si) else evict_loop toEvict evicted keys si)"

definition evictLRU :: "string list \<Rightarrow> string_interner \<Rightarrow> string_interner" where
  "evictLRU order si =
     (let toEvict = go_quot (si_maxSize si) 10;
          toEvict = (if toEvict = 0 then 1 else toEvict);
          (evicted, si) = evict_loop toEvict 0 order si
      in si\<lparr>si_stats := (si_stats si)\<lparr>is_Evictions := is_Evictions (si_stats si) + word_of_int evicted,
                                     is_UniqueKeys := int (length (si_strings si))\<rparr>\<rparr>)"

text \<open>The second critical section.\<close>

definition Intern_slow :: "string list \<Rightarrow> string \<Rightarrow> string_interner \<Rightarrow> string \<times> string_interner" where
  "Intern_slow order s si =
     (case gm_get (si_strings si) s of
        Some interned \<Rightarrow> (interned, count_hit si)
      | None \<Rightarrow>
          let si = (if int (length (si_strings si)) \<ge> si_maxSize si then evictLRU order si else si);
              si = si\<lparr>si_strings := gm_set s s (si_strings si)\<rparr>;
              st = si_stats si
          in (s, si\<lparr>si_stats := st\<lparr>is_Misses := is_Misses st + 1,
                                    is_TotalSize := is_TotalSize st + int (length s),
                                    is_UniqueKeys := int (length (si_strings si))\<rparr>\<rparr>))"

definition Intern :: "string list \<Rightarrow> string \<Rightarrow> string_interner \<Rightarrow> string \<times> string_interner" where
  "Intern order s si =
     (case Intern_fast s si of Some r \<Rightarrow> r | None \<Rightarrow> Intern_slow order s si)"

definition StringInterner_Clear :: "string_interner \<Rightarrow> string_interner" where
  "StringInterner_Clear si = si\<lparr>si_strings := [], si_stats := zero_stats\<rparr>"

definition StringInterner_Stats :: "string_interner \<Rightarrow> intern_stats" where
  "StringInterner_Stats si = (si_stats si)\<lparr>is_UniqueKeys := int (length (si_strings si))\<rparr>"

definition StringInterner_Size :: "string_interner \<Rightarrow> int" where
  "StringInterner_Size si = int (length (si_strings si))"

definition StringInterner_Contains :: "string \<Rightarrow> string_interner \<Rightarrow> bool" where
  "StringInterner_Contains s si \<longleftrightarrow> gm_get (si_strings si) s \<noteq> None"

section \<open>Header names\<close>

definition commonHeaders :: "string list" where
  "commonHeaders =
     [''Accept'', ''Accept-Encoding'', ''Accept-Language'', ''Authorization'', ''Cache-Control'',
      ''Connection'', ''Content-Encoding'', ''Content-Length'', ''Content-Type'', ''Cookie'', ''Date'',
      ''Host'', ''If-Modified-Since'', ''If-None-Match'', ''Last-Modified'', ''Location'', ''Referer'',
      ''Server'', ''Set-Cookie'', ''Transfer-Encoding'', ''User-Agent'', ''Vary'', ''X-Forwarded-For'',
      ''X-Forwarded-Proto'', ''X-Real-IP'', ''X-Request-ID'']"

text \<open>Fewer headers than the bound are interned, so no eviction order is needed.\<close>

definition NewHTTPHeaderInterner :: string_interner where
  "NewHTTPHeaderInterner =
     fold (\<lambda>header si. snd (Intern (map fst (si_strings si)) header si)) commonHeaders (NewStringInterner 1000)"

section \<open>Byte strings\<close>

text \<open>The loop of \<^verbatim>\<open>Equal\<close> and of \<^verbatim>\<open>EqualBytes\<close>, from index \<open>i\<close>.\<close>

function equal_from :: "nat \<Rightarrow> 'a list \<Rightarrow> 'a list \<Rightarrow> bool" where
  "equal_from i bs s =
     (if \<not> i < length bs then True
      else if bs ! i \<noteq> s ! i then False
      else equal_from (i + 1) bs s)"
  by pat_completeness auto

termination
  by (relation "measure (\<lambda>(i, bs, s). length bs - i)") auto

declare equal_from.simps [simp del]

definition ByteString_Equal :: "'a list \<Rightarrow> 'a list \<Rightarrow> bool" where
  "ByteString_Equal bs s = (if length bs \<noteq> length s then False else equal_from 0 bs s)"

section \<open>Invariant\<close>

text \<open>Every interleaving of critical sections of any number of clients.\<close>

inductive in_reach :: "string_interner \<Rightarrow> bool" where
  in_new: "in_reach (NewStringInterner maxSize)"
| in_fast: "\<lbrakk>in_reach si; Intern_fast s si = Some (r, si')\<rbrakk> \<Longrightarrow> in_reach si'"
| in_slow: "\<lbrakk>in_reach si; mset order = mset (map fst (si_strings si)); Intern_slow order s si = (r, si')\<rbrakk> \<Longrightarrow> in_reach si'"
| in_clear: "in_reach si \<Longrightarrow> in_reach (StringInterner_Clear si)"

definition total_length :: "(string, string) gomap \<Rightarrow> int" where
  "total_length m = gm_sum (\<lambda>v. int (length v)) m"

definition in_map :: "string_interner \<Rightarrow> bool" where
  "in_map si \<longleftrightarrow>
     gm_wf (si_strings si) \<and> (\<forall>e \<in> set (si_strings si). snd e = fst e) \<and>
     is_TotalSize (si_stats si) = total_length (si_strings si) \<and> 0 < si_maxSize si"

definition in_inv :: "string_interner \<Rightarrow> bool" where
  "in_inv si \<longleftrightarrow>
     in_map si \<and> int (length (si_strings si)) \<le> si_maxSize si \<and>
     is_UniqueKeys (si_stats si) = int (length (si_strings si)) \<and>
     is_Misses (si_stats si) = is_Evictions (si_stats si) + word_of_nat (length (si_strings si))"

lemma in_map_get: "in_map si \<Longrightarrow> gm_get (si_strings si) s = Some v \<Longrightarrow> v = s"
  by (drule gm_get_Some_in) (auto simp: in_map_def)

lemma in_map_get_self: "in_map si \<Longrightarrow> k \<in> fst ` set (si_strings si) \<Longrightarrow> gm_get (si_strings si) k = Some k"
  using in_map_get [of si k] by (cases "gm_get (si_strings si) k") (auto simp: gm_get_None_iff)

lemma fst_set_gm_del: "fst ` set (gm_del k m) = fst ` set m - {k}"
  by (auto simp: gm_del_def)

lemma length_gm_del:
  assumes "gm_wf m" and "k \<in> fst ` set m"
  shows "length m = Suc (length (gm_del k m))"
proof -
  have "card (fst ` set m) = length m" "card (fst ` set (gm_del k m)) = length (gm_del k m)"
    using assms(1) gm_wf_del [OF assms(1), of k] by (simp_all add: gm_wf_def distinct_card flip: set_map)
  with assms(2) show ?thesis by (metis card_Suc_Diff1 finite_imageI finite_set fst_set_gm_del)
qed

text \<open>What the eviction loop removes: the first keys of the order, one entry and its length each.\<close>

lemma evict_loop_spec:
  assumes "in_map si" and "distinct order" and "set order \<subseteq> fst ` set (si_strings si)"
    and "evict_loop toEvict evicted order si = (n, si')"
  shows "in_map si' \<and> si_maxSize si' = si_maxSize si \<and> evicted \<le> n \<and>
    int (length (si_strings si')) = int (length (si_strings si)) - (n - evicted) \<and>
    fst ` set (si_strings si') \<subseteq> fst ` set (si_strings si) \<and>
    is_Misses (si_stats si') = is_Misses (si_stats si) \<and> is_Evictions (si_stats si') = is_Evictions (si_stats si) \<and>
    (order \<noteq> [] \<longrightarrow> evicted < n)"
  using assms
proof (induction toEvict evicted order si rule: evict_loop.induct)
  case (2 toEvict evicted key keys si)
  define si1 where "si1 = si\<lparr>si_strings := gm_del key (si_strings si),
                  si_stats := (si_stats si)\<lparr>is_TotalSize := is_TotalSize (si_stats si) - int (length key)\<rparr>\<rparr>"
  from 2(4) have mem: "key \<in> fst ` set (si_strings si)" by simp
  note len = length_gm_del [OF _ mem]
  have map1: "in_map si1"
    using 2(2) in_map_get_self [OF 2(2) mem]
    by (auto simp: si1_def in_map_def total_length_def gm_sum_del) (auto simp: gm_del_def)
  have keys: "set keys \<subseteq> fst ` set (si_strings si1)" "fst ` set (si_strings si1) \<subseteq> fst ` set (si_strings si)"
    using 2(3,4) by (auto simp: si1_def fst_set_gm_del)
  have step: "evict_loop toEvict evicted (key # keys) si =
      (if evicted + 1 \<ge> toEvict then (evicted + 1, si1) else evict_loop toEvict (evicted + 1) keys si1)"
    by (simp add: si1_def Let_def)
  show ?case
  proof (cases "evicted + 1 \<ge> toEvict")
    case True
    with 2(2,5) step map1 keys len show ?thesis by (auto simp: si1_def in_map_def)
  next
    case False
    with 2(5) step have "evict_loop toEvict (evicted + 1) keys si1 = (n, si')" by simp
    with 2(1) [of si1 "evicted + 1"] False map1 keys 2(3)
    have IH: "in_map si' \<and> si_maxSize si' = si_maxSize si1 \<and> evicted + 1 \<le> n \<and>
      int (length (si_strings si')) = int (length (si_strings si1)) - (n - (evicted + 1)) \<and>
      fst ` set (si_strings si') \<subseteq> fst ` set (si_strings si1) \<and>
      is_Misses (si_stats si') = is_Misses (si_stats si1) \<and> is_Evictions (si_stats si') = is_Evictions (si_stats si1)"
      by (simp add: si1_def)
    then have "fst ` set (si_strings si') \<subseteq> fst ` set (si_strings si)" using keys(2) by (meson order_trans)
    with IH 2(2) len show ?thesis by (simp add: si1_def in_map_def)
  qed
qed auto

lemma evictLRU_inv:
  assumes "in_inv si" and "mset order = mset (map fst (si_strings si))" and "si_strings si \<noteq> []"
  shows "in_inv (evictLRU order si) \<and> length (si_strings (evictLRU order si)) < length (si_strings si) \<and>
    fst ` set (si_strings (evictLRU order si)) \<subseteq> fst ` set (si_strings si) \<and>
    si_maxSize (evictLRU order si) = si_maxSize si"
proof -
  define toEvict where "toEvict = (if go_quot (si_maxSize si) 10 = 0 then 1 else go_quot (si_maxSize si) 10)"
  obtain n si' where loop: "evict_loop toEvict 0 order si = (n, si')" by fastforce
  from assms have "distinct order" "set order = fst ` set (si_strings si)" "order \<noteq> []"
    using mset_eq_imp_distinct_iff [OF assms(2)] mset_eq_setD [OF assms(2)]
    by (auto simp: in_inv_def in_map_def gm_wf_def)
  with evict_loop_spec [OF _ _ _ loop] assms(1) have spec: "in_map si'" "si_maxSize si' = si_maxSize si" "0 < n"
    "int (length (si_strings si')) = int (length (si_strings si)) - n"
    "fst ` set (si_strings si') \<subseteq> fst ` set (si_strings si)"
    "is_Misses (si_stats si') = is_Misses (si_stats si)" "is_Evictions (si_stats si') = is_Evictions (si_stats si)"
    by (auto simp: in_inv_def)
  have res: "evictLRU order si = si'\<lparr>si_stats := (si_stats si')\<lparr>is_Evictions := is_Evictions (si_stats si') + word_of_int n,
                                     is_UniqueKeys := int (length (si_strings si'))\<rparr>\<rparr>"
    using loop by (simp add: evictLRU_def toEvict_def Let_def)
  have "word_of_int n + word_of_nat (length (si_strings si')) = (word_of_nat (length (si_strings si)) :: 64 word)"
    using spec(4) by (metis add.commute diff_add_cancel of_int_add of_int_of_nat_eq)
  with spec assms(1) show ?thesis
    by (auto simp: res in_inv_def in_map_def add.assoc)
qed

lemma in_inv_hit: "in_inv si \<Longrightarrow> in_inv (count_hit si)"
  by (simp add: in_inv_def in_map_def count_hit_def)

lemma in_inv_add:
  assumes "in_inv si" and "gm_get (si_strings si) s = None" and "int (length (si_strings si)) < si_maxSize si"
  shows "in_inv (si\<lparr>si_strings := gm_set s s (si_strings si), si_stats := (si_stats si)\<lparr>is_Misses := is_Misses (si_stats si) + 1,
      is_TotalSize := is_TotalSize (si_stats si) + int (length s),
      is_UniqueKeys := int (length (gm_set s s (si_strings si)))\<rparr>\<rparr>)"
  using assms by (auto simp: in_inv_def in_map_def total_length_def gm_sum_def gm_set_new gm_wf_def gm_get_None_iff)

lemma Intern_slow_spec:
  assumes inv: "in_inv si" and ord: "mset order = mset (map fst (si_strings si))"
  shows "fst (Intern_slow order s si) = s \<and> in_inv (snd (Intern_slow order s si)) \<and>
    gm_get (si_strings (snd (Intern_slow order s si))) s = Some s"
proof (cases "gm_get (si_strings si) s")
  case (Some v)
  with inv in_map_get [of si s v] show ?thesis
    by (simp add: Intern_slow_def in_inv_hit) (simp add: in_inv_def count_hit_def)
next
  case None
  let ?si = "if int (length (si_strings si)) \<ge> si_maxSize si then evictLRU order si else si"
  have e: "in_inv ?si \<and> int (length (si_strings ?si)) < si_maxSize ?si \<and> gm_get (si_strings ?si) s = None"
  proof (cases "int (length (si_strings si)) \<ge> si_maxSize si")
    case True
    with inv have "si_strings si \<noteq> []" by (auto simp: in_inv_def in_map_def)
    from evictLRU_inv [OF inv ord this] True None inv show ?thesis
      by (auto simp: gm_get_None_iff in_inv_def)
  next
    case False
    with inv None show ?thesis by simp
  qed
  with in_inv_add [of ?si s] None show ?thesis by (simp add: Intern_slow_def Let_def)
qed

lemma in_reach_inv: "in_reach si \<Longrightarrow> in_inv si"
proof (induction rule: in_reach.induct)
  case (in_new maxSize)
  show ?case by (simp add: NewStringInterner_def in_inv_def in_map_def zero_stats_def total_length_def Let_def)
next
  case (in_fast si s r si')
  then show ?case by (auto simp: Intern_fast_def in_inv_hit split: option.splits)
next
  case (in_slow si order s r si')
  then show ?case using Intern_slow_spec [of si order s] by simp
next
  case (in_clear si)
  then show ?case by (simp add: StringInterner_Clear_def in_inv_def in_map_def zero_stats_def total_length_def)
qed

lemma Intern_reach: "in_reach si \<Longrightarrow> in_reach (snd (Intern (map fst (si_strings si)) s si))"
  by (cases "Intern_fast s si")
    (auto simp: Intern_def intro: in_fast in_slow [OF _ refl prod.collapse [symmetric]])

text \<open>The header interner starts as a reachable interner that holds all the common names.\<close>

lemma header_interner_reach: "in_reach NewHTTPHeaderInterner"
proof -
  have "in_reach (fold (\<lambda>header si. snd (Intern (map fst (si_strings si)) header si)) hs si)"
    if "in_reach si" for hs si
    using that by (induction hs arbitrary: si) (auto intro: Intern_reach)
  then show ?thesis by (simp add: NewHTTPHeaderInterner_def in_new)
qed

lemma Intern_new:
  assumes "s \<notin> fst ` set (si_strings si)" and "int (length (si_strings si)) < si_maxSize si"
  shows "si_strings (snd (Intern order s si)) = si_strings si @ [(s, s)] \<and>
    si_maxSize (snd (Intern order s si)) = si_maxSize si"
  using assms by (simp add: Intern_def Intern_fast_def Intern_slow_def Let_def gm_set_new flip: gm_get_None_iff)

lemma Intern_all_new:
  assumes "distinct hs" and "set hs \<inter> fst ` set (si_strings si) = {}"
    and "int (length (si_strings si)) + int (length hs) \<le> si_maxSize si"
  shows "map fst (si_strings (fold (\<lambda>header si. snd (Intern (map fst (si_strings si)) header si)) hs si)) =
    map fst (si_strings si) @ hs"
  using assms
proof (induction hs arbitrary: si)
  case (Cons h hs)
  have "map fst (si_strings (snd (Intern (map fst (si_strings si)) h si))) = map fst (si_strings si) @ [h]"
    "si_maxSize (snd (Intern (map fst (si_strings si)) h si)) = si_maxSize si"
    "length (si_strings (snd (Intern (map fst (si_strings si)) h si))) = Suc (length (si_strings si))"
    "fst ` set (si_strings (snd (Intern (map fst (si_strings si)) h si))) = insert h (fst ` set (si_strings si))"
    using Intern_new [of h si "map fst (si_strings si)"] Cons.prems by auto
  with Cons.IH [of "snd (Intern (map fst (si_strings si)) h si)"] Cons.prems show ?case by simp
qed simp

lemma header_interner_strings: "map fst (si_strings NewHTTPHeaderInterner) = commonHeaders"
proof -
  have "distinct commonHeaders" by (simp add: commonHeaders_def)
  moreover have "length commonHeaders = 26" by (simp add: commonHeaders_def)
  ultimately show ?thesis
    using Intern_all_new [of commonHeaders "NewStringInterner 1000"]
    by (simp add: NewHTTPHeaderInterner_def NewStringInterner_def Let_def)
qed

lemma equal_from_iff:
  "equal_from i bs s \<longleftrightarrow> (\<forall>j. i \<le> j \<and> j < length bs \<longrightarrow> bs ! j = s ! j)"
proof (induction i bs s rule: equal_from.induct)
  case (1 i bs s)
  then show ?case
    by (subst equal_from.simps) (auto simp: not_less, metis Suc_leI le_neq_implies_less)
qed

section \<open>Properties\<close>

text \<open>
  The interner's bookkeeping is exact. Whatever the interleaving of interning and clearing
  and whatever keys an eviction picks, the map never holds more strings than its bound, every
  entry maps a string to itself, the total size is the sum of the lengths held, and the number
  of misses is the number of evictions plus the number of strings held (modulo the width of
  the counters).
\<close>

theorem interner_bookkeeping:
  assumes "in_reach si"
  shows "StringInterner_Size si \<le> si_maxSize si \<and> (\<forall>e \<in> set (si_strings si). snd e = fst e) \<and>
    is_TotalSize (StringInterner_Stats si) = (\<Sum>e \<leftarrow> si_strings si. int (length (fst e))) \<and>
    is_Misses (StringInterner_Stats si) =
      is_Evictions (StringInterner_Stats si) + word_of_int (is_UniqueKeys (StringInterner_Stats si))"
proof -
  from in_reach_inv [OF assms] have inv: "in_inv si" .
  then have "map (\<lambda>e. int (length (snd e))) (si_strings si) = map (\<lambda>e. int (length (fst e))) (si_strings si)"
    by (auto simp: in_inv_def in_map_def)
  with inv show ?thesis
    by (simp add: in_inv_def in_map_def StringInterner_Size_def StringInterner_Stats_def total_length_def gm_sum_def)
qed

theorem interner_bookkeeping_witness:
  "is_TotalSize (StringInterner_Stats (snd (Intern_slow [] ''Host'' (NewStringInterner 1)))) = 4"
  using interner_bookkeeping [OF in_slow [OF in_new [of 1], of "[]" "''Host''" "''Host''"
      "snd (Intern_slow [] ''Host'' (NewStringInterner 1))"]]
  by (simp add: NewStringInterner_def Intern_slow_def StringInterner_Stats_def zero_stats_def Let_def go_defs)

text \<open>
  Interning is transparent. It returns a string equal to its argument, also when it has to
  evict; afterwards the string is held, and interning it again changes nothing but the number
  of hits. The comparison without conversion is equality of the bytes.
\<close>

theorem intern_transparent:
  assumes "in_reach si" and "mset order = mset (map fst (si_strings si))"
  shows "\<exists>si'. Intern order s si = (s, si') \<and> StringInterner_Contains s si' \<and>
    Intern order' s si' = (s, count_hit si') \<and> (ByteString_Equal s t \<longleftrightarrow> s = t)"
proof -
  note inv = in_reach_inv [OF assms(1)]
  have eq: "ByteString_Equal s t \<longleftrightarrow> s = t"
    by (auto simp: ByteString_Equal_def equal_from_iff list_eq_iff_nth_eq)
  show ?thesis
  proof (cases "gm_get (si_strings si) s")
    case (Some v)
    with inv in_map_get [of si s v] eq show ?thesis
      by (simp add: Intern_def Intern_fast_def in_inv_def StringInterner_Contains_def count_hit_def)
  next
    case None
    with Intern_slow_spec [OF inv assms(2), of s] eq show ?thesis
      by (cases "Intern_slow order s si")
        (simp add: Intern_def Intern_fast_def StringInterner_Contains_def count_hit_def)
  qed
qed

theorem intern_transparent_witness:
  "\<exists>si'. Intern [] ''Host'' (NewStringInterner 1) = (''Host'', si') \<and> StringInterner_Contains ''Host'' si'"
  using intern_transparent [OF in_new [of 1], of "[]" "''Host''" "[]" "''Host''"]
  by (auto simp: NewStringInterner_def Let_def)

end
