(* ===== verification/Xds.thy ===== *)
theory Xds
  imports Prelude
begin

text \<open>
  The control plane (\<^verbatim>\<open>pkg/xds/server.go\<close>): the snapshot cache, the server's start and stop, and the
  manager that pushes snapshots to callbacks, at once from \<^verbatim>\<open>UpdateConfig\<close> and by polling in \<^verbatim>\<open>Watch\<close>.

  Snapshots are shared by reference: \<^verbatim>\<open>SetSnapshot\<close> writes into the caller's object, and one object
  may be cached for several nodes. They therefore live in a store \<open>snap_heap\<close>, and the cache
  holds references. A callback is an identifier; what it returns is an argument (\<open>None\<close> for
  \<^verbatim>\<open>nil\<close>), and the calls made are the result. The listener and the gRPC server are represented
  by whether \<^verbatim>\<open>net.Listen\<close> succeeds and whether the server object exists.
\<close>

section \<open>Snapshots\<close>

record xds_cluster =
  cl_Name :: string
  cl_Type :: string
  cl_Backends :: "string list"
  cl_LBPolicy :: string

record xds_endpoint =
  ep_ClusterName :: string
  ep_Address :: string
  ep_Port :: int
  ep_Weight :: int
  ep_Healthy :: bool

record xds_listener =
  li_Name :: string
  li_Address :: string
  li_Port :: int
  li_Routes :: "string list"

record xds_route_match =
  rm_Prefix :: string
  rm_Path :: string
  rm_Headers :: "(string, string) gomap"
  rm_QueryParams :: "(string, string) gomap"

record xds_route =
  xr_Name :: string
  xr_Match :: xds_route_match
  xr_Cluster :: string

record snapshot =
  sn_Version :: string
  sn_Clusters :: "xds_cluster list"
  sn_Endpoints :: "xds_endpoint list"
  sn_Listeners :: "xds_listener list"
  sn_Routes :: "xds_route list"
  sn_Timestamp :: time

definition NewSnapshot :: "time \<Rightarrow> string \<Rightarrow> snapshot" where
  "NewSnapshot now version =
     \<lparr>sn_Version = version, sn_Clusters = [], sn_Endpoints = [], sn_Listeners = [], sn_Routes = [], sn_Timestamp = now\<rparr>"

type_synonym sref = nat
type_synonym snap_heap = "sref \<Rightarrow> snapshot"

section \<open>The snapshot cache\<close>

record snapshot_cache =
  sc_snapshots :: "(string, sref) gomap"
  sc_versions :: "(string, string) gomap"

definition NewSnapshotCache :: snapshot_cache where
  "NewSnapshotCache = \<lparr>sc_snapshots = [], sc_versions = []\<rparr>"

text \<open>\<^verbatim>\<open>time.Unix()\<close>.\<close>

definition Unix :: "time \<Rightarrow> int" where
  [go_defs]: "Unix t = t div 1000000000"

text \<open>The two clock readings of \<^verbatim>\<open>SetSnapshot\<close>; a \<^verbatim>\<open>nil\<close> snapshot (\<open>None\<close>) panics with the lock released by the deferred call.\<close>

definition SetSnapshot ::
    "time \<Rightarrow> time \<Rightarrow> string \<Rightarrow> sref option \<Rightarrow> snap_heap \<times> snapshot_cache \<Rightarrow> go_panic + snap_heap \<times> snapshot_cache" where
  "SetSnapshot now1 now2 nodeID snapshot = (\<lambda>(h, sc).
     case snapshot of
       None \<Rightarrow> Inl NilDereference
     | Some r \<Rightarrow>
         let h = (if sn_Version (h r) = [] then h(r := (h r)\<lparr>sn_Version := show_int (Unix now1)\<rparr>) else h);
             h = h(r := (h r)\<lparr>sn_Timestamp := now2\<rparr>)
         in Inr (h, sc\<lparr>sc_snapshots := gm_set nodeID r (sc_snapshots sc),
                        sc_versions := gm_set nodeID (sn_Version (h r)) (sc_versions sc)\<rparr>))"

definition GetSnapshot :: "snapshot_cache \<Rightarrow> string \<Rightarrow> sref option" where
  "GetSnapshot sc nodeID = gm_get (sc_snapshots sc) nodeID"

definition GetVersion :: "snapshot_cache \<Rightarrow> string \<Rightarrow> string option" where
  "GetVersion sc nodeID = gm_get (sc_versions sc) nodeID"

definition ClearSnapshot :: "string \<Rightarrow> snapshot_cache \<Rightarrow> snapshot_cache" where
  "ClearSnapshot nodeID sc =
     sc\<lparr>sc_snapshots := gm_del nodeID (sc_snapshots sc), sc_versions := gm_del nodeID (sc_versions sc)\<rparr>"

section \<open>The server\<close>

record xds_server =
  xs_addr :: string
  xs_grpcServer :: bool
  xs_snapshotCache :: snapshot_cache
  xs_started :: bool

datatype xds_error = AlreadyStarted | ListenFailed string | NotStarted

definition NewXDSServer :: "string \<Rightarrow> xds_server" where
  "NewXDSServer listenAddr =
     \<lparr>xs_addr = listenAddr, xs_grpcServer = False, xs_snapshotCache = NewSnapshotCache, xs_started = False\<rparr>"

definition XDSServer_Start :: "(string \<Rightarrow> bool) \<Rightarrow> xds_server \<Rightarrow> xds_error option \<times> xds_server" where
  "XDSServer_Start listens s =
     (if xs_started s then (Some AlreadyStarted, s)
      else if \<not> listens (xs_addr s) then (Some (ListenFailed (xs_addr s)), s)
      else (None, s\<lparr>xs_grpcServer := True, xs_started := True\<rparr>))"

definition XDSServer_Stop :: "xds_server \<Rightarrow> xds_error option \<times> xds_server" where
  "XDSServer_Stop s =
     (if \<not> xs_started s then (Some NotStarted, s) else (None, s\<lparr>xs_started := False\<rparr>))"

definition UpdateSnapshot ::
    "time \<Rightarrow> time \<Rightarrow> string \<Rightarrow> sref option \<Rightarrow> snap_heap \<times> xds_server \<Rightarrow> go_panic + snap_heap \<times> xds_server" where
  "UpdateSnapshot now1 now2 nodeID snapshot = (\<lambda>(h, s).
     map_sum id (\<lambda>(h', sc'). (h', s\<lparr>xs_snapshotCache := sc'\<rparr>))
       (SetSnapshot now1 now2 nodeID snapshot (h, xs_snapshotCache s)))"

section \<open>The manager\<close>

type_synonym callback = nat

record dynamic_config_manager =
  dcm_xdsServer :: xds_server
  dcm_callbacks :: "callback list"

definition NewDynamicConfigManager :: "xds_server \<Rightarrow> dynamic_config_manager" where
  "NewDynamicConfigManager s = \<lparr>dcm_xdsServer = s, dcm_callbacks = []\<rparr>"

definition RegisterCallback :: "callback \<Rightarrow> dynamic_config_manager \<Rightarrow> dynamic_config_manager" where
  "RegisterCallback cb dcm = dcm\<lparr>dcm_callbacks := dcm_callbacks dcm @ [cb]\<rparr>"

text \<open>The loop over the callbacks: the calls made, and the errors printed.\<close>

fun notify_callbacks :: "(callback \<Rightarrow> sref \<Rightarrow> string option) \<Rightarrow> callback list \<Rightarrow> sref \<Rightarrow> (callback \<times> sref) list \<times> string list" where
  "notify_callbacks result [] r = ([], [])"
| "notify_callbacks result (cb # cbs) r =
     (let (calls, printed) = notify_callbacks result cbs r
      in ((cb, r) # calls, (case result cb r of None \<Rightarrow> printed | Some err \<Rightarrow> err # printed)))"

definition DynamicConfigManager_UpdateConfig ::
    "(callback \<Rightarrow> sref \<Rightarrow> string option) \<Rightarrow> time \<Rightarrow> time \<Rightarrow> string \<Rightarrow> sref option \<Rightarrow> snap_heap \<times> dynamic_config_manager \<Rightarrow>
     go_panic + (snap_heap \<times> dynamic_config_manager) \<times> (callback \<times> sref) list \<times> string list" where
  "DynamicConfigManager_UpdateConfig result now1 now2 nodeID snapshot = (\<lambda>(h, dcm).
     case UpdateSnapshot now1 now2 nodeID snapshot (h, dcm_xdsServer dcm) of
       Inl e \<Rightarrow> Inl e
     | Inr (h', s') \<Rightarrow>
         Inr ((h', dcm\<lparr>dcm_xdsServer := s'\<rparr>), notify_callbacks result (dcm_callbacks dcm) (the snapshot)))"

text \<open>
  One turn of the loop of \<^verbatim>\<open>Watch\<close> after a tick. The version, the snapshot and the callbacks are read
  under separate locks, so each comes from a state of its own.
\<close>

definition watch_tick ::
    "(callback \<Rightarrow> sref \<Rightarrow> string option) \<Rightarrow> string \<Rightarrow> snapshot_cache \<Rightarrow> snapshot_cache \<Rightarrow> callback list \<Rightarrow> string \<Rightarrow>
     string \<times> (callback \<times> sref) list" where
  "watch_tick result nodeID sc1 sc2 callbacks lastVersion =
     (case GetVersion sc1 nodeID of
        None \<Rightarrow> (lastVersion, [])
      | Some version \<Rightarrow>
          if version \<noteq> lastVersion then
            (case GetSnapshot sc2 nodeID of
               None \<Rightarrow> (lastVersion, [])
             | Some r \<Rightarrow> (version, fst (notify_callbacks result callbacks r)))
          else (lastVersion, []))"

text \<open>
  \<^verbatim>\<open>Watch\<close> over the ticks that come before the context is done: for each tick the caches it reads
  and the callbacks registered then. The result lists the calls made.
\<close>

fun watch_loop ::
    "(callback \<Rightarrow> sref \<Rightarrow> string option) \<Rightarrow> string \<Rightarrow> (snapshot_cache \<times> snapshot_cache \<times> callback list) list \<Rightarrow> string \<Rightarrow>
     (callback \<times> sref) list" where
  "watch_loop result nodeID [] lastVersion = []"
| "watch_loop result nodeID ((sc1, sc2, callbacks) # ticks) lastVersion =
     (let (lastVersion', calls) = watch_tick result nodeID sc1 sc2 callbacks lastVersion
      in calls @ watch_loop result nodeID ticks lastVersion')"

definition Watch ::
    "(callback \<Rightarrow> sref \<Rightarrow> string option) \<Rightarrow> string \<Rightarrow> (snapshot_cache \<times> snapshot_cache \<times> callback list) list \<Rightarrow>
     (callback \<times> sref) list" where
  "Watch result nodeID ticks = watch_loop result nodeID ticks []"

section \<open>The cache and its invariant\<close>

text \<open>
  Every sequence of operations of any clients, on snapshots they share as they like. Clients
  build and change snapshots freely as long as these are not in the cache.
\<close>

inductive xds_reach :: "snap_heap \<Rightarrow> snapshot_cache \<Rightarrow> bool" where
  xds_new: "xds_reach h NewSnapshotCache"
| xds_set: "\<lbrakk>xds_reach h sc; SetSnapshot now1 now2 nodeID r (h, sc) = Inr (h', sc')\<rbrakk> \<Longrightarrow> xds_reach h' sc'"
| xds_clear: "xds_reach h sc \<Longrightarrow> xds_reach h (ClearSnapshot nodeID sc)"
| xds_write: "\<lbrakk>xds_reach h sc; \<And>nodeID. GetSnapshot sc nodeID \<noteq> Some r\<rbrakk> \<Longrightarrow> xds_reach (h(r := sn)) sc"

definition cache_inv :: "snap_heap \<Rightarrow> snapshot_cache \<Rightarrow> bool" where
  "cache_inv h sc \<longleftrightarrow>
     (\<forall>nodeID. GetVersion sc nodeID = map_option (\<lambda>r. sn_Version (h r)) (GetSnapshot sc nodeID)) \<and>
     (\<forall>nodeID r. GetSnapshot sc nodeID = Some r \<longrightarrow> sn_Version (h r) \<noteq> [])"

lemma SetSnapshot_Some:
  "SetSnapshot now1 now2 nodeID (Some r) (h, sc) = Inr (h', sc') \<longleftrightarrow>
     h' = h(r := (h r)\<lparr>sn_Version := (if sn_Version (h r) = [] then show_int (Unix now1) else sn_Version (h r)),
                       sn_Timestamp := now2\<rparr>) \<and>
     sc' = sc\<lparr>sc_snapshots := gm_set nodeID r (sc_snapshots sc),
              sc_versions := gm_set nodeID (sn_Version (h' r)) (sc_versions sc)\<rparr>"
  by (auto simp: SetSnapshot_def Let_def)

lemma cache_inv_set:
  assumes "cache_inv h sc" and "SetSnapshot now1 now2 nodeID (Some r) (h, sc) = Inr (h', sc')"
  shows "cache_inv h' sc'"
proof -
  have same: "sn_Version (h' x) = sn_Version (h x)" if "GetSnapshot sc n = Some x" for n x
    using assms that by (auto simp: SetSnapshot_Some cache_inv_def)
  then have "map_option (\<lambda>r. sn_Version (h' r)) (GetSnapshot sc n) = map_option (\<lambda>r. sn_Version (h r)) (GetSnapshot sc n)" for n
    by (cases "GetSnapshot sc n") auto
  moreover have "GetSnapshot sc' = (GetSnapshot sc)(nodeID \<mapsto> r)" "sn_Version (h' r) \<noteq> []"
    "GetVersion sc' = (GetVersion sc)(nodeID \<mapsto> sn_Version (h' r))"
    using assms(2) by (auto simp: SetSnapshot_Some GetSnapshot_def GetVersion_def fun_eq_iff)
  ultimately show ?thesis
    using assms(1) same by (auto simp: cache_inv_def split: if_splits)
qed

lemma xds_reach_inv: "xds_reach h sc \<Longrightarrow> cache_inv h sc"
proof (induction rule: xds_reach.induct)
  case (xds_set h sc now1 now2 nodeID r h' sc')
  then show ?case by (cases r) (auto simp: SetSnapshot_def intro: cache_inv_set)
next
  case (xds_write h sc r sn)
  have "map_option (\<lambda>r'. sn_Version ((h(r := sn)) r')) (GetSnapshot sc n) =
      map_option (\<lambda>r. sn_Version (h r)) (GetSnapshot sc n)" for n
    using xds_write(2) [of n] by (cases "GetSnapshot sc n") auto
  with xds_write.IH xds_write(2) show ?case by (auto simp: cache_inv_def)
qed (auto simp: cache_inv_def NewSnapshotCache_def ClearSnapshot_def GetSnapshot_def GetVersion_def split: if_splits)

section \<open>The cache as a versioned store\<close>

text \<open>
  What the manager relies on: after a put the store returns that snapshot, with a version, for
  that node, and the same as before for the others; a cleared node has neither; and a node has
  a version exactly when it has a snapshot.
\<close>

locale versioned_store =
  fixes put :: "string \<Rightarrow> sref \<Rightarrow> 's \<Rightarrow> 's"
    and clear :: "string \<Rightarrow> 's \<Rightarrow> 's"
    and snap :: "'s \<Rightarrow> string \<Rightarrow> sref option"
    and version :: "'s \<Rightarrow> string \<Rightarrow> string option"
    and invar :: "'s \<Rightarrow> bool"
  assumes snap_put: "invar s \<Longrightarrow> snap (put n r s) = (snap s)(n \<mapsto> r)"
    and snap_clear: "invar s \<Longrightarrow> snap (clear n s) = (snap s)(n := None)"
    and versioned: "invar s \<Longrightarrow> version s n = None \<longleftrightarrow> snap s n = None"
    and version_other: "\<lbrakk>invar s; m \<noteq> n\<rbrakk> \<Longrightarrow> version (put n r s) m = version s m"
    and invar_put: "invar s \<Longrightarrow> invar (put n r s)"
    and invar_clear: "invar s \<Longrightarrow> invar (clear n s)"
begin

lemma put_has_version: "invar s \<Longrightarrow> version (put n r s) n \<noteq> None"
  by (simp add: versioned invar_put snap_put)

lemma clear_put: "invar s \<Longrightarrow> snap (clear n (put n r s)) = (snap s)(n := None)"
  by (simp add: snap_clear invar_put snap_put)

lemma clear_no_version: "invar s \<Longrightarrow> version (clear n s) n = None"
  by (simp add: versioned invar_clear snap_clear)

end

definition set_total :: "time \<Rightarrow> time \<Rightarrow> string \<Rightarrow> sref \<Rightarrow> snap_heap \<times> snapshot_cache \<Rightarrow> snap_heap \<times> snapshot_cache" where
  "set_total now1 now2 n r s = projr (SetSnapshot now1 now2 n (Some r) s)"

lemma set_total: "SetSnapshot now1 now2 n (Some r) s = Inr (set_total now1 now2 n r s)"
  by (cases s) (simp add: set_total_def SetSnapshot_def Let_def)

lemma set_total_inv: "cache_inv (fst s) (snd s) \<Longrightarrow>
    cache_inv (fst (set_total now1 now2 n r s)) (snd (set_total now1 now2 n r s))"
  using cache_inv_set [of "fst s" "snd s" now1 now2 n r "fst (set_total now1 now2 n r s)" "snd (set_total now1 now2 n r s)"]
    set_total [of now1 now2 n r s] by simp

lemma set_total_lookups:
  "GetSnapshot (snd (set_total now1 now2 n r s)) = (GetSnapshot (snd s))(n \<mapsto> r)"
  "m \<noteq> n \<Longrightarrow> GetVersion (snd (set_total now1 now2 n r s)) m = GetVersion (snd s) m"
  by (cases s; auto simp: set_total_def SetSnapshot_def Let_def GetSnapshot_def GetVersion_def fun_eq_iff)+

interpretation vs: versioned_store "set_total now1 now2" "\<lambda>n s. (fst s, ClearSnapshot n (snd s))"
  "\<lambda>s. GetSnapshot (snd s)" "\<lambda>s. GetVersion (snd s)" "\<lambda>s. cache_inv (fst s) (snd s)"
  for now1 now2
  by unfold_locales
    (auto simp: set_total_lookups set_total_inv,
     auto simp: cache_inv_def ClearSnapshot_def GetSnapshot_def GetVersion_def fun_eq_iff)

section \<open>Notifications\<close>

lemma notify_callbacks_calls [simp]: "fst (notify_callbacks result cbs r) = map (\<lambda>cb. (cb, r)) cbs"
  by (induction cbs) (auto simp: split_beta)

lemma watch_tick_reachable:
  assumes "cache_inv h sc" and "GetSnapshot sc n = Some r"
  shows "watch_tick result n sc sc cbs seen =
    (sn_Version (h r), if sn_Version (h r) = seen then [] else map (\<lambda>cb. (cb, r)) cbs)"
proof -
  from assms have "GetVersion sc n = Some (sn_Version (h r))" by (simp add: cache_inv_def)
  with assms(2) show ?thesis by (simp add: watch_tick_def)
qed

section \<open>Properties\<close>

text \<open>
  The cache is well formed however snapshots are shared. After any sequence of setting and
  clearing snapshots, where one object may be cached for several nodes and is completed in place,
  every node has a version exactly when it has a snapshot, the version recorded is the one the
  snapshot carries, and it is never empty.
\<close>

theorem cache_versions_agree:
  assumes "xds_reach h sc"
  shows "GetVersion sc nodeID = map_option (\<lambda>r. sn_Version (h r)) (GetSnapshot sc nodeID) \<and>
    GetVersion sc nodeID \<noteq> Some []"
  using xds_reach_inv [OF assms] by (auto simp: cache_inv_def)

theorem cache_versions_agree_witness:
  "GetVersion (snd (set_total 0 0 ''a'' 0 (\<lambda>_. NewSnapshot 0 ''v1'', NewSnapshotCache))) ''a'' = Some ''v1''"
  using cache_versions_agree [OF xds_set [OF xds_new [of "\<lambda>_. NewSnapshot 0 ''v1''"]],
      of 0 0 "''a''" "Some 0" "fst (set_total 0 0 ''a'' 0 (\<lambda>_. NewSnapshot 0 ''v1'', NewSnapshotCache))"
      "snd (set_total 0 0 ''a'' 0 (\<lambda>_. NewSnapshot 0 ''v1'', NewSnapshotCache))" "''a''"]
  by (simp add: set_total_lookups, simp add: set_total_def SetSnapshot_def NewSnapshot_def)

text \<open>
  Watching notices a change of version and nothing else. Two updates of a node by fresh
  snapshots without a version, made within the same second, get the same version: the watcher
  that delivered the first never delivers the second, however many ticks follow, although the
  cache returns it and \<^verbatim>\<open>UpdateConfig\<close> itself calls every callback with it.
\<close>

theorem watch_misses_update_in_same_second:
  assumes "sn_Version (h a) = []" and "sn_Version (h b) = []" and "a \<noteq> b" and "Unix t1 = Unix t2"
    and first: "DynamicConfigManager_UpdateConfig result t1 t1' n (Some a) (h, dcm) = Inr ((h1, dcm1), out1)"
    and second: "DynamicConfigManager_UpdateConfig result t2 t2' n (Some b) (h1, dcm1) = Inr ((h2, dcm2), out2)"
    and "sc1 = xs_snapshotCache (dcm_xdsServer dcm1)" and "sc2 = xs_snapshotCache (dcm_xdsServer dcm2)"
  shows "GetSnapshot sc2 n = Some b \<and> fst out2 = map (\<lambda>cb. (cb, b)) (dcm_callbacks dcm) \<and>
    Watch result n ((sc1, sc1, cbs) # replicate k (sc2, sc2, cbs)) = map (\<lambda>cb. (cb, a)) cbs"
proof -
  let ?v = "show_int (Unix t1)"
  from first assms(1,7) have s1: "GetSnapshot sc1 n = Some a" "GetVersion sc1 n = Some ?v"
    "dcm_callbacks dcm1 = dcm_callbacks dcm" "sn_Version (h1 b) = []"
    using assms(2,3)
    by (auto simp: DynamicConfigManager_UpdateConfig_def UpdateSnapshot_def SetSnapshot_def GetSnapshot_def GetVersion_def Let_def)
  with second assms(4,8) have s2: "GetSnapshot sc2 n = Some b" "GetVersion sc2 n = Some ?v"
    "fst out2 = map (\<lambda>cb. (cb, b)) (dcm_callbacks dcm)"
    by (auto simp: DynamicConfigManager_UpdateConfig_def UpdateSnapshot_def SetSnapshot_def GetSnapshot_def GetVersion_def Let_def)
  have "watch_loop result n (replicate k (sc2, sc2, cbs)) ?v = []"
    by (induction k) (auto simp: watch_tick_def s2)
  with s1 s2 show ?thesis by (simp add: Watch_def watch_tick_def)
qed

theorem watch_misses_update_in_same_second_witness:
  "\<exists>h1 dcm1 out1 h2 dcm2 out2.
     DynamicConfigManager_UpdateConfig (\<lambda>_ _. None) 1 1 ''n'' (Some 0) (\<lambda>_. NewSnapshot 0 [], NewDynamicConfigManager (NewXDSServer '':1''))
       = Inr ((h1, dcm1), out1) \<and>
     DynamicConfigManager_UpdateConfig (\<lambda>_ _. None) 2 2 ''n'' (Some 1) (h1, dcm1) = Inr ((h2, dcm2), out2) \<and>
     Watch (\<lambda>_ _. None) ''n'' [(xs_snapshotCache (dcm_xdsServer dcm1), xs_snapshotCache (dcm_xdsServer dcm1), [7]),
       (xs_snapshotCache (dcm_xdsServer dcm2), xs_snapshotCache (dcm_xdsServer dcm2), [7])] = [(7, 0)]"
proof -
  let ?dcm = "NewDynamicConfigManager (NewXDSServer '':1'')" and ?h = "\<lambda>_. NewSnapshot 0 []"
  have run: "\<exists>h' dcm' out'. DynamicConfigManager_UpdateConfig res t t' n (Some r) (h, dcm) = Inr ((h', dcm'), out')" for res t t' n r h dcm
    by (simp add: DynamicConfigManager_UpdateConfig_def UpdateSnapshot_def SetSnapshot_def Let_def split_beta)
  obtain h1 dcm1 out1 where 1: "DynamicConfigManager_UpdateConfig (\<lambda>_ _. None) 1 1 ''n'' (Some 0) (?h, ?dcm) = Inr ((h1, dcm1), out1)"
    using run by blast
  obtain h2 dcm2 out2 where 2: "DynamicConfigManager_UpdateConfig (\<lambda>_ _. None) 2 2 ''n'' (Some 1) (h1, dcm1) = Inr ((h2, dcm2), out2)"
    using run by blast
  from watch_misses_update_in_same_second [OF _ _ _ _ 1 2 refl refl, of "[7]" 1] 1 2 show ?thesis
    by (simp add: NewSnapshot_def Unix_def)
qed

text \<open>
  The watcher delivers the current snapshot. At a tick in any reachable state it calls every
  registered callback, in the order of registration and whatever earlier ones returned, with the
  snapshot cached for its node, exactly when the version differs from the last one delivered; at
  the first tick it always does.
\<close>

theorem watch_delivers_current:
  assumes "xds_reach h sc" and "GetSnapshot sc n = Some r"
  shows "watch_tick result n sc sc cbs seen =
      (sn_Version (h r), if sn_Version (h r) = seen then [] else map (\<lambda>cb. (cb, r)) cbs) \<and>
    Watch result n [(sc, sc, cbs)] = map (\<lambda>cb. (cb, r)) cbs"
proof -
  have "sn_Version (h r) \<noteq> []"
    using xds_reach_inv [OF assms(1)] assms(2) by (simp add: cache_inv_def)
  then show ?thesis
    by (simp add: Watch_def watch_tick_reachable [OF xds_reach_inv [OF assms(1)] assms(2)])
qed

theorem watch_delivers_current_witness:
  "Watch (\<lambda>_ _. Some ''failed'') ''a''
     [(snd (set_total 0 0 ''a'' 0 (\<lambda>_. NewSnapshot 0 ''v1'', NewSnapshotCache)),
       snd (set_total 0 0 ''a'' 0 (\<lambda>_. NewSnapshot 0 ''v1'', NewSnapshotCache)), [3, 4])] = [(3, 0), (4, 0)]"
  using watch_delivers_current [OF xds_set [OF xds_new [of "\<lambda>_. NewSnapshot 0 ''v1''"],
      of 0 0 "''a''" "Some 0" "fst (set_total 0 0 ''a'' 0 (\<lambda>_. NewSnapshot 0 ''v1'', NewSnapshotCache))"
      "snd (set_total 0 0 ''a'' 0 (\<lambda>_. NewSnapshot 0 ''v1'', NewSnapshotCache))"],
      of "''a''" 0 "\<lambda>_ _. Some ''failed''" "[3, 4]"]
  by (simp add: set_total set_total_lookups)

end
