(* ===== verification/Zerocopy.thy ===== *)
theory Zerocopy
  imports Prelude
begin

text \<open>
  Copying between two connections (\<^verbatim>\<open>pkg/proxy/zerocopy.go\<close>, \<^verbatim>\<open>zerocopy_linux.go\<close>): the splice loops
  with their pipe, the fallback to \<^verbatim>\<open>io.Copy\<close>, and the choice of the method.

  The kernel is represented by what it does at each call: a script of outcomes, one per
  \<^verbatim>\<open>splice\<close>. A successful \<^verbatim>\<open>splice\<close> reports a count and moves that many bytes, never more than it was
  asked for nor than are there; a failing one moves nothing. The bytes are in three places: still
  in the source, in the pipe, or delivered. A script that ends before the loop does means that the
  copy has not returned yet (\<open>None\<close>).
\<close>

section \<open>The kernel\<close>

datatype errno = EAGAIN | EINTR | OtherErrno nat

datatype splice_outcome = Moved nat | Failed errno

type_synonym byte_stream = string

record transfer =
  tr_source :: byte_stream
  tr_pipe :: byte_stream
  tr_delivered :: byte_stream

text \<open>
  \<^verbatim>\<open>splice\<close> from the source into the pipe and from the pipe to the destination. What the kernel
  moves is bounded by the length asked for and by what is there; in particular it reports 0 from a
  source only at the end of the stream or when asked for nothing.
\<close>

definition splice_in :: "nat \<Rightarrow> nat \<Rightarrow> transfer \<Rightarrow> nat \<times> transfer" where
  "splice_in n len tr =
     (let k = min n (min len (length (tr_source tr)));
          k = (if k = 0 then min 1 (min len (length (tr_source tr))) else k)
      in (k, tr\<lparr>tr_source := drop k (tr_source tr), tr_pipe := tr_pipe tr @ take k (tr_source tr)\<rparr>))"

definition splice_out :: "nat \<Rightarrow> nat \<Rightarrow> transfer \<Rightarrow> nat \<times> transfer" where
  "splice_out n len tr =
     (let k = min n (min len (length (tr_pipe tr)))
      in (k, tr\<lparr>tr_pipe := drop k (tr_pipe tr), tr_delivered := tr_delivered tr @ take k (tr_pipe tr)\<rparr>))"

section \<open>The splice loops\<close>

text \<open>
  The inner loop of \<^verbatim>\<open>spliceCopy\<close>: move the \<open>n\<close> bytes in the pipe on. The result is the error, if
  any, with the state and the rest of the script.
\<close>

fun splice_drain :: "splice_outcome list \<Rightarrow> nat \<Rightarrow> nat \<Rightarrow> transfer \<Rightarrow> (errno option \<times> nat \<times> transfer \<times> splice_outcome list) option" where
  "splice_drain [] n written tr = (if \<not> written < n then Some (None, written, tr, []) else None)"
| "splice_drain (outcome # script) n written tr =
     (if \<not> written < n then Some (None, written, tr, outcome # script)
      else case outcome of
        Failed e \<Rightarrow>
          if e = EAGAIN \<or> e = EINTR then splice_drain script n written tr
          else Some (Some e, written, tr, script)
      | Moved m \<Rightarrow>
          let (w, tr') = splice_out m (n - written) tr
          in splice_drain script n (written + w) tr')"

lemma splice_drain_shorter:
  "splice_drain script n written tr = Some (r, w, tr', script') \<Longrightarrow> length script' \<le> length script"
  by (induction script arbitrary: written tr)
    (fastforce split: if_splits splice_outcome.splits prod.splits)+

text \<open>The loop of \<^verbatim>\<open>spliceCopy\<close>: the count returned, the error, and the final state.\<close>

function spliceCopy :: "splice_outcome list \<Rightarrow> nat \<Rightarrow> nat \<Rightarrow> transfer \<Rightarrow> (nat \<times> errno option \<times> transfer) option" where
  "spliceCopy script bufferSize totalWritten tr =
     (case script of
        [] \<Rightarrow> None
      | Failed e # script' \<Rightarrow>
          if e = EAGAIN \<or> e = EINTR then spliceCopy script' bufferSize totalWritten tr
          else if totalWritten > 0 then Some (totalWritten, None, tr)
          else Some (0, Some e, tr)
      | Moved m # script' \<Rightarrow>
          let (n, tr1) = splice_in m bufferSize tr
          in if n = 0 then Some (totalWritten, None, tr1)
             else case splice_drain script' n 0 tr1 of
                    None \<Rightarrow> None
                  | Some (Some e, written, tr2, script'') \<Rightarrow> Some (totalWritten, Some e, tr2)
                  | Some (None, written, tr2, script'') \<Rightarrow> spliceCopy script'' bufferSize (totalWritten + written) tr2)"
  by pat_completeness auto

termination
  by (relation "measure (\<lambda>(script, _). length script)") (auto dest!: splice_drain_shorter)

declare spliceCopy.simps [simp del]

text \<open>\<^verbatim>\<open>TrySplice\<close>: one transfer through the pipe, without retrying.\<close>

fun try_drain :: "splice_outcome list \<Rightarrow> nat \<Rightarrow> nat \<Rightarrow> transfer \<Rightarrow> (errno option \<times> nat \<times> transfer) option" where
  "try_drain [] n written tr = (if \<not> written < n then Some (None, written, tr) else None)"
| "try_drain (outcome # script) n written tr =
     (if \<not> written < n then Some (None, written, tr)
      else case outcome of
        Failed e \<Rightarrow> Some (Some e, written, tr)
      | Moved m \<Rightarrow>
          let (w, tr') = splice_out m (n - written) tr
          in try_drain script n (written + w) tr')"

datatype splice_error = Errno errno | UnexpectedEOF

definition TrySplice :: "splice_outcome list \<Rightarrow> nat \<Rightarrow> transfer \<Rightarrow> (nat \<times> splice_error option \<times> transfer) option" where
  "TrySplice script cnt tr =
     (case script of
        [] \<Rightarrow> None
      | Failed e # script' \<Rightarrow> Some (0, Some (Errno e), tr)
      | Moved m # script' \<Rightarrow>
          let (n, tr1) = splice_in m cnt tr
          in if n = 0 then Some (0, Some UnexpectedEOF, tr1)
             else map_option (\<lambda>(e, written, tr2). (written, map_option Errno e, tr2)) (try_drain script' n 0 tr1))"

definition SetupSpliceFlags :: "bool \<Rightarrow> 64 word" where
  "SetupSpliceFlags nonBlocking =
     (let flags = or 0x1 0x4 in if nonBlocking then or flags 0x2 else flags)"

section \<open>The copier\<close>

record zero_copier =
  zc_bufferSize :: int

definition NewDefaultZeroCopier :: "int \<Rightarrow> zero_copier" where
  "NewDefaultZeroCopier bufferSize =
     (let bufferSize = (if bufferSize \<le> 0 then 32 * 1024 else bufferSize) in \<lparr>zc_bufferSize = bufferSize\<rparr>)"

text \<open>
  \<^verbatim>\<open>io.Copy\<close> from what is left in the source: to the end, or with an error after some bytes
  (\<open>fails = Some (k, e)\<close>). The pipe is out of its sight.
\<close>

definition io_Copy :: "(nat \<times> errno) option \<Rightarrow> transfer \<Rightarrow> nat \<times> errno option \<times> transfer" where
  "io_Copy fails tr =
     (case fails of
        None \<Rightarrow> (length (tr_source tr), None, tr\<lparr>tr_source := [], tr_delivered := tr_delivered tr @ tr_source tr\<rparr>)
      | Some (k, e) \<Rightarrow>
          let k = min k (length (tr_source tr))
          in (k, Some e, tr\<lparr>tr_source := drop k (tr_source tr), tr_delivered := tr_delivered tr @ take k (tr_source tr)\<rparr>))"

text \<open>
  What the system offers to one copy: whether both ends are TCP connections, whether their
  descriptors and the pipe can be had, the script of the kernel, and how a plain copy ends.
\<close>

record copy_env =
  ce_tcp :: bool
  ce_srcFile :: bool
  ce_dstFile :: bool
  ce_pipe :: "errno option"
  ce_script :: "splice_outcome list"
  ce_copyFails :: "(nat \<times> errno) option"

definition tcpSplice :: "copy_env \<Rightarrow> zero_copier \<Rightarrow> transfer \<Rightarrow> (nat \<times> errno option \<times> transfer) option" where
  "tcpSplice env z tr =
     (if \<not> ce_srcFile env then Some (io_Copy (ce_copyFails env) tr)
      else if \<not> ce_dstFile env then Some (io_Copy (ce_copyFails env) tr)
      else if ce_pipe env \<noteq> None then Some (io_Copy (ce_copyFails env) tr)
      else case spliceCopy (ce_script env) (nat (zc_bufferSize z)) 0 tr of
             None \<Rightarrow> None
           | Some (written, Some e, tr') \<Rightarrow> Some (io_Copy (ce_copyFails env) (tr'\<lparr>tr_pipe := []\<rparr>))
           | Some (written, None, tr') \<Rightarrow> Some (written, None, tr'\<lparr>tr_pipe := []\<rparr>))"

definition ZeroCopier_Copy :: "copy_env \<Rightarrow> zero_copier \<Rightarrow> transfer \<Rightarrow> (nat \<times> errno option \<times> transfer) option" where
  "ZeroCopier_Copy env z tr =
     (if ce_tcp env then tcpSplice env z tr else Some (io_Copy (ce_copyFails env) tr))"

text \<open>\<^verbatim>\<open>GetOptimalBufferSize\<close>, from the receive buffer size the system reports.\<close>

definition GetOptimalBufferSize :: "bool \<Rightarrow> int option \<Rightarrow> int" where
  "GetOptimalBufferSize isTCP rcvbuf =
     (case rcvbuf of
        Some n \<Rightarrow> if isTCP \<and> n > 0 then n else 32 * 1024
      | None \<Rightarrow> 32 * 1024)"

text \<open>
  \<^verbatim>\<open>io.CopyBuffer\<close> panics when the buffer has no length; otherwise the buffer does not change what
  is copied. The left result is the panic.
\<close>

definition CopyBuffer :: "nat \<Rightarrow> (nat \<times> errno) option \<Rightarrow> transfer \<Rightarrow> string + (nat \<times> errno option \<times> transfer)" where
  "CopyBuffer buf fails tr = (if buf = 0 then Inl ''empty buffer in CopyBuffer'' else Inr (io_Copy fails tr))"

text \<open>
  One direction of \<^verbatim>\<open>OptimizedBidirectionalCopy\<close>: the copier if there is one, a buffer of the pool
  otherwise (\<open>get size\<close> is the length of the buffer the pool hands out). On the right \<open>None\<close> is a copy that
  has not returned.
\<close>

definition optimized_copy ::
    "(nat \<Rightarrow> nat) \<Rightarrow> copy_env \<Rightarrow> zero_copier option \<Rightarrow> transfer \<Rightarrow> string + (nat \<times> errno option \<times> transfer) option" where
  "optimized_copy get env copier tr =
     (case copier of
        Some z \<Rightarrow> Inr (ZeroCopier_Copy env z tr)
      | None \<Rightarrow> (case CopyBuffer (get (32 * 1024)) (ce_copyFails env) tr of Inl p \<Rightarrow> Inl p | Inr r \<Rightarrow> Inr (Some r)))"

record read_write_optimizer =
  rw_readBuffer :: nat
  rw_writeBuffer :: nat

definition NewReadWriteOptimizer :: "int \<Rightarrow> read_write_optimizer" where
  "NewReadWriteOptimizer bufferSize =
     (let bufferSize = (if bufferSize \<le> 0 then 32 * 1024 else bufferSize)
      in \<lparr>rw_readBuffer = nat bufferSize, rw_writeBuffer = nat bufferSize\<rparr>)"

definition CopyWithBuffers ::
    "read_write_optimizer \<Rightarrow> (nat \<times> errno) option \<Rightarrow> transfer \<Rightarrow> string + (nat \<times> errno option \<times> transfer)" where
  "CopyWithBuffers rw fails tr = CopyBuffer (rw_readBuffer rw) fails tr"

text \<open>
  \<^verbatim>\<open>SetTCPOptimizations\<close>: \<open>fails\<close> says how each call ends, the result is the error and the calls made.
  \<^verbatim>\<open>Control\<close> fails without running its function, on a closed connection.
\<close>

datatype tcp_call = SetNoDelay | SetKeepAlive | SyscallConn | Control | SockNoDelay | SockCork

definition SetTCPOptimizations :: "(tcp_call \<Rightarrow> errno option) \<Rightarrow> errno option \<times> tcp_call list" where
  "SetTCPOptimizations fails =
     (case fails SetNoDelay of Some e \<Rightarrow> (Some e, [SetNoDelay]) | None \<Rightarrow>
      case fails SetKeepAlive of Some e \<Rightarrow> (Some e, [SetNoDelay, SetKeepAlive]) | None \<Rightarrow>
      case fails SyscallConn of Some e \<Rightarrow> (Some e, [SetNoDelay, SetKeepAlive, SyscallConn]) | None \<Rightarrow>
      case fails Control of Some e \<Rightarrow> (Some e, [SetNoDelay, SetKeepAlive, SyscallConn, Control]) | None \<Rightarrow>
      let setErr = fails SockNoDelay
      in if setErr \<noteq> None then (setErr, [SetNoDelay, SetKeepAlive, SyscallConn, Control, SockNoDelay])
         else (setErr, [SetNoDelay, SetKeepAlive, SyscallConn, Control, SockNoDelay, SockCork]))"

section \<open>Where the bytes are\<close>

definition stream_of :: "transfer \<Rightarrow> byte_stream" where
  "stream_of tr = tr_delivered tr @ tr_pipe tr @ tr_source tr"

lemma splice_in_spec:
  assumes "splice_in m len tr = (n, tr1)"
  shows "length (tr_pipe tr1) = length (tr_pipe tr) + n" "tr_delivered tr1 = tr_delivered tr"
    "n \<le> length (tr_source tr)" "tr_source tr1 = drop n (tr_source tr)"
    "tr_pipe tr = [] \<Longrightarrow> stream_of tr1 = stream_of tr" "n = 0 \<Longrightarrow> 0 < len \<Longrightarrow> length (tr_source tr) = 0"
    "n = 0 \<Longrightarrow> tr1 = tr"
  using assms by (auto simp: splice_in_def stream_of_def Let_def min_def Suc_le_eq le_Suc_eq split: if_splits)

lemma splice_out_spec:
  assumes "splice_out m len tr = (w, tr1)"
  shows "length (tr_pipe tr) = length (tr_pipe tr1) + w" "length (tr_delivered tr1) = length (tr_delivered tr) + w"
    "stream_of tr1 = stream_of tr" "tr_source tr1 = tr_source tr" "w \<le> len" "w \<le> m"
    "0 < m \<Longrightarrow> 0 < len \<Longrightarrow> tr_pipe tr \<noteq> [] \<Longrightarrow> 0 < w"
  using assms by (auto simp: splice_out_def stream_of_def Let_def min_def split: if_splits)

lemma splice_drain_spec:
  assumes "splice_drain script n written tr = Some (r, w, tr', script')" and "length (tr_pipe tr) = n - written" and "written \<le> n"
  shows "stream_of tr' = stream_of tr \<and> tr_source tr' = tr_source tr \<and> length (tr_pipe tr') = n - w \<and> w \<le> n \<and>
    length (tr_delivered tr') + written = length (tr_delivered tr) + w \<and> (r = None \<longrightarrow> w = n)"
  using assms
proof (induction script arbitrary: written tr)
  case Nil
  then show ?case by (auto split: if_splits)
next
  case (Cons outcome script)
  show ?case
  proof (cases "written < n")
    case False
    with Cons.prems show ?thesis by simp
  next
    case True
    show ?thesis
    proof (cases outcome)
      case (Failed e)
      with Cons True show ?thesis by (cases "e = EAGAIN \<or> e = EINTR") auto
    next
      case (Moved m)
      obtain k tr1 where out: "splice_out m (n - written) tr = (k, tr1)" by fastforce
      note sp = splice_out_spec [OF out]
      from Cons.prems(1) True Moved out have "splice_drain script n (written + k) tr1 = Some (r, w, tr', script')"
        by simp
      from Cons.IH [OF this] True Cons.prems(2,3) sp show ?thesis by auto
    qed
  qed
qed

lemmas spliceCopy_Cons = spliceCopy.simps [of "x # xs" for x xs, simplified list.case]

lemma spliceCopy_spec:
  assumes "spliceCopy script bufferSize base tr = Some (w, err, tr')" and "tr_pipe tr = []"
  shows "stream_of tr' = stream_of tr \<and> length (tr_source tr') \<le> length (tr_source tr) \<and>
    (err = None \<longrightarrow> tr_pipe tr' = [] \<and> w + length (tr_delivered tr) = base + length (tr_delivered tr'))"
  using assms
proof (induction script bufferSize base tr rule: spliceCopy.induct)
  case (1 script bufferSize base tr)
  show ?case
  proof (cases script)
    case Nil
    with 1(3) show ?thesis by (simp add: spliceCopy.simps [of "[]"])
  next
    case (Cons outcome rest)
    show ?thesis
    proof (cases outcome)
      case (Failed e)
      with 1 Cons show ?thesis
        by (cases "e = EAGAIN \<or> e = EINTR") (auto simp: spliceCopy_Cons split: if_splits)
    next
      case (Moved m)
      obtain n tr1 where inn: "splice_in m bufferSize tr = (n, tr1)" by fastforce
      note si = splice_in_spec [OF inn]
      show ?thesis
      proof (cases "n = 0")
        case True
        with 1(3,4) Cons Moved inn si(7) show ?thesis by (auto simp: spliceCopy_Cons)
      next
        case False
        with 1(3) Cons Moved inn obtain r k tr2 rest' where dr: "splice_drain rest n 0 tr1 = Some (r, k, tr2, rest')"
          and next': "(case r of None \<Rightarrow> spliceCopy rest' bufferSize (base + k) tr2 | Some e \<Rightarrow> Some (base, Some e, tr2)) = Some (w, err, tr')"
          by (auto simp: spliceCopy_Cons split: option.splits)
        have sd: "stream_of tr2 = stream_of tr" "length (tr_pipe tr2) = n - k" "tr_source tr2 = tr_source tr1"
          "length (tr_delivered tr2) = length (tr_delivered tr) + k" "r = None \<longrightarrow> k = n"
          using splice_drain_spec [OF dr] si 1(4) by auto
        show ?thesis
        proof (cases r)
          case (Some e)
          with next' sd si show ?thesis by auto
        next
          case None
          with sd have pipe: "tr_pipe tr2 = []" by simp
          from None next' have "spliceCopy rest' bufferSize (base + k) tr2 = Some (w, err, tr')" by simp
          from 1(1) [OF Cons Moved inn [symmetric] refl False dr refl None refl refl this pipe] None sd si show ?thesis by auto
        qed
      qed
    qed
  qed
qed

text \<open>A kernel that never fails and always moves something: a script of positive counts.\<close>

fun positive :: "splice_outcome \<Rightarrow> bool" where
  "positive (Moved m) \<longleftrightarrow> 0 < m"
| "positive (Failed e) \<longleftrightarrow> False"

lemma splice_drain_progress:
  assumes "list_all positive script" and "length (tr_pipe tr) = n - written" and "written \<le> n" and "n - written \<le> length script"
  shows "\<exists>tr' script'. splice_drain script n written tr = Some (None, n, tr', script') \<and> list_all positive script' \<and>
    length script \<le> length script' + (n - written)"
  using assms
proof (induction script arbitrary: written tr)
  case Nil
  then show ?case by auto
next
  case (Cons outcome script)
  show ?case
  proof (cases "written < n")
    case False
    with Cons.prems show ?thesis by auto
  next
    case True
    from Cons.prems(1) obtain m where m: "outcome = Moved m" "0 < m" by (cases outcome) auto
    obtain k tr1 where out: "splice_out m (n - written) tr = (k, tr1)" by fastforce
    note sp = splice_out_spec [OF out]
    from True Cons.prems(2) m have "0 < k" by (intro sp(7)) auto
    with sp Cons.prems True have "\<exists>tr' script'. splice_drain script n (written + k) tr1 = Some (None, n, tr', script') \<and>
        list_all positive script' \<and> length script \<le> length script' + (n - (written + k))"
      by (intro Cons.IH) auto
    with True m out \<open>0 < k\<close> show ?thesis by fastforce
  qed
qed

lemma spliceCopy_progress:
  assumes "list_all positive script" and "tr_pipe tr = []" and "0 < bufferSize" and "2 * length (tr_source tr) < length script"
  shows "\<exists>tr'. spliceCopy script bufferSize base tr = Some (base + length (tr_source tr), None, tr') \<and> tr_source tr' = []"
  using assms
proof (induction "length (tr_source tr)" arbitrary: script tr base rule: less_induct)
  case less
  from less.prems(4) obtain outcome rest where script: "script = outcome # rest" by (cases script) auto
  with less.prems(1) obtain m where m: "outcome = Moved m" by (cases outcome) auto
  obtain n tr1 where inn: "splice_in m bufferSize tr = (n, tr1)" by fastforce
  note si = splice_in_spec [OF inn]
  show ?case
  proof (cases "n = 0")
    case True
    with si(6,7) less.prems(3) script m inn show ?thesis by (simp add: spliceCopy_Cons)
  next
    case False
    have "\<exists>tr2 rest'. splice_drain rest n 0 tr1 = Some (None, n, tr2, rest') \<and> list_all positive rest' \<and>
        length rest \<le> length rest' + (n - 0)"
      using less.prems script si by (intro splice_drain_progress) auto
    then obtain tr2 rest' where dr: "splice_drain rest n 0 tr1 = Some (None, n, tr2, rest')" "list_all positive rest'"
      "length rest \<le> length rest' + n" by auto
    have sd: "tr_pipe tr2 = []" "length (tr_source tr2) + n = length (tr_source tr)"
      using splice_drain_spec [OF dr(1)] si less.prems(2) by auto
    with False dr(2,3) less.prems script
    obtain tr' where "spliceCopy rest' bufferSize (base + n) tr2 = Some (base + n + length (tr_source tr2), None, tr')" "tr_source tr' = []"
      using less.hyps [of tr2 rest' "base + n"] by auto
    with dr(1) script m inn False sd(2) show ?thesis by (auto simp: spliceCopy_Cons ac_simps)
  qed
qed

text \<open>An error of the source after some progress is not reported.\<close>

lemma read_error_hidden:
  "\<lbrakk>e \<noteq> EAGAIN; e \<noteq> EINTR; 0 < base\<rbrakk> \<Longrightarrow> spliceCopy (Failed e # script) bufferSize base tr = Some (base, None, tr)"
  by (simp add: spliceCopy_Cons)

section \<open>Properties\<close>

definition demo_transfer :: transfer where
  "demo_transfer = \<lparr>tr_source = ''abcdef'', tr_pipe = [], tr_delivered = []\<rparr>"

text \<open>
  C9: Splicing keeps the stream. Whatever the kernel reports (short transfers, interruptions,
  errors), no byte is invented, repeated or reordered: what was delivered, what is in the pipe and
  what is left in the source make up the original stream. If no error is returned the pipe is
  empty and the count returned is the number of bytes delivered.
\<close>

theorem splice_keeps_stream:
  assumes "spliceCopy script bufferSize 0 tr = Some (w, err, tr')" and "tr_pipe tr = []"
  shows "tr_delivered tr' @ tr_pipe tr' @ tr_source tr' = tr_delivered tr @ tr_source tr \<and>
    (err = None \<longrightarrow> tr_pipe tr' = [] \<and> length (tr_delivered tr') = length (tr_delivered tr) + w)"
  using spliceCopy_spec [OF assms] assms(2) by (auto simp: stream_of_def)

theorem splice_keeps_stream_witness:
  "\<exists>w tr'. spliceCopy [Moved 4, Moved 2, Failed EAGAIN, Moved 9, Moved 9, Moved 9, Moved 9] 4 0 demo_transfer = Some (w, None, tr') \<and>
     tr_delivered tr' @ tr_source tr' = ''abcdef'' \<and> length (tr_delivered tr') = w"
proof -
  obtain w tr' where r: "spliceCopy [Moved 4, Moved 2, Failed EAGAIN, Moved 9, Moved 9, Moved 9, Moved 9] 4 0 demo_transfer = Some (w, None, tr')"
    by (simp add: spliceCopy_Cons splice_in_def splice_out_def demo_transfer_def Let_def)
  from splice_keeps_stream [OF r] r show ?thesis by (auto simp: demo_transfer_def)
qed

text \<open>
  C28: Splicing copies everything. If no call fails and each moves at least a byte, the loops end
  after at most two calls per byte and one more, the count is the length of the source, and all of
  it has been delivered in order.
\<close>

theorem splice_copies_all:
  assumes "list_all positive script" and "2 * length (tr_source tr) < length script" and "0 < bufferSize" and "tr_pipe tr = []"
  shows "\<exists>tr'. spliceCopy script bufferSize 0 tr = Some (length (tr_source tr), None, tr') \<and>
    tr_delivered tr' = tr_delivered tr @ tr_source tr"
proof -
  obtain tr' where r: "spliceCopy script bufferSize 0 tr = Some (length (tr_source tr), None, tr')" "tr_source tr' = []"
    using spliceCopy_progress [OF assms(1,4,3,2), of 0] by auto
  with spliceCopy_spec [OF r(1) assms(4)] assms(4) show ?thesis by (auto simp: stream_of_def)
qed

theorem splice_copies_all_witness:
  "\<exists>tr'. spliceCopy (replicate 13 (Moved 1)) 4 0 demo_transfer = Some (6, None, tr') \<and> tr_delivered tr' = ''abcdef''"
  using splice_copies_all [of "replicate 13 (Moved 1)" demo_transfer 4] by (simp add: demo_transfer_def numeral_eq_Suc)

text \<open>
  Falling back after a failed splice loses what is in the pipe. When a splice to the destination
  fails part way, the copy starts again with \<^verbatim>\<open>io.Copy\<close> on the source and reports success: the
  destination gets what was spliced followed by what was still in the source, so the stream arrives
  whole exactly when the pipe was empty, and the count leaves out the bytes that were spliced.
\<close>

theorem fallback_loses_pipe:
  assumes "ce_tcp env" and "ce_srcFile env" and "ce_dstFile env" and "ce_pipe env = None" and "ce_copyFails env = None"
    and "spliceCopy (ce_script env) (nat (zc_bufferSize z)) 0 tr = Some (w, Some e, tr1)" and "tr_pipe tr = []"
  shows "\<exists>tr'. ZeroCopier_Copy env z tr = Some (length (tr_source tr1), None, tr') \<and>
    tr_delivered tr' = tr_delivered tr1 @ tr_source tr1 \<and>
    (tr_delivered tr' = tr_delivered tr @ tr_source tr \<longleftrightarrow> tr_pipe tr1 = [])"
proof -
  have "tr_delivered tr @ tr_source tr = tr_delivered tr1 @ tr_pipe tr1 @ tr_source tr1"
    using spliceCopy_spec [OF assms(6,7)] assms(7) by (simp add: stream_of_def)
  with assms show ?thesis by (simp add: ZeroCopier_Copy_def tcpSplice_def io_Copy_def)
qed

definition demo_copy_env :: copy_env where
  "demo_copy_env = \<lparr>ce_tcp = True, ce_srcFile = True, ce_dstFile = True, ce_pipe = None,
     ce_script = [Moved 4, Moved 2, Failed (OtherErrno 32)], ce_copyFails = None\<rparr>"

theorem fallback_loses_pipe_witness:
  "\<exists>tr'. ZeroCopier_Copy demo_copy_env (NewDefaultZeroCopier 4) demo_transfer = Some (2, None, tr') \<and>
     tr_delivered tr' = ''abef''"
proof -
  obtain w tr1 where r: "spliceCopy (ce_script demo_copy_env) (nat (zc_bufferSize (NewDefaultZeroCopier 4))) 0 demo_transfer =
      Some (w, Some (OtherErrno 32), tr1)" "tr_delivered tr1 = ''ab''" "tr_source tr1 = ''ef''"
    by (simp add: spliceCopy_Cons splice_in_def splice_out_def demo_transfer_def demo_copy_env_def NewDefaultZeroCopier_def Let_def)
  from fallback_loses_pipe [OF _ _ _ _ _ r(1)] r(2,3) show ?thesis
    by (auto simp: demo_copy_env_def demo_transfer_def)
qed

text \<open>
  A buffered copy delivers the source. The buffers of a \<^verbatim>\<open>ReadWriteOptimizer\<close> are never empty,
  whatever size it was asked for, so \<^verbatim>\<open>CopyWithBuffers\<close> does not panic; what it reports is what it
  delivered, and what it delivered is the front of the source, all of it if no error is returned. The
  copy of \<^verbatim>\<open>OptimizedBidirectionalCopy\<close> without a copier does the same on a buffer of the pool.
\<close>

theorem buffered_copy_delivers:
  "\<exists>n err tr'. CopyWithBuffers (NewReadWriteOptimizer bufferSize) fails tr = Inr (n, err, tr') \<and>
     tr_delivered tr' = tr_delivered tr @ take n (tr_source tr) \<and> tr_source tr' = drop n (tr_source tr) \<and>
     n \<le> length (tr_source tr) \<and> (err = None \<longleftrightarrow> fails = None) \<and> (fails = None \<longrightarrow> n = length (tr_source tr)) \<and>
     (\<forall>get env. 0 < get (32 * 1024) \<and> ce_copyFails env = fails \<longrightarrow>
        optimized_copy get env None tr = Inr (Some (n, err, tr')))"
  by (auto simp: CopyWithBuffers_def NewReadWriteOptimizer_def CopyBuffer_def io_Copy_def optimized_copy_def
      Let_def split: option.splits)

theorem buffered_copy_delivers_witness:
  "\<exists>tr'. CopyWithBuffers (NewReadWriteOptimizer (- 1)) None demo_transfer = Inr (6, None, tr') \<and> tr_delivered tr' = ''abcdef'' \<and>
     optimized_copy (\<lambda>n. n) (demo_copy_env\<lparr>ce_copyFails := None\<rparr>) None demo_transfer = Inr (Some (6, None, tr'))"
  using buffered_copy_delivers [of "- 1" None demo_transfer] by (auto simp: demo_transfer_def)

text \<open>
  The options of a connection are all set or an error is returned: no error means that Nagle's
  algorithm is off (twice), keep-alive is on and the cork was taken off, where only this last call may
  fail silently; an error is the error of the last call made.
\<close>

theorem tcp_optimizations_all_or_error:
  "case SetTCPOptimizations fails of (err, calls) \<Rightarrow>
     (err = None \<longleftrightarrow> (\<forall>c. c \<noteq> SockCork \<longrightarrow> fails c = None)) \<and>
     (err = None \<longleftrightarrow> calls = [SetNoDelay, SetKeepAlive, SyscallConn, Control, SockNoDelay, SockCork]) \<and>
     (\<forall>e. err = Some e \<longrightarrow> fails (last calls) = Some e)"
proof -
  have all: "(\<forall>c. c \<noteq> SockCork \<longrightarrow> fails c = None) \<longleftrightarrow> fails SetNoDelay = None \<and> fails SetKeepAlive = None \<and>
      fails SyscallConn = None \<and> fails Control = None \<and> fails SockNoDelay = None"
    by (metis tcp_call.exhaust tcp_call.distinct)
  show ?thesis unfolding all by (simp add: SetTCPOptimizations_def Let_def split: option.splits)
qed

theorem tcp_optimizations_all_or_error_witness:
  "SetTCPOptimizations ((\<lambda>_. None)(Control := Some (OtherErrno 9))) =
     (Some (OtherErrno 9), [SetNoDelay, SetKeepAlive, SyscallConn, Control])"
  using tcp_optimizations_all_or_error [of "(\<lambda>_. None)(Control := Some (OtherErrno 9))"]
  by (simp add: SetTCPOptimizations_def)

end
