(* ===== verification/Lifecycle.thy ===== *)
theory Lifecycle
  imports Proxy
begin

text \<open>
  The life of a running TCP server (server.go): \<^verbatim>\<open>acceptLoop\<close>, the goroutines it starts and
  \<^verbatim>\<open>Shutdown\<close>, interleaved step by step. The state adds to the server and its store what the
  goroutines share: the counter of the wait group, whether the accept loop still runs, how
  many handlers have been started and have not yet selected a backend, the backends of the
  handlers in flight, and how far \<^verbatim>\<open>Shutdown\<close> has come. The theorems show that a shutdown
  which does not time out has waited for everything, and that nothing but slow connections
  can make it time out.
\<close>

section \<open>State\<close>

datatype shutdown_phase = NotCalled | ContextCancelled | ListenerClosed | ShutdownDone | ShutdownTimeout

record tcp_life =
  tl_server :: server
  tl_store :: bstore
  tl_wg :: int
  tl_accepting :: bool
  tl_spawned :: nat
  tl_flight :: "bref multiset"
  tl_phase :: shutdown_phase

section \<open>Operations\<close>

text \<open>\<^verbatim>\<open>Start\<close> of a TCP server that could bind its address.\<close>

definition life_start :: "server \<times> bstore \<Rightarrow> tcp_life" where
  "life_start s =
     \<lparr>tl_server = (fst s)\<lparr>srv_listening := True\<rparr>, tl_store = snd s, tl_wg = 1, tl_accepting = True,
      tl_spawned = 0, tl_flight = {#}, tl_phase = NotCalled\<rparr>"

text \<open>One turn of the accept loop. A connection can only come out of an open listener.\<close>

datatype accepted = Connection | AcceptError

definition acceptLoop_turn :: "accepted \<Rightarrow> tcp_life \<Rightarrow> tcp_life option" where
  "acceptLoop_turn a s =
     (if \<not> tl_accepting s then None
      else case a of
        AcceptError \<Rightarrow>
          if srv_cancelled (tl_server s) then Some (s\<lparr>tl_accepting := False, tl_wg := tl_wg s - 1\<rparr>)
          else Some s
      | Connection \<Rightarrow>
          if srv_listening (tl_server s)
          then Some (s\<lparr>tl_wg := tl_wg s + 1, tl_spawned := tl_spawned s + 1\<rparr>)
          else None)"

text \<open>
  A started handler runs up to the selection of its backend; without one it returns, and the
  deferred \<^verbatim>\<open>wg.Done\<close> runs. A panic in the selection ends the process, so no state follows.
\<close>

definition handler_begin :: "string \<Rightarrow> tcp_life \<Rightarrow> tcp_life option" where
  "handler_begin ip s =
     (if tl_spawned s = 0 then None
      else case tcp_arrive ip (tl_server s, tl_store s) of
        (Inl _, _) \<Rightarrow> None
      | (Inr None, srv, h) \<Rightarrow>
          Some (s\<lparr>tl_server := srv, tl_store := h, tl_spawned := tl_spawned s - 1, tl_wg := tl_wg s - 1\<rparr>)
      | (Inr (Some b), srv, h) \<Rightarrow>
          Some (s\<lparr>tl_server := srv, tl_store := h, tl_spawned := tl_spawned s - 1,
                  tl_flight := add_mset b (tl_flight s)\<rparr>))"

definition handler_end :: "bref \<Rightarrow> tcp_end \<Rightarrow> tcp_life \<Rightarrow> tcp_life option" where
  "handler_end b e s =
     (if b \<notin># tl_flight s then None
      else let (srv, h) = tcp_leave b e (tl_server s, tl_store s)
           in Some (s\<lparr>tl_server := srv, tl_store := h, tl_flight := tl_flight s - {#b#}, tl_wg := tl_wg s - 1\<rparr>))"

text \<open>
  \<^verbatim>\<open>Shutdown\<close> in its three stages: cancel the context, close the listener, and wait for the
  wait group or for the thirty seconds, whichever the \<^verbatim>\<open>select\<close> sees.
\<close>

definition Shutdown_cancel :: "tcp_life \<Rightarrow> tcp_life option" where
  "Shutdown_cancel s =
     (if tl_phase s = NotCalled
      then Some (s\<lparr>tl_server := (tl_server s)\<lparr>srv_cancelled := True\<rparr>, tl_phase := ContextCancelled\<rparr>)
      else None)"

definition Shutdown_close :: "tcp_life \<Rightarrow> tcp_life option" where
  "Shutdown_close s =
     (if tl_phase s = ContextCancelled
      then Some (s\<lparr>tl_server := (tl_server s)\<lparr>srv_listening := False\<rparr>, tl_phase := ListenerClosed\<rparr>)
      else None)"

definition Shutdown_wait :: "bool \<Rightarrow> tcp_life \<Rightarrow> tcp_life option" where
  "Shutdown_wait timeout s =
     (if tl_phase s \<noteq> ListenerClosed then None
      else if timeout then Some (s\<lparr>tl_phase := ShutdownTimeout\<rparr>)
      else if tl_wg s = 0 then Some (s\<lparr>tl_phase := ShutdownDone\<rparr>)
      else None)"

datatype life_event =
    Accept accepted
  | Begin string
  | Finish bref tcp_end
  | Mark bool bref
  | Cancel
  | CloseListener
  | Await bool

fun life_step :: "life_event \<Rightarrow> tcp_life \<Rightarrow> tcp_life option" where
  "life_step (Accept a) s = acceptLoop_turn a s"
| "life_step (Begin ip) s = handler_begin ip s"
| "life_step (Finish b e) s = handler_end b e s"
| "life_step (Mark up b) s =
     Some (s\<lparr>tl_store := (if up then MarkHealthy b (tl_store s) else MarkUnhealthy b (tl_store s))\<rparr>)"
| "life_step Cancel s = Shutdown_cancel s"
| "life_step CloseListener s = Shutdown_close s"
| "life_step (Await t) s = Shutdown_wait t s"

inductive life_reach :: "config \<Rightarrow> tcp_life \<Rightarrow> bool" for cfg where
  life_init: "NewTCPServer cfg = Inr s \<Longrightarrow> life_reach cfg (life_start s)"
| life_next: "\<lbrakk>life_reach cfg s; life_step ev s = Some s'\<rbrakk> \<Longrightarrow> life_reach cfg s'"

text \<open>The goroutines' own steps; marks come from the health checker, the rest from \<^verbatim>\<open>Shutdown\<close>.\<close>

fun goroutine_event :: "life_event \<Rightarrow> bool" where
  "goroutine_event (Accept _) = True"
| "goroutine_event (Begin _) = True"
| "goroutine_event (Finish _ _) = True"
| "goroutine_event _ = False"

primrec life_run :: "life_event list \<Rightarrow> tcp_life \<Rightarrow> tcp_life option" where
  "life_run [] s = Some s"
| "life_run (ev # evs) s = (case life_step ev s of None \<Rightarrow> None | Some s' \<Rightarrow> life_run evs s')"

text \<open>The work left for the goroutines once no connection can be accepted.\<close>

definition remaining :: "tcp_life \<Rightarrow> nat" where
  "remaining s = (if tl_accepting s then 1 else 0) + 2 * tl_spawned s + size (tl_flight s)"

section \<open>Facts\<close>

named_theorems life_defs

lemmas life_op_defs [life_defs] =
  acceptLoop_turn_def handler_begin_def handler_end_def Shutdown_cancel_def Shutdown_close_def Shutdown_wait_def

lemma tcp_arrive_flags:
  "tcp_arrive ip (srv, h) = (r, srv', h') \<Longrightarrow>
     srv_cancelled srv' = srv_cancelled srv \<and> srv_listening srv' = srv_listening srv"
  by (auto simp: tcp_arrive_def Let_def split: prod.splits sum.splits option.splits)

lemma tcp_leave_flags:
  "tcp_leave b e (srv, h) = (srv', h') \<Longrightarrow>
     srv_cancelled srv' = srv_cancelled srv \<and> srv_listening srv' = srv_listening srv"
  by (auto simp: tcp_leave_def Let_def split: tcp_end.splits)

lemma tcp_arrive_tracks:
  assumes "tcp_arrive ip (srv, h) = (r, srv', h')" and "tracks fl h"
    and "srv_activeConnections srv = int (size fl)"
  shows "r = Inr None \<Longrightarrow> tracks fl h' \<and> srv_activeConnections srv' = int (size fl)"
    and "r = Inr (Some b) \<Longrightarrow> tracks (add_mset b fl) h' \<and> srv_activeConnections srv' = int (size fl) + 1"
  using assms by (auto simp: tcp_arrive_def tracks_ops Let_def split: prod.splits sum.splits option.splits)

lemma tcp_leave_tracks:
  assumes "tcp_leave b e (srv, h) = (srv', h')" and "tracks (add_mset b fl) h"
    and "srv_activeConnections srv = int (size (add_mset b fl))"
  shows "tracks fl h' \<and> srv_activeConnections srv' = int (size fl)"
  using assms by (auto simp: tcp_leave_def tracks_ops Let_def split: tcp_end.splits)

definition life_inv :: "tcp_life \<Rightarrow> bool" where
  "life_inv s \<longleftrightarrow>
     tl_wg s = (if tl_accepting s then 1 else 0) + int (tl_spawned s) + int (size (tl_flight s)) \<and>
     tracks (tl_flight s) (tl_store s) \<and>
     srv_activeConnections (tl_server s) = int (size (tl_flight s)) \<and>
     (srv_cancelled (tl_server s) \<longleftrightarrow> tl_phase s \<noteq> NotCalled) \<and>
     (srv_listening (tl_server s) \<longleftrightarrow> tl_phase s \<in> {NotCalled, ContextCancelled}) \<and>
     (tl_phase s = NotCalled \<longrightarrow> tl_accepting s) \<and>
     (tl_phase s = ShutdownDone \<longrightarrow> tl_wg s = 0)"

lemma nothing_left:
  "(if a then 1 else 0) + int n + int (size M) = 0 \<longleftrightarrow> \<not> a \<and> n = 0 \<and> M = {#}"
proof -
  have "(if a then 1 else 0) + int n + int k = 0 \<longleftrightarrow> \<not> a \<and> n = 0 \<and> k = 0" for k
    by (cases a) auto
  then show ?thesis by simp
qed

lemma life_inv_start: "NewTCPServer cfg = Inr s \<Longrightarrow> life_inv (life_start s)"
  using tcp_reach_tracks [of cfg "{#}" "fst s" "snd s"] tcp_init [of cfg "fst s" "snd s"]
  by (auto simp: life_inv_def life_start_def NewTCPServer_def make_server_def split: prod.splits sum.splits)

lemma life_inv_busy:
  assumes "life_inv s" and "tl_accepting s \<or> tl_spawned s \<noteq> 0 \<or> tl_flight s \<noteq> {#}"
  shows "tl_phase s \<noteq> ShutdownDone"
proof
  assume "tl_phase s = ShutdownDone"
  with assms(1) have "(if tl_accepting s then 1 else 0) + int (tl_spawned s) + int (size (tl_flight s)) = 0"
    by (simp add: life_inv_def)
  with assms(2) show False by (simp only: nothing_left) simp
qed

lemma life_inv_accept: "\<lbrakk>life_inv s; acceptLoop_turn a s = Some s'\<rbrakk> \<Longrightarrow> life_inv s'"
  by (auto simp: life_inv_def acceptLoop_turn_def split: if_splits accepted.splits)

lemma life_inv_begin:
  assumes inv: "life_inv s" and step: "handler_begin ip s = Some s'"
  shows "life_inv s'"
proof -
  obtain r srv h where arr: "tcp_arrive ip (tl_server s, tl_store s) = (r, srv, h)"
    by (metis prod_cases3)
  have *: "tracks (tl_flight s) (tl_store s)" "srv_activeConnections (tl_server s) = int (size (tl_flight s))"
    using inv by (simp_all add: life_inv_def)
  note flags = tcp_arrive_flags [OF arr]
  have pos: "0 < tl_spawned s" using step by (simp add: handler_begin_def split: if_splits)
  then have busy: "tl_phase s \<noteq> ShutdownDone" using life_inv_busy [OF inv] by simp
  show ?thesis
  proof (cases r)
    case (Inl e)
    with step arr show ?thesis by (simp add: handler_begin_def split: if_splits)
  next
    case (Inr sel)
    show ?thesis
    proof (cases sel)
      case None
      with Inr step arr have "s' = s\<lparr>tl_server := srv, tl_store := h, tl_spawned := tl_spawned s - 1,
          tl_wg := tl_wg s - 1\<rparr>"
        by (simp add: handler_begin_def split: if_splits)
      with tcp_arrive_tracks(1) [OF arr *] Inr None flags inv busy pos show ?thesis
        by (simp add: life_inv_def)
    next
      case (Some b)
      with Inr step arr have "s' = s\<lparr>tl_server := srv, tl_store := h, tl_spawned := tl_spawned s - 1,
          tl_flight := add_mset b (tl_flight s)\<rparr>"
        by (simp add: handler_begin_def split: if_splits)
      with tcp_arrive_tracks(2) [OF arr *] Inr Some flags inv busy pos show ?thesis
        by (simp add: life_inv_def)
    qed
  qed
qed

lemma life_inv_end:
  assumes inv: "life_inv s" and step: "handler_end b e s = Some s'"
  shows "life_inv s'"
proof -
  obtain srv h where lv: "tcp_leave b e (tl_server s, tl_store s) = (srv, h)"
    by (metis surj_pair)
  from step obtain fl where fl: "tl_flight s = add_mset b fl"
    by (auto simp: handler_end_def split: if_splits dest: multi_member_split)
  have "tracks (add_mset b fl) (tl_store s)"
    "srv_activeConnections (tl_server s) = int (size (add_mset b fl))"
    using inv by (simp_all add: life_inv_def flip: fl)
  note facts = tcp_leave_tracks [OF lv this] tcp_leave_flags [OF lv]
  have "s' = s\<lparr>tl_server := srv, tl_store := h, tl_flight := fl, tl_wg := tl_wg s - 1\<rparr>"
    using step lv fl by (simp add: handler_end_def)
  with inv facts fl life_inv_busy [OF inv] show ?thesis by (simp add: life_inv_def)
qed

lemma life_inv_shutdown:
  "\<lbrakk>life_inv s; Shutdown_cancel s = Some s'\<rbrakk> \<Longrightarrow> life_inv s'"
  "\<lbrakk>life_inv s; Shutdown_close s = Some s'\<rbrakk> \<Longrightarrow> life_inv s'"
  "\<lbrakk>life_inv s; Shutdown_wait t s = Some s'\<rbrakk> \<Longrightarrow> life_inv s'"
  by (auto simp: life_inv_def life_defs split: if_splits)

lemma life_inv_mark: "life_inv s \<Longrightarrow> life_inv (s\<lparr>tl_store := MarkHealthy b (tl_store s)\<rparr>)"
  "life_inv s \<Longrightarrow> life_inv (s\<lparr>tl_store := MarkUnhealthy b (tl_store s)\<rparr>)"
  by (auto simp: life_inv_def tracks_ops)

lemma life_inv_step:
  assumes inv: "life_inv s" and step: "life_step ev s = Some s'"
  shows "life_inv s'"
proof (cases ev)
  case (Accept a)
  with step show ?thesis by (auto intro: life_inv_accept [OF inv])
next
  case (Begin ip)
  with step show ?thesis by (auto intro: life_inv_begin [OF inv])
next
  case (Finish b e)
  with step show ?thesis by (auto intro: life_inv_end [OF inv])
next
  case (Mark up b)
  with step life_inv_mark [OF inv, of b] show ?thesis by (cases up) auto
qed (use step life_inv_shutdown [OF inv] in auto)

lemma life_reach_inv: "life_reach cfg s \<Longrightarrow> life_inv s"
  by (induction rule: life_reach.induct) (auto dest: life_inv_start life_inv_step)

lemma remaining_wg: "life_inv s \<Longrightarrow> remaining s = 0 \<longleftrightarrow> tl_wg s = 0"
  using nothing_left [of "tl_accepting s" "tl_spawned s" "tl_flight s"] by (auto simp: life_inv_def remaining_def)

definition closed :: "tcp_life \<Rightarrow> bool" where
  "closed s \<longleftrightarrow> tl_phase s \<notin> {NotCalled, ContextCancelled}"

lemma handler_begin_remaining:
  "handler_begin ip s = Some s' \<Longrightarrow> remaining s' < remaining s \<and> tl_phase s' = tl_phase s"
  by (auto simp: handler_begin_def remaining_def split: if_splits prod.splits sum.splits option.splits)

lemma handler_end_remaining:
  "handler_end b e s = Some s' \<Longrightarrow> remaining s' < remaining s \<and> tl_phase s' = tl_phase s"
  by (auto simp: handler_end_def remaining_def Let_def split: if_splits prod.splits dest!: multi_member_split)

lemma accept_remaining:
  assumes "life_inv s" and "closed s" and "acceptLoop_turn a s = Some s'"
  shows "remaining s' < remaining s \<and> tl_phase s' = tl_phase s"
  using assms
  by (auto simp: acceptLoop_turn_def remaining_def life_inv_def closed_def split: if_splits accepted.splits)

lemma shutdown_remaining:
  "\<lbrakk>closed s; Shutdown_wait t s = Some s'\<rbrakk> \<Longrightarrow> remaining s' = remaining s \<and> closed s'"
  "closed s \<Longrightarrow> Shutdown_cancel s = None"
  "closed s \<Longrightarrow> Shutdown_close s = None"
  by (auto simp: life_defs remaining_def closed_def split: if_splits)

lemma closed_step:
  assumes "life_inv s" and "closed s" and step: "life_step ev s = Some s'"
  shows "remaining s' + (if goroutine_event ev then 1 else 0) \<le> remaining s \<and> closed s'"
proof (cases ev)
  case (Accept a)
  with step accept_remaining [OF assms(1,2), of a s'] assms(2) show ?thesis by (simp add: closed_def)
next
  case (Begin ip)
  with step handler_begin_remaining [of ip s s'] assms(2) show ?thesis by (simp add: closed_def)
next
  case (Finish b e)
  with step handler_end_remaining [of b e s s'] assms(2) show ?thesis by (simp add: closed_def)
next
  case (Mark up b)
  with step assms(2) show ?thesis by (auto simp: remaining_def closed_def)
qed (use step assms(2) shutdown_remaining in auto)

lemma closed_run:
  "\<lbrakk>life_inv s; closed s; life_run evs s = Some s'\<rbrakk> \<Longrightarrow>
     remaining s' + length (filter goroutine_event evs) \<le> remaining s \<and> closed s' \<and> life_inv s'"
proof (induction evs arbitrary: s)
  case (Cons ev evs)
  then obtain t where t: "life_step ev s = Some t" "life_run evs t = Some s'"
    by (auto split: option.splits)
  note step = closed_step [OF Cons.prems(1,2) t(1)]
  from Cons.IH [OF life_inv_step [OF Cons.prems(1) t(1)] _ t(2)] step show ?case by auto
qed simp

lemma closed_enabled:
  assumes inv: "life_inv s" and "closed s" and "remaining s \<noteq> 0"
    and total: "\<exists>ip sel. fst (tcp_arrive ip (tl_server s, tl_store s)) = Inr sel"
  shows "\<exists>ev s'. goroutine_event ev \<and> life_step ev s = Some s'"
proof -
  consider "tl_accepting s" | "tl_flight s \<noteq> {#}" | "tl_spawned s \<noteq> 0"
    using assms(3) by (auto simp: remaining_def split: if_splits)
  then show ?thesis
  proof cases
    case 1
    then have "\<exists>s'. life_step (Accept AcceptError) s = Some s'"
      using inv assms(2) by (simp add: acceptLoop_turn_def life_inv_def closed_def)
    then show ?thesis using goroutine_event.simps(1) by blast
  next
    case 2
    then obtain b where "b \<in># tl_flight s" by (metis multiset_nonemptyE)
    then have "\<exists>s'. life_step (Finish b DialFailed) s = Some s'"
      by (simp add: handler_end_def case_prod_beta)
    then show ?thesis using goroutine_event.simps(3) by blast
  next
    case 3
    from total obtain ip sel srv h where "tcp_arrive ip (tl_server s, tl_store s) = (Inr sel, srv, h)"
      by (metis prod.collapse)
    with 3 have "\<exists>s'. life_step (Begin ip) s = Some s'"
      by (cases sel) (simp_all add: handler_begin_def)
    then show ?thesis using goroutine_event.simps(2) by blast
  qed
qed

text \<open>The stages put together are the operations on the server's record.\<close>

lemma life_start_Server_Start:
  "\<lbrakk>srv_httpServer srv = None; listen (cfg_Listen (srv_config srv))\<rbrakk> \<Longrightarrow>
     tl_server (life_start (srv, h)) = snd (Server_Start listen srv)"
  by (simp add: life_start_def Server_Start_def)

lemma shutdown_stages:
  "\<lbrakk>Shutdown_cancel s = Some t; Shutdown_close t = Some u\<rbrakk> \<Longrightarrow> tl_server u = Server_Shutdown (tl_server s)"
  by (auto simp: life_defs Server_Shutdown_def split: if_splits)

lemma life_reach_run: "\<lbrakk>life_reach cfg s; life_run evs s = Some s'\<rbrakk> \<Longrightarrow> life_reach cfg s'"
  by (induction evs arbitrary: s) (auto split: option.splits intro: life_next)

lemma life_run_append:
  "life_run (xs @ ys) s = (case life_run xs s of None \<Rightarrow> None | Some t \<Rightarrow> life_run ys t)"
  by (induction xs arbitrary: s) (auto split: option.splits)

lemma demo_arrive:
  "\<exists>srv h. tcp_arrive ''10.0.0.1'' ((fst demo_tcp)\<lparr>srv_listening := l, srv_cancelled := c\<rparr>, snd demo_tcp) = (Inr (Some 0), srv, h)"
  "\<exists>srv h. tcp_arrive ''10.0.0.1'' ((fst demo_tcp)\<lparr>srv_listening := l\<rparr>, snd demo_tcp) = (Inr (Some 0), srv, h)"
  using demo_tcp_pool demo_tcp_balancer
  by (simp_all add: tcp_arrive_def Let_def RoundRobin_Select_def NewRoundRobin_def case_prod_beta)

section \<open>Properties\<close>

text \<open>
  C4: A shutdown that does not time out has waited for everything. In every interleaving of
  accepted connections, handlers, health marks and the stages of \<^verbatim>\<open>Shutdown\<close>, the wait group
  counts the accept loop and every handler that has not returned; so when \<^verbatim>\<open>Shutdown\<close> sees it
  at zero the accept loop has ended, no handler runs, the listener is closed, and the
  connection counts of the server and of every backend are zero.
\<close>

theorem graceful_shutdown:
  assumes "life_reach cfg s"
  shows "tl_wg s = (if tl_accepting s then 1 else 0) + int (tl_spawned s) + int (size (tl_flight s)) \<and>
    (\<forall>b. b_activeConnections (tl_store s b) = int (count (tl_flight s) b)) \<and>
    (tl_phase s = ShutdownDone \<longrightarrow>
      \<not> tl_accepting s \<and> tl_spawned s = 0 \<and> tl_flight s = {#} \<and>
      \<not> srv_listening (tl_server s) \<and> srv_activeConnections (tl_server s) = 0)"
proof -
  have inv: "life_inv s" by (rule life_reach_inv [OF assms])
  then have "tl_phase s = ShutdownDone \<Longrightarrow> \<not> tl_accepting s \<and> tl_spawned s = 0 \<and> tl_flight s = {#}"
    using life_inv_busy by blast
  with inv show ?thesis by (simp add: life_inv_def tracks_def)
qed

theorem graceful_shutdown_witness:
  "\<exists>s. life_run [Accept Connection, Begin ''10.0.0.1'', Finish 0 DialFailed, Cancel, CloseListener,
       Accept AcceptError, Await False] (life_start demo_tcp) = Some s \<and>
     tl_phase s = ShutdownDone \<and> srv_activeConnections (tl_server s) = 0"
proof -
  obtain srv h where arr: "tcp_arrive ''10.0.0.1'' ((fst demo_tcp)\<lparr>srv_listening := True\<rparr>, snd demo_tcp) = (Inr (Some 0), srv, h)"
    using demo_arrive by blast
  obtain srv' h' where lv: "tcp_leave 0 DialFailed (srv, h) = (srv', h')" by (metis surj_pair)
  obtain s where s: "life_run [Accept Connection, Begin ''10.0.0.1'', Finish 0 DialFailed, Cancel, CloseListener,
       Accept AcceptError, Await False] (life_start demo_tcp) = Some s" "tl_phase s = ShutdownDone"
    using arr lv tcp_arrive_flags [OF arr] tcp_leave_flags [OF lv]
    by (simp add: life_start_def life_defs)
  have "life_reach (demo_config ''tcp'') s"
    by (rule life_reach_run [OF life_init [OF demo_tcp_new] s(1)])
  from graceful_shutdown [OF this] s show ?thesis by blast
qed

text \<open>
  Shutdown drains. Once the listener is closed, whatever else happens, the goroutines
  take at most \<open>remaining\<close> further steps: no connection is accepted any more, and the accept
  loop ends at its next error. While anything remains some goroutine can go on, unless every
  selection of a backend panics; and when nothing remains the wait group is at zero, so
  \<^verbatim>\<open>Shutdown\<close> returns without its timeout.
\<close>

theorem shutdown_drains:
  assumes "life_reach cfg s" and "tl_phase s = ListenerClosed"
    and "life_run evs s = Some s'" and "tl_phase s' = ListenerClosed"
    and "\<exists>ip sel. fst (tcp_arrive ip (tl_server s', tl_store s')) = Inr sel"
  shows "remaining s' + length (filter goroutine_event evs) \<le> remaining s \<and>
    (if remaining s' = 0 then \<exists>t. life_step (Await False) s' = Some t \<and> tl_phase t = ShutdownDone
     else \<exists>ev t. goroutine_event ev \<and> life_step ev s' = Some t)"
proof -
  have inv: "life_inv s" by (rule life_reach_inv [OF assms(1)])
  have "closed s" using assms(2) by (simp add: closed_def)
  note run = closed_run [OF inv this assms(3)]
  then have s': "life_inv s'" "closed s'" by simp_all
  from remaining_wg [OF s'(1)] assms(4) have "remaining s' = 0 \<Longrightarrow> ?thesis"
    using run by (simp add: Shutdown_wait_def)
  moreover from closed_enabled [OF s' _ assms(5)] run have "remaining s' \<noteq> 0 \<Longrightarrow> ?thesis"
    by simp
  ultimately show ?thesis by blast
qed

theorem shutdown_drains_witness:
  "\<exists>s ev t. life_run [Accept Connection, Cancel, CloseListener, Accept AcceptError] (life_start demo_tcp) = Some s \<and>
     remaining s = 2 \<and> goroutine_event ev \<and> life_step ev s = Some t"
proof -
  let ?srv = "(fst demo_tcp)\<lparr>srv_listening := False, srv_cancelled := True\<rparr>"
  define s where "s = \<lparr>tl_server = ?srv, tl_store = snd demo_tcp, tl_wg = 2, tl_accepting = True,
    tl_spawned = 1, tl_flight = {#}, tl_phase = ListenerClosed\<rparr>"
  define s' where "s' = s\<lparr>tl_wg := 1, tl_accepting := False\<rparr>"
  have s: "life_run [Accept Connection, Cancel, CloseListener] (life_start demo_tcp) = Some s"
    "tl_phase s = ListenerClosed"
    by (simp_all add: life_start_def life_defs s_def)
  have s': "life_run [Accept AcceptError] s = Some s'" "tl_phase s' = ListenerClosed" "remaining s' = 2"
    "tl_server s' = ?srv" "tl_store s' = snd demo_tcp"
    by (simp_all add: s_def s'_def life_defs remaining_def)
  have "life_reach (demo_config ''tcp'') s"
    by (rule life_reach_run [OF life_init [OF demo_tcp_new] s(1)])
  moreover have "\<exists>ip sel. fst (tcp_arrive ip (tl_server s', tl_store s')) = Inr sel"
  proof -
    obtain srv h where "tcp_arrive ''10.0.0.1'' (?srv, snd demo_tcp) = (Inr (Some 0), srv, h)"
      using demo_arrive(1) by blast
    then have "fst (tcp_arrive ''10.0.0.1'' (tl_server s', tl_store s')) = Inr (Some 0)"
      unfolding s'(4,5) by (rule ssubst) (rule fst_conv)
    then show ?thesis by blast
  qed
  ultimately have "\<exists>ev t. goroutine_event ev \<and> life_step ev s' = Some t"
    using shutdown_drains [OF _ s(2) s'(1,2)] s'(3) by simp
  moreover have "life_run [Accept Connection, Cancel, CloseListener, Accept AcceptError] (life_start demo_tcp) = Some s'"
    using life_run_append [of "[Accept Connection, Cancel, CloseListener]" "[Accept AcceptError]" "life_start demo_tcp"]
    unfolding s(1) option.case s'(1) append.simps .
  ultimately show ?thesis using s'(3) by blast
qed

end
