(* ===== verification/Profiling.thy ===== *)
theory Profiling
  imports Prelude "HOL-Library.Multiset"
begin

text \<open>
  The profiler (pkg/profiling/profiler.go): what it holds of the process. \<open>profiled\<close> is the part
  of the process the profiler changes: the files it has open, whether the Go CPU profiler
  runs (there is one per process), and the profiling servers that have been started and not
  closed. Whether a file can be created and whether the heap profile can be written are
  arguments. The theorems say which of these are released when profiling stops.
\<close>

section \<open>State\<close>

record profile_config =
  pf_CPUProfilePath :: string
  pf_MemProfilePath :: string
  pf_EnableHTTPProfile :: bool
  pf_HTTPProfileAddr :: string
  pf_ProfileDuration :: duration

definition DefaultProfileConfig :: profile_config where
  "DefaultProfileConfig =
     \<lparr>pf_CPUProfilePath = '''', pf_MemProfilePath = '''', pf_EnableHTTPProfile = True,
      pf_HTTPProfileAddr = '':6060'', pf_ProfileDuration = 30 * Second\<rparr>"

record profiler =
  prof_config :: profile_config
  prof_cpuFile :: "string option"
  prof_httpServer :: "string option"

definition NewProfiler :: "profile_config \<Rightarrow> profiler" where
  "NewProfiler cfg = \<lparr>prof_config = cfg, prof_cpuFile = None, prof_httpServer = None\<rparr>"

record profiled =
  pd_files :: "string multiset"
  pd_cpu :: bool
  pd_servers :: "string multiset"

datatype profile_error =
    CreateError | CPUProfileError | HeapProfileError | AlreadyStarted | NotStarted

section \<open>Operations\<close>

definition StartCPUProfile ::
    "(string \<Rightarrow> bool) \<Rightarrow> profiler \<times> profiled \<Rightarrow> profile_error option \<times> profiler \<times> profiled" where
  "StartCPUProfile create s =
     (let (p, w) = s; path = pf_CPUProfilePath (prof_config p)
      in if \<not> create path then (Some CreateError, p, w)
         else if pd_cpu w then (Some CPUProfileError, p, w)
         else (None, p\<lparr>prof_cpuFile := Some path\<rparr>,
               w\<lparr>pd_cpu := True, pd_files := add_mset path (pd_files w)\<rparr>))"

definition StopCPUProfile :: "profiler \<times> profiled \<Rightarrow> profiler \<times> profiled" where
  "StopCPUProfile s =
     (let (p, w) = s; w = w\<lparr>pd_cpu := False\<rparr>
      in case prof_cpuFile p of
           None \<Rightarrow> (p, w)
         | Some f \<Rightarrow> (p\<lparr>prof_cpuFile := None\<rparr>, w\<lparr>pd_files := pd_files w - {#f#}\<rparr>))"

text \<open>The file is closed on every path, so only the error is visible.\<close>

definition WriteMemProfile :: "(string \<Rightarrow> bool) \<Rightarrow> bool \<Rightarrow> profiler \<Rightarrow> profile_error option" where
  "WriteMemProfile create heapOk p =
     (if \<not> create (pf_MemProfilePath (prof_config p)) then Some CreateError
      else if \<not> heapOk then Some HeapProfileError
      else None)"

text \<open>The server is started by a goroutine that only prints its error.\<close>

definition StartHTTPProfile :: "profiler \<times> profiled \<Rightarrow> profiler \<times> profiled" where
  "StartHTTPProfile s =
     (let (p, w) = s; addr = pf_HTTPProfileAddr (prof_config p)
      in (p\<lparr>prof_httpServer := Some addr\<rparr>, w\<lparr>pd_servers := add_mset addr (pd_servers w)\<rparr>))"

definition Profiler_Start ::
    "(string \<Rightarrow> bool) \<Rightarrow> profiler \<times> profiled \<Rightarrow> profile_error option \<times> profiler \<times> profiled" where
  "Profiler_Start create s =
     (let cfg = prof_config (fst s);
          (err, s1) = (if pf_CPUProfilePath cfg \<noteq> '''' then StartCPUProfile create s else (None, s))
      in case err of
           Some e \<Rightarrow> (Some e, s1)
         | None \<Rightarrow> (None, if pf_EnableHTTPProfile cfg then StartHTTPProfile s1 else s1))"

text \<open>\<^verbatim>\<open>Close\<close> leaves the field of the profiler as it is; closing again has no effect.\<close>

definition close_server :: "profiler \<times> profiled \<Rightarrow> profiler \<times> profiled" where
  "close_server s =
     (let (p, w) = s
      in case prof_httpServer p of
           None \<Rightarrow> (p, w)
         | Some a \<Rightarrow> (p, w\<lparr>pd_servers := pd_servers w - {#a#}\<rparr>))"

definition Profiler_Stop ::
    "(string \<Rightarrow> bool) \<Rightarrow> bool \<Rightarrow> profiler \<times> profiled \<Rightarrow> profile_error option \<times> profiler \<times> profiled" where
  "Profiler_Stop create heapOk s =
     (let s1 = (if prof_cpuFile (fst s) \<noteq> None then StopCPUProfile s else s)
      in case (if pf_MemProfilePath (prof_config (fst s1)) \<noteq> ''''
               then WriteMemProfile create heapOk (fst s1) else None) of
           Some e \<Rightarrow> (Some e, s1)
         | None \<Rightarrow> (None, close_server s1))"

definition RunProfiler ::
    "(string \<Rightarrow> bool) \<Rightarrow> bool \<Rightarrow> profile_config \<Rightarrow> profiled \<Rightarrow> profile_error option \<times> profiled" where
  "RunProfiler create heapOk cfg w =
     (case Profiler_Start create (NewProfiler cfg, w) of
        (Some e, _, w') \<Rightarrow> (Some e, w')
      | (None, s) \<Rightarrow> (case Profiler_Stop create heapOk s of (err, _, w') \<Rightarrow> (err, w')))"

text \<open>The global profiler is a variable of the package.\<close>

definition StartGlobalProfiler ::
    "(string \<Rightarrow> bool) \<Rightarrow> profile_config \<Rightarrow> profiler option \<times> profiled
      \<Rightarrow> profile_error option \<times> profiler option \<times> profiled" where
  "StartGlobalProfiler create cfg s =
     (case s of
        (Some p, w) \<Rightarrow> (Some AlreadyStarted, Some p, w)
      | (None, w) \<Rightarrow>
          (case Profiler_Start create (NewProfiler cfg, w) of (err, p, w') \<Rightarrow> (err, Some p, w')))"

definition StopGlobalProfiler ::
    "(string \<Rightarrow> bool) \<Rightarrow> bool \<Rightarrow> profiler option \<times> profiled
      \<Rightarrow> profile_error option \<times> profiler option \<times> profiled" where
  "StopGlobalProfiler create heapOk s =
     (case s of
        (None, w) \<Rightarrow> (Some NotStarted, None, w)
      | (Some p, w) \<Rightarrow>
          (case Profiler_Stop create heapOk (p, w) of (err, _, w') \<Rightarrow> (err, None, w')))"

section \<open>Facts\<close>

lemmas profiler_defs = StartCPUProfile_def StopCPUProfile_def WriteMemProfile_def StartHTTPProfile_def
  Profiler_Start_def close_server_def Profiler_Stop_def NewProfiler_def Let_def

definition quiet_profiled :: profiled where
  "quiet_profiled = \<lparr>pd_files = {#}, pd_cpu = False, pd_servers = {#}\<rparr>"

definition demo_profile_config :: profile_config where
  "demo_profile_config = DefaultProfileConfig\<lparr>pf_CPUProfilePath := ''cpu'', pf_MemProfilePath := ''mem''\<rparr>"

section \<open>Properties\<close>

text \<open>
  A profiling run gives back what it took, with one exception. If the CPU profiler is not
  already running, the run leaves no file open and the CPU profiler stopped, whatever fails;
  and it closes its server unless the memory profile cannot be written, in which case
  \<^verbatim>\<open>Stop\<close> returns before it comes to the server, and that server stays open.
\<close>

theorem profiling_run_releases:
  assumes "\<not> pd_cpu w" and "RunProfiler create heapOk cfg w = (err, w')"
  shows "pd_files w' = pd_files w \<and> \<not> pd_cpu w' \<and>
    pd_servers w' =
      (let cpu = pf_CPUProfilePath cfg; mem = pf_MemProfilePath cfg
       in if (cpu = '''' \<or> create cpu) \<and> mem \<noteq> '''' \<and> \<not> (create mem \<and> heapOk) \<and> pf_EnableHTTPProfile cfg
          then add_mset (pf_HTTPProfileAddr cfg) (pd_servers w) else pd_servers w)"
proof (cases "pf_CPUProfilePath cfg = []")
  case True
  with assms show ?thesis by (auto simp: RunProfiler_def profiler_defs split: if_splits)
next
  case False
  with assms show ?thesis
    by (cases "create (pf_CPUProfilePath cfg)") (auto simp: RunProfiler_def profiler_defs split: if_splits)
qed

theorem profiling_run_releases_witness:
  "pd_servers (snd (RunProfiler (\<lambda>f. f = ''cpu'') True demo_profile_config quiet_profiled)) = {#'':6060''#}"
  using profiling_run_releases [of quiet_profiled "\<lambda>f. f = ''cpu''" True demo_profile_config
      "fst (RunProfiler (\<lambda>f. f = ''cpu'') True demo_profile_config quiet_profiled)"
      "snd (RunProfiler (\<lambda>f. f = ''cpu'') True demo_profile_config quiet_profiled)"]
  by (simp add: quiet_profiled_def demo_profile_config_def DefaultProfileConfig_def)

text \<open>
  A global profiler that failed to start counts as started. When the file of the CPU profile
  cannot be created nothing runs, but the variable is set: every later start is refused as
  already started, until a stop, which succeeds if the memory profile can be written and
  after which a start is possible again.
\<close>

theorem failed_global_profiler_blocks_start:
  assumes "pf_CPUProfilePath cfg \<noteq> ''''" and "\<not> create (pf_CPUProfilePath cfg)"
    and "StartGlobalProfiler create cfg (None, w) = (err, g, w')"
  shows "err = Some CreateError \<and> w' = w \<and>
    (\<forall>create' cfg'. StartGlobalProfiler create' cfg' (g, w') = (Some AlreadyStarted, g, w')) \<and>
    (\<forall>create' heapOk. fst (snd (StopGlobalProfiler create' heapOk (g, w'))) = None \<and>
       snd (snd (StopGlobalProfiler create' heapOk (g, w'))) = w)"
  using assms by (auto simp: StartGlobalProfiler_def StopGlobalProfiler_def profiler_defs)

theorem failed_global_profiler_blocks_start_witness:
  "fst (StartGlobalProfiler (\<lambda>_. True) DefaultProfileConfig
      (snd (StartGlobalProfiler (\<lambda>_. False) demo_profile_config (None, quiet_profiled)))) = Some AlreadyStarted"
  using failed_global_profiler_blocks_start [of demo_profile_config "\<lambda>_. False" quiet_profiled]
  by (simp add: demo_profile_config_def prod_eq_iff split: prod.splits)

end
