(* ===== verification/Latency.thy ===== *)
theory Latency
  imports Prelude "HOL-Library.Multiset"
begin

text \<open>
  The statistics of the latency benchmark (benchmark/latency_benchmark.go): the workers'
  bookkeeping of the results of their requests, and the figures \<^verbatim>\<open>printStats\<close> reports. The
  network is an argument: a list of results per worker. The workers append under a mutex,
  so their results are recorded in some interleaving, of which the figures are independent.
\<close>

section \<open>Definitions\<close>

record latency_stats =
  ls_Latencies :: "duration list"
  ls_Errors :: int

definition new_latency_stats :: latency_stats where
  "new_latency_stats = \<lparr>ls_Latencies = [], ls_Errors = 0\<rparr>"

text \<open>The result of one request: its latency, or an error.\<close>

type_synonym request_result = "duration option"

fun record_result :: "request_result \<Rightarrow> latency_stats \<Rightarrow> latency_stats" where
  "record_result None st = st\<lparr>ls_Errors := ls_Errors st + 1\<rparr>"
| "record_result (Some lat) st = st\<lparr>ls_Latencies := ls_Latencies st @ [lat]\<rparr>"

definition requestsPerWorker :: "nat \<Rightarrow> nat \<Rightarrow> go_panic + nat" where
  "requestsPerWorker requests concurrency =
     (if concurrency = 0 then Inl DivideByZero else Inr (requests div concurrency))"

text \<open>
  A worker of the HTTP benchmark: one result per request. The TCP worker dials first; if
  that fails all its requests count as errors.
\<close>

definition http_worker :: "request_result list \<Rightarrow> latency_stats \<Rightarrow> latency_stats" where
  "http_worker results st = fold record_result results st"

definition tcp_worker :: "bool \<Rightarrow> request_result list \<Rightarrow> latency_stats \<Rightarrow> latency_stats" where
  "tcp_worker dialled results st =
     (if dialled then fold record_result results st
      else st\<lparr>ls_Errors := ls_Errors st + int (length results)\<rparr>)"

text \<open>
  The two benchmarks, with the workers' results as functions of worker and request; the flags
  are taken to be non-negative, and the workers are recorded one after the other.
\<close>

definition runHTTPBenchmark :: "nat \<Rightarrow> nat \<Rightarrow> (nat \<Rightarrow> nat \<Rightarrow> request_result) \<Rightarrow> go_panic + latency_stats" where
  "runHTTPBenchmark requests concurrency result =
     (case requestsPerWorker requests concurrency of
        Inl e \<Rightarrow> Inl e
      | Inr n \<Rightarrow> Inr (fold (\<lambda>i. http_worker (map (result i) [0..<n])) [0..<concurrency] new_latency_stats))"

definition runTCPBenchmark ::
    "nat \<Rightarrow> nat \<Rightarrow> (nat \<Rightarrow> bool) \<Rightarrow> (nat \<Rightarrow> nat \<Rightarrow> request_result) \<Rightarrow> go_panic + latency_stats" where
  "runTCPBenchmark requests concurrency dial result =
     (case requestsPerWorker requests concurrency of
        Inl e \<Rightarrow> Inl e
      | Inr n \<Rightarrow> Inr (fold (\<lambda>i. tcp_worker (dial i) (map (result i) [0..<n])) [0..<concurrency] new_latency_stats))"

record latency_report =
  lr_count :: nat
  lr_Errors :: int
  lr_min :: duration
  lr_max :: duration
  lr_avg :: duration
  lr_p50 :: duration
  lr_p90 :: duration
  lr_p95 :: duration
  lr_p99 :: duration
  lr_p999 :: duration
  lr_on_target :: bool
  lr_buckets :: "(string \<times> nat) list"

definition buckets :: "(string \<times> duration) list" where
  "buckets =
     [(''<1ms'', Millisecond), (''<5ms'', 5 * Millisecond), (''<10ms'', 10 * Millisecond),
      (''<50ms'', 50 * Millisecond), (''<100ms'', 100 * Millisecond), (''<500ms'', 500 * Millisecond),
      (''<1s'', Second), (''>1s'', 3600 * Second)]"

fun bucket_cnt :: "duration \<Rightarrow> duration list \<Rightarrow> nat" where
  "bucket_cnt limit [] = 0"
| "bucket_cnt limit (lat # lats) = (if lat \<le> limit then 1 else 0) + bucket_cnt limit lats"

definition slice_at :: "duration list \<Rightarrow> nat \<Rightarrow> go_panic + duration" where
  "slice_at xs i = (if i < length xs then Inr (xs ! i) else Inl IndexOutOfRange)"

definition percentile_index :: "nat \<Rightarrow> nat \<Rightarrow> nat \<Rightarrow> nat" where
  "percentile_index num den cnt = cnt * num div den"

text \<open>Each index expression of the function is a read that may panic, in the order of the code.\<close>

definition printStats :: "latency_stats \<Rightarrow> go_panic + latency_report option" where
  "printStats st =
     (if length (ls_Latencies st) = 0 then Inr None
      else
        let lats = sort (ls_Latencies st);
            cnt = length lats;
            rd = (\<lambda>i k. case slice_at lats i of Inl e \<Rightarrow> Inl e | Inr v \<Rightarrow> k v)
        in rd 0 (\<lambda>mn. rd (cnt - 1) (\<lambda>mx.
           rd (percentile_index 50 100 cnt) (\<lambda>p50. rd (percentile_index 90 100 cnt) (\<lambda>p90.
           rd (percentile_index 95 100 cnt) (\<lambda>p95. rd (percentile_index 99 100 cnt) (\<lambda>p99.
           rd (percentile_index 999 1000 cnt) (\<lambda>p999.
             Inr (Some \<lparr>lr_count = cnt, lr_Errors = ls_Errors st, lr_min = mn, lr_max = mx,
               lr_avg = go_quot (sum_list lats) (int cnt),
               lr_p50 = p50, lr_p90 = p90, lr_p95 = p95, lr_p99 = p99, lr_p999 = p999,
               lr_on_target = (p99 \<le> 10 * Millisecond),
               lr_buckets = map (\<lambda>(name, limit). (name, bucket_cnt limit lats)) buckets\<rparr>)))))))))"

section \<open>Facts\<close>

definition recorded :: "latency_stats \<Rightarrow> int" where
  "recorded st = int (length (ls_Latencies st)) + ls_Errors st"

lemma recorded_result: "recorded (record_result r st) = recorded st + 1"
  by (cases r) (simp_all add: recorded_def)

lemma recorded_results: "recorded (fold record_result rs st) = recorded st + int (length rs)"
  by (induction rs arbitrary: st) (simp_all add: recorded_result)

lemma recorded_workers:
  "recorded (http_worker rs st) = recorded st + int (length rs)"
  "recorded (tcp_worker dialled rs st) = recorded st + int (length rs)"
  by (simp_all add: http_worker_def tcp_worker_def recorded_results) (simp add: recorded_def)

lemma recorded_fold:
  assumes "\<And>i st. recorded (f i st) = recorded st + int n"
  shows "recorded (fold f xs st) = recorded st + int (length xs * n)"
  by (induction xs arbitrary: st) (simp_all add: assms algebra_simps)

lemma bucket_cnt_filter: "bucket_cnt limit xs = length (filter (\<lambda>x. x \<le> limit) xs)"
  by (induction xs) simp_all

lemma percentile_in_range: "0 < cnt \<Longrightarrow> num < den \<Longrightarrow> percentile_index num den cnt < cnt"
  by (simp add: percentile_index_def less_mult_imp_div_less)

text \<open>In a sorted list at least \<open>i + 1\<close> elements are at most the one at \<open>i\<close>, and at most \<open>i\<close> are less.\<close>

lemma sorted_rank:
  assumes "sorted xs" and "i < length xs"
  shows "i + 1 \<le> length (filter (\<lambda>x. x \<le> xs ! i) xs)" and "length (filter (\<lambda>x. x < xs ! i) xs) \<le> i"
proof -
  have "set (take (i + 1) xs) \<subseteq> {x. x \<le> xs ! i}"
    using assms by (auto simp: in_set_conv_nth less_Suc_eq_le intro!: sorted_nth_mono [OF assms(1)])
  then have "filter (\<lambda>x. x \<le> xs ! i) (take (i + 1) xs) = take (i + 1) xs"
    by (auto simp: filter_id_conv)
  then have "i + 1 = length (filter (\<lambda>x. x \<le> xs ! i) (take (i + 1) xs))"
    using assms(2) by simp
  also have "\<dots> \<le> length (filter (\<lambda>x. x \<le> xs ! i) (take (i + 1) xs @ drop (i + 1) xs))"
    unfolding filter_append by simp
  finally show "i + 1 \<le> length (filter (\<lambda>x. x \<le> xs ! i) xs)" by simp
next
  have "filter (\<lambda>x. x < xs ! i) (drop i xs) = []"
    using assms by (auto simp: filter_empty_conv in_set_conv_nth not_less intro!: sorted_nth_mono [OF assms(1)])
  then have "length (filter (\<lambda>x. x < xs ! i) (take i xs @ drop i xs)) = length (filter (\<lambda>x. x < xs ! i) (take i xs))"
    unfolding filter_append by simp
  also have "\<dots> \<le> i" by (rule order_trans [OF length_filter_le]) simp
  finally show "length (filter (\<lambda>x. x < xs ! i) xs) \<le> i" by simp
qed

lemma length_filter_sort: "length (filter P (sort xs)) = length (filter P xs)"
  by (metis mset_filter mset_sort size_mset)

lemma percentile_rank:
  assumes "xs \<noteq> []" and "num < den"
  defines "v \<equiv> sort xs ! percentile_index num den (length xs)"
  shows "length xs * num < den * length (filter (\<lambda>x. x \<le> v) xs)"
    and "den * length (filter (\<lambda>x. x < v) xs) \<le> length xs * num"
proof -
  let ?i = "percentile_index num den (length xs)"
  have i: "?i < length (sort xs)" using percentile_in_range [of "length xs" num den] assms(1,2) by simp
  note rank = sorted_rank [OF sorted_sort i, unfolded length_filter_sort]
  have "length xs * num < den * (?i + 1)"
    using dividend_less_times_div [of den "length xs * num"] assms(2) by (simp add: percentile_index_def)
  also have "\<dots> \<le> den * length (filter (\<lambda>x. x \<le> v) xs)"
    unfolding v_def by (rule mult_le_mono2) (rule rank(1))
  finally show "length xs * num < den * length (filter (\<lambda>x. x \<le> v) xs)" .
  have "den * length (filter (\<lambda>x. x < v) xs) \<le> den * ?i"
    unfolding v_def by (rule mult_le_mono2) (rule rank(2))
  also have "\<dots> \<le> length xs * num" by (simp add: percentile_index_def)
  finally show "den * length (filter (\<lambda>x. x < v) xs) \<le> length xs * num" .
qed

lemma printStats_report:
  assumes "ls_Latencies st \<noteq> []"
  shows "\<exists>r. printStats st = Inr (Some r) \<and> lr_count r = length (ls_Latencies st) \<and>
    lr_p50 r = sort (ls_Latencies st) ! percentile_index 50 100 (length (ls_Latencies st)) \<and>
    lr_p99 r = sort (ls_Latencies st) ! percentile_index 99 100 (length (ls_Latencies st)) \<and>
    lr_buckets r = map (\<lambda>(name, limit). (name, bucket_cnt limit (sort (ls_Latencies st)))) buckets"
proof -
  have "sort (ls_Latencies st) \<noteq> []" using assms by (metis length_0_conv length_sort)
  with assms percentile_in_range [of "length (ls_Latencies st)"] show ?thesis
    by (simp add: printStats_def slice_at_def Let_def)
qed

definition demo_latency_stats :: latency_stats where
  "demo_latency_stats = http_worker [Some 3, None, Some 1, Some 2] new_latency_stats"

section \<open>Properties\<close>

text \<open>
  Every request that is sent is counted once, as a latency or as an error, whether or not
  the TCP workers could dial; but the number sent is the requested one rounded down to a
  multiple of the concurrency. The remainder is not sent by any worker.
\<close>

theorem benchmark_accounts_for_requests:
  assumes "0 < concurrency"
    and "runHTTPBenchmark requests concurrency result = Inr st \<or>
      runTCPBenchmark requests concurrency dial result = Inr st"
  shows "int (length (ls_Latencies st)) + ls_Errors st = int requests - int (requests mod concurrency)"
proof -
  have "recorded st = int (concurrency * (requests div concurrency))"
    using assms recorded_fold [of "\<lambda>i. http_worker (map (result i) [0..<requests div concurrency])"]
      recorded_fold [of "\<lambda>i. tcp_worker (dial i) (map (result i) [0..<requests div concurrency])"]
    by (auto simp: runHTTPBenchmark_def runTCPBenchmark_def requestsPerWorker_def recorded_workers)
      (simp_all add: recorded_def new_latency_stats_def)
  also have "\<dots> = int requests - int (requests mod concurrency)"
    using mult_div_mod_eq [of concurrency requests] by (metis add_diff_cancel_right' of_nat_add)
  finally show ?thesis by (simp add: recorded_def)
qed

theorem benchmark_accounts_for_requests_witness:
  "\<exists>st. runTCPBenchmark 7 3 (\<lambda>i. i = 0) (\<lambda>_ j. Some (int j)) = Inr st \<and>
     int (length (ls_Latencies st)) + ls_Errors st = 6"
proof -
  obtain st where "runTCPBenchmark 7 3 (\<lambda>i. i = 0) (\<lambda>_ j. Some (int j)) = Inr st"
    by (simp add: runTCPBenchmark_def requestsPerWorker_def)
  with benchmark_accounts_for_requests [of 3 7 "\<lambda>_ j. Some (int j)" st "\<lambda>i. i = 0"] show ?thesis
    by simp
qed

text \<open>
  The reported percentiles are percentiles. With any successful request \<^verbatim>\<open>printStats\<close> reads no
  index out of range, more than 99 in 100 latencies are at most the reported p99 and at most
  99 in 100 are below it, and likewise for the median; and the last row of the distribution,
  named for the requests over one second, counts every request of up to an hour, so it is
  at least the row of the requests under one second.
\<close>

theorem percentiles_correct:
  assumes "ls_Latencies st \<noteq> []"
  shows "\<exists>r. printStats st = Inr (Some r) \<and> lr_count r = length (ls_Latencies st) \<and>
    lr_count r * 99 < 100 * bucket_cnt (lr_p99 r) (ls_Latencies st) \<and>
    100 * length (filter (\<lambda>x. x < lr_p99 r) (ls_Latencies st)) \<le> lr_count r * 99 \<and>
    lr_count r * 50 < 100 * bucket_cnt (lr_p50 r) (ls_Latencies st) \<and>
    100 * length (filter (\<lambda>x. x < lr_p50 r) (ls_Latencies st)) \<le> lr_count r * 50 \<and>
    (\<exists>under over. map_of (lr_buckets r) ''<1s'' = Some under \<and> map_of (lr_buckets r) ''>1s'' = Some over \<and>
       under \<le> over)"
proof -
  obtain r where r: "printStats st = Inr (Some r)" "lr_count r = length (ls_Latencies st)"
    "lr_p50 r = sort (ls_Latencies st) ! percentile_index 50 100 (length (ls_Latencies st))"
    "lr_p99 r = sort (ls_Latencies st) ! percentile_index 99 100 (length (ls_Latencies st))"
    "lr_buckets r = map (\<lambda>(name, limit). (name, bucket_cnt limit (sort (ls_Latencies st)))) buckets"
    using printStats_report [OF assms] by blast
  have "bucket_cnt Second xs \<le> bucket_cnt (3600 * Second) xs" for xs
    by (induction xs) simp_all
  with r percentile_rank [OF assms, of 99 100] percentile_rank [OF assms, of 50 100] show ?thesis
    by (simp add: bucket_cnt_filter buckets_def)
qed

theorem percentiles_correct_witness:
  "\<exists>r. printStats demo_latency_stats = Inr (Some r) \<and> lr_count r = 3"
  using percentiles_correct [of demo_latency_stats]
  by (auto simp: demo_latency_stats_def http_worker_def new_latency_stats_def)

end
