(* ===== verification/Routing.thy ===== *)
theory Routing
  imports Lifecycle
begin

text \<open>
  Where connections and requests go, in every state a server can reach. The contract of a
  balancer in \<open>LoadBalancing\<close> speaks of one selection in a good state; here the balancers are
  followed through a whole life of the server, in which backends fail and recover between
  selections. The weaker contract \<open>safe_selector\<close> survives that for every algorithm: no panic,
  nil exactly when no backend is healthy, and otherwise a backend of the pool. That this
  backend is healthy holds for all algorithms but the two on the hash ring, whose ring may be
  out of date.
\<close>

section \<open>The contract over a lifetime\<close>

text \<open>A run of selections, each against the store of its moment.\<close>

primrec selections :: "(bstore \<Rightarrow> 's \<Rightarrow> 'o \<times> 's) \<Rightarrow> bstore list \<Rightarrow> 's \<Rightarrow> 'o list" where
  "selections f [] s = []"
| "selections f (h # hs) s = fst (f h s) # selections f hs (snd (f h s))"

text \<open>
  \<open>inv p n s\<close> says that after \<open>n\<close> selections on the pool \<open>p\<close> the balancer may be in state \<open>s\<close>. The
  bound on \<open>n\<close> is the range of the signed counter of weighted round-robin.
\<close>

locale safe_selector =
  fixes sel :: "bstore \<Rightarrow> pool \<Rightarrow> 's \<Rightarrow> selection \<times> 's"
    and inv :: "pool \<Rightarrow> int \<Rightarrow> 's \<Rightarrow> bool"
  assumes safe_result: "\<lbrakk>inv p n s; n + 1 < 2 ^ 63\<rbrakk> \<Longrightarrow>
      \<exists>r. fst (sel h p s) = Inr r \<and> (r = None \<longleftrightarrow> Pool_Healthy h p = []) \<and>
        (\<forall>b. r = Some b \<longrightarrow> b \<in> set (p_backends p))"
    and safe_next: "\<lbrakk>inv p n s; n + 1 < 2 ^ 63\<rbrakk> \<Longrightarrow> inv p (n + 1) (snd (sel h p s))"
begin

lemma selections_safe:
  "\<lbrakk>inv p n s; n + int (length hs) < 2 ^ 63; i < length hs\<rbrakk> \<Longrightarrow>
     \<exists>r. selections (\<lambda>h. sel h p) hs s ! i = Inr r \<and> (r = None \<longleftrightarrow> Pool_Healthy (hs ! i) p = [])"
proof (induction hs arbitrary: n s i)
  case (Cons h hs)
  have n: "n + 1 < 2 ^ 63" using Cons.prems(2) by simp
  show ?case
  proof (cases i)
    case 0
    with safe_result [OF Cons.prems(1) n, of h] show ?thesis by auto
  next
    case (Suc j)
    with Cons.prems Cons.IH [OF safe_next [OF Cons.prems(1) n, of h], of j] show ?thesis
      by simp
  qed
qed simp

end

section \<open>The hash ring\<close>

text \<open>The ring, whatever the backends were when it was built: every point has a backend of the pool.\<close>

definition ring_safe :: "pool \<Rightarrow> consistent_hash \<Rightarrow> bool" where
  "ring_safe p ch \<longleftrightarrow> 0 < ch_virtualNodes ch \<and>
     set (ch_ring ch) \<subseteq> dom (ch_ringMap ch) \<and> ran (ch_ringMap ch) \<subseteq> set (p_backends p) \<and>
     (ch_ring ch = [] \<longleftrightarrow> ch_lastKnownSize ch = 0)"

lemma ring_safe_built:
  assumes "ring_built h (Pool_Healthy h p) ch" and vn: "0 < ch_virtualNodes ch"
  shows "ring_safe p ch"
proof -
  let ?n = "ring_nodes h (ch_virtualNodes ch) (Pool_Healthy h p)"
  from assms(1) have ring: "ch_ring ch = sort (map fst ?n)" "ch_ringMap ch = map_of (rev ?n)"
    "ch_lastKnownSize ch = int (length (Pool_Healthy h p))"
    by (simp_all add: ring_built_def)
  have "set (ch_ring ch) = dom (ch_ringMap ch)"
    by (simp add: ring dom_map_of_conv_image_fst)
  moreover have "ran (ch_ringMap ch) \<subseteq> set (p_backends p)"
    using ran_ringMap_built [OF assms(1)] by auto
  moreover have "ch_ring ch = [] \<longleftrightarrow> ?n = []"
    by (metis ring(1) length_0_conv length_map length_sort)
  ultimately show ?thesis
    using vn ring_nodes_eq_Nil [OF vn, of h "Pool_Healthy h p"] by (simp add: ring_safe_def ring(3))
qed

lemma ring_safe_rebuild:
  assumes "ring_safe p ch"
  shows "ring_safe p (rebuildRing h p ch) \<and>
    (ch_ring (rebuildRing h p ch) = [] \<longleftrightarrow> Pool_Healthy h p = [])"
proof (cases "ch_lastKnownSize ch = int (length (Pool_Healthy h p)) \<and> ch_ring ch \<noteq> []")
  case True
  with rebuildRing_noop [of ch h p] assms show ?thesis by (simp add: ring_safe_def)
next
  case False
  then have built: "ring_built h (Pool_Healthy h p) (rebuildRing h p ch)"
    by (intro rebuildRing_built) auto
  with assms have "ring_safe p (rebuildRing h p ch)"
    by (intro ring_safe_built) (simp_all add: ring_safe_def)
  with built show ?thesis by (simp add: ring_safe_def ring_built_def)
qed

lemma ring_safe_New: "ring_safe p (NewConsistentHash h p vn key)"
proof -
  have "ring_built h (Pool_Healthy h p) (NewConsistentHash h p vn key)"
    unfolding NewConsistentHash_def by (rule rebuildRing_built) simp
  moreover have "0 < ch_virtualNodes (NewConsistentHash h p vn key)"
    by (simp add: NewConsistentHash_def)
  ultimately show ?thesis by (rule ring_safe_built)
qed

lemma ring_lookup:
  assumes "ring_safe p ch" and "ch_ring ch \<noteq> []"
  shows "\<exists>b. ch_ringMap ch (ch_ring ch ! (if i \<ge> length (ch_ring ch) then 0 else i)) = Some b \<and>
    b \<in> set (p_backends p)"
proof -
  have "ch_ring ch ! (if i \<ge> length (ch_ring ch) then 0 else i) \<in> set (ch_ring ch)"
    using assms(2) by (intro nth_mem) auto
  with assms(1) show ?thesis by (force simp: ring_safe_def ran_def)
qed

section \<open>Every balancer keeps the contract\<close>

fun balancer_safe :: "pool \<Rightarrow> int \<Rightarrow> balancer \<Rightarrow> bool" where
  "balancer_safe p n (WeightedRoundRobinBalancer s) \<longleftrightarrow> 0 \<le> sint (wrr_current s) \<and> sint (wrr_current s) \<le> n"
| "balancer_safe p n (ConsistentHashBalancer s) \<longleftrightarrow> ring_safe p s"
| "balancer_safe p n (BoundedLoadBalancer s) \<longleftrightarrow> ring_safe p (bch_ch s)"
| "balancer_safe p n _ \<longleftrightarrow> True"

fun on_ring :: "balancer \<Rightarrow> bool" where
  "on_ring (ConsistentHashBalancer _) = True"
| "on_ring (BoundedLoadBalancer _) = True"
| "on_ring _ = False"

lemma balancer_safe_mono: "\<lbrakk>balancer_safe p n s; n \<le> m\<rbrakk> \<Longrightarrow> balancer_safe p m s"
  by (cases s) auto

lemma wrr_current_next:
  assumes "0 \<le> sint (wrr_current s)" and "sint (wrr_current s) \<le> n" and "n + 1 < 2 ^ 63"
  shows "0 \<le> sint (wrr_current (snd (WeightedRoundRobin_Select h p s)))"
    and "sint (wrr_current (snd (WeightedRoundRobin_Select h p s))) \<le> n + 1"
proof -
  let ?c = "nat (sint (wrr_current s))"
  have "sint (wrr_current s + 1) = int (?c + 1)"
    using assms by (intro sint_succ_64) auto
  with assms have "0 \<le> sint (wrr_current s + 1)" "sint (wrr_current s + 1) \<le> n + 1" by auto
  moreover have "wrr_current (snd (WeightedRoundRobin_Select h p s)) \<in> {wrr_current s, wrr_current s + 1}"
    by (simp add: WeightedRoundRobin_Select_def Let_def split: option.split)
  ultimately show "0 \<le> sint (wrr_current (snd (WeightedRoundRobin_Select h p s)))"
    and "sint (wrr_current (snd (WeightedRoundRobin_Select h p s))) \<le> n + 1"
    using assms by auto
qed

lemma ConsistentHash_safe:
  assumes "ring_safe p s"
  shows "\<exists>r. fst (ConsistentHash_SelectWithKey h p s key) = Inr r \<and> (r = None \<longleftrightarrow> Pool_Healthy h p = []) \<and>
    (\<forall>b. r = Some b \<longrightarrow> b \<in> set (p_backends p))"
proof -
  let ?ch = "rebuildRing h p s"
  note safe = ring_safe_rebuild [OF assms, of h]
  show ?thesis
  proof (cases "ch_ring ?ch = []")
    case True
    with safe show ?thesis by (simp add: ConsistentHash_SelectWithKey_def Let_def)
  next
    case False
    with safe ring_lookup [of p ?ch "ring_search ?ch key"] show ?thesis
      by (auto simp: ConsistentHash_SelectWithKey_def Let_def)
  qed
qed

lemma BoundedLoad_safe:
  assumes "ring_safe p (bch_ch s)"
  shows "\<exists>r. fst (BoundedLoad_SelectWithKey h p s key) = Inr r \<and> (r = None \<longleftrightarrow> Pool_Healthy h p = []) \<and>
    (\<forall>b. r = Some b \<longrightarrow> b \<in> set (p_backends p))"
proof (cases "Pool_Healthy h p")
  case Nil
  then show ?thesis by (simp add: BoundedLoad_SelectWithKey_def Let_def)
next
  case (Cons c cs)
  let ?ch = "rebuildRing h p (bch_ch s)"
  let ?walk = "bounded_walk h ?ch (max_load h (c # cs) (bch_loadFactor s)) (length (c # cs)) (ring_search ?ch key)"
  note safe = ring_safe_rebuild [OF assms, of h]
  obtain b where b: "least_loop h (c # cs) None (-1) = Some b"
    using least_loop_Some [of h cs c] by (auto simp: Let_def)
  have "set (c # cs) \<subseteq> set (p_backends p)"
    unfolding Cons [symmetric] by auto
  with least_loop_in [OF b] have "b \<in> set (p_backends p)" by auto
  moreover have "a \<in> set (p_backends p)" if "?walk = Some a" for a
    using bounded_walk_within [OF that] safe by (auto simp: ring_safe_def)
  moreover have "fst (BoundedLoad_SelectWithKey h p s key) =
      Inr (case ?walk of Some a \<Rightarrow> Some a | None \<Rightarrow> least_loop h (c # cs) None (-1))"
    using Cons safe by (simp add: BoundedLoad_SelectWithKey_def Let_def split: option.split)
  ultimately show ?thesis using Cons b by (auto split: option.splits)
qed

lemma load_balancer_safe:
  assumes "load_balancer select ok" and "ok h p s"
  shows "\<exists>r. fst (select h p s) = Inr r \<and> (r = None \<longleftrightarrow> Pool_Healthy h p = []) \<and>
    (\<forall>b. r = Some b \<longrightarrow> b \<in> set (p_backends p) \<and> b_healthy (h b))"
  by (rule load_balancer.select_cases [OF assms])
    (use load_balancer.select_nil_iff [OF assms] in auto)

lemmas balancer_contracts =
  rr.load_balancer_axioms lc.load_balancer_axioms wrr.load_balancer_axioms wlc.load_balancer_axioms

text \<open>The balancers off the ring read the marks afresh, so they select healthy backends.\<close>

lemma select_backend_healthy:
  assumes "balancer_safe p n s" and "\<not> on_ring s" and "fst (select_backend h p ip s) = Inr (Some b)"
  shows "b_healthy (h b)"
proof -
  have "balancer_ok h p s" using assms(1,2) by (cases s) simp_all
  from sb.select_healthy [OF this assms(3)] show ?thesis ..
qed

lemma on_ring_select [simp]: "on_ring (snd (select_backend h p ip s)) = on_ring s"
  by (cases s) (simp_all add: case_prod_beta Let_def)

interpretation ss: safe_selector "\<lambda>h p. select_backend h p ip" balancer_safe for ip
proof
  fix p n s h
  assume safe: "balancer_safe p n s" and n: "n + 1 < 2 ^ 63"
  show "\<exists>r. fst (select_backend h p ip s) = Inr r \<and> (r = None \<longleftrightarrow> Pool_Healthy h p = []) \<and>
      (\<forall>b. r = Some b \<longrightarrow> b \<in> set (p_backends p))"
  proof (cases "on_ring s")
    case True
    with safe ConsistentHash_safe [of p _ h ip] BoundedLoad_safe [of p _ h ip] show ?thesis
      by (cases s) (simp_all add: case_prod_beta Let_def)
  next
    case False
    with safe have "balancer_ok h p s" by (cases s) simp_all
    from load_balancer_safe [OF sb.load_balancer_axioms this, of ip] show ?thesis by blast
  qed
  show "balancer_safe p (n + 1) (snd (select_backend h p ip s))"
    using safe wrr_current_next [OF _ _ n] ring_safe_rebuild
    by (cases s) (simp_all add: case_prod_beta Let_def)
qed

lemma balancer_safe_new: "new_balancer h p lb = Inr bal \<Longrightarrow> balancer_safe p 0 bal"
  by (auto simp: new_balancer_def Let_def NewWeightedRoundRobin_def NewBoundedLoadConsistentHash_def
      ring_safe_New split: if_splits)

section \<open>Reachable states\<close>

definition ring_algorithm :: "config \<Rightarrow> bool" where
  "ring_algorithm cfg \<longleftrightarrow>
     lbc_Algorithm (cfg_LoadBalancer cfg) \<in> {''consistent-hash'', ''bounded-consistent-hash''}"

lemma on_ring_new: "new_balancer h p lb = Inr bal \<Longrightarrow>
    on_ring bal \<longleftrightarrow> lbc_Algorithm lb \<in> {''consistent-hash'', ''bounded-consistent-hash''}"
  by (auto simp: new_balancer_def Let_def split: if_splits)

text \<open>The balancer of a server whose counter stands at \<open>n\<close>.\<close>

definition serves :: "config \<Rightarrow> pool \<Rightarrow> int \<Rightarrow> balancer \<Rightarrow> bool" where
  "serves cfg p n bal \<longleftrightarrow> 0 \<le> n \<and> (n < 2 ^ 63 \<longrightarrow> balancer_safe p n bal) \<and> (on_ring bal \<longleftrightarrow> ring_algorithm cfg)"

lemma serves_new: "new_balancer h p (cfg_LoadBalancer cfg) = Inr bal \<Longrightarrow> serves cfg p 0 bal"
  using balancer_safe_new on_ring_new by (simp add: serves_def ring_algorithm_def)

lemma serves_next:
  assumes "serves cfg p n bal" and "select_backend h p ip bal = (r, bal')"
  shows "serves cfg p (n + 1) bal'"
proof -
  have bal': "bal' = snd (select_backend h p ip bal)" using assms(2) by simp
  with assms(1) show ?thesis
    using ss.safe_next [of p n bal h ip] on_ring_select [of h p ip bal] by (auto simp: serves_def)
qed

lemma serves_result:
  assumes "serves cfg p n bal" and "n + 1 < 2 ^ 63"
  shows "\<exists>r bal'. select_backend h p ip bal = (Inr r, bal') \<and> (r = None \<longleftrightarrow> Pool_Healthy h p = []) \<and>
    (\<forall>b. r = Some b \<longrightarrow> b \<in> set (p_backends p) \<and> (\<not> ring_algorithm cfg \<longrightarrow> b_healthy (h b)))"
proof -
  have safe: "balancer_safe p n bal" using assms by (simp add: serves_def)
  obtain r where r: "fst (select_backend h p ip bal) = Inr r" "r = None \<longleftrightarrow> Pool_Healthy h p = []"
    "\<forall>b. r = Some b \<longrightarrow> b \<in> set (p_backends p)"
    using ss.safe_result [OF safe assms(2), of h ip] by blast
  have "b_healthy (h b)" if "r = Some b" "\<not> ring_algorithm cfg" for b
    using select_backend_healthy [OF safe, of h ip b] r(1) that assms(1) by (simp add: serves_def)
  with r show ?thesis by (metis prod.collapse)
qed

lemma tcp_reach_serves:
  "tcp_reach cfg fl srv h \<Longrightarrow> serves cfg (srv_pool srv) (srv_totalConnections srv) (srv_balancer srv)"
proof (induction rule: tcp_reach.induct)
  case (tcp_init srv h)
  then show ?case
    by (auto simp: NewTCPServer_def make_server_def serves_new split: prod.splits sum.splits)
next
  case (tcp_routed fl srv h ip b srv' h')
  then show ?case
    by (auto simp: tcp_arrive_def Let_def dest: serves_next split: prod.splits sum.splits option.splits)
next
  case (tcp_refused fl srv h ip srv' h')
  then show ?case
    by (auto simp: tcp_arrive_def Let_def dest: serves_next split: prod.splits sum.splits option.splits)
qed (auto simp: tcp_leave_def Let_def split: tcp_end.splits)

lemma http_arrive_serves:
  assumes "serves cfg (hs_pool hs) (hs_totalRequests hs) (hs_balancer hs)"
    and "http_arrive r (hs, h) = (sel, hs', h')"
  shows "serves cfg (hs_pool hs') (hs_totalRequests hs') (hs_balancer hs') \<and> hs_pool hs' = hs_pool hs"
proof -
  obtain sel0 bal where sel: "select_backend h (hs_pool hs) (getClientIP r) (hs_balancer hs) = (sel0, bal)"
    by (metis surj_pair)
  from serves_next [OF assms(1) sel] sel assms(2) show ?thesis
    by (auto simp: http_arrive_def http_select_def Let_def split: sum.splits option.splits)
qed

lemma http_leave_frame:
  "http_leave r b e w (hs, h) = (resp, hs', h') \<Longrightarrow>
     hs_pool hs' = hs_pool hs \<and> hs_totalRequests hs' = hs_totalRequests hs \<and> hs_balancer hs' = hs_balancer hs"
  by (auto simp: http_leave_def ws_leave_def serve_leave_def count_error_def Let_def
      split: if_splits ws_end.splits serve_end.splits)

lemma http_reach_serves:
  assumes "http_reach hs0 h0 fl hs h"
    and "serves cfg (hs_pool hs0) (hs_totalRequests hs0) (hs_balancer hs0)"
  shows "serves cfg (hs_pool hs) (hs_totalRequests hs) (hs_balancer hs) \<and> hs_pool hs = hs_pool hs0"
  using assms
proof (induction rule: http_reach.induct)
  case (http_routed fl hs h r b hs' h')
  then show ?case using http_arrive_serves by metis
next
  case (http_refused fl hs h r sel hs' h')
  then show ?case using http_arrive_serves by metis
next
  case (http_ended r b fl hs h e w resp hs' h')
  then show ?case using http_leave_frame by metis
qed auto

lemma NewHTTPServer_serves:
  assumes "NewHTTPServer sortSlice cfg = Inr (srv, h)" and "srv_httpServer srv = Some hs"
  shows "serves cfg (hs_pool hs) (hs_totalRequests hs) (hs_balancer hs) \<and>
    p_backends (hs_pool hs) = [0..<length (cfg_Backends cfg)]"
  using assms add_backends_pool [of 0 "cfg_Backends cfg" "(\<lambda>_. no_backend, NewPool)"]
  by (auto simp: NewHTTPServer_def make_server_def NewPool_def Let_def serves_new
      split: prod.splits sum.splits option.splits)

text \<open>The answer to a request is decided by the selection: 503 without a backend, never with one.\<close>

lemma http_leave_status: "fst (http_leave r b e w s) \<noteq> Status 503"
  by (cases s) (auto simp: http_leave_def ws_leave_def serve_leave_def Let_def
      split: if_splits ws_end.splits serve_end.splits prod.splits)

lemma handle_after_selection:
  assumes "select_backend h (hs_pool hs) (getClientIP r) (hs_balancer hs) = (Inr sel, bal')"
  shows "\<exists>resp hs' h'. handleRequest r serve upgrade (hs, h) = (Inr resp, hs', h') \<and>
    (resp = Status 503 \<longleftrightarrow> sel = None)"
proof (cases sel)
  case None
  with assms show ?thesis
    by (simp add: handleRequest_def http_arrive_def http_select_def Let_def)
next
  case (Some b)
  with assms obtain hs1 h1 where arr: "http_arrive r (hs, h) = (Inr (Some b), hs1, h1)"
    by (simp add: http_arrive_def http_select_def Let_def)
  let ?lv = "http_leave r b (serve (b_address (h1 b))) (upgrade (b_address (h1 b))) (hs1, h1)"
  have "handleRequest r serve upgrade (hs, h) = (Inr (fst ?lv), fst (snd ?lv), snd (snd ?lv))"
    by (simp add: handleRequest_def arr Let_def case_prod_beta)
  with Some http_leave_status [of r b] show ?thesis by blast
qed

text \<open>All configured backends are down.\<close>

definition all_down :: "config \<Rightarrow> bstore \<Rightarrow> bool" where
  "all_down cfg h \<longleftrightarrow> (\<forall>b < length (cfg_Backends cfg). \<not> b_healthy (h b))"

lemma all_down_healthy:
  "p_backends p = [0..<length (cfg_Backends cfg)] \<Longrightarrow> Pool_Healthy h p = [] \<longleftrightarrow> all_down cfg h"
  by (auto simp: Pool_Healthy_def all_down_def filter_empty_conv)

lemma tcp_arrive_total:
  assumes "tcp_reach cfg fl srv h" and "srv_totalConnections srv + 1 < 2 ^ 63"
  shows "\<exists>r srv' h'. tcp_arrive ip (srv, h) = (Inr r, srv', h') \<and> (r = None \<longleftrightarrow> all_down cfg h) \<and>
    (\<forall>b. r = Some b \<longrightarrow> b < length (cfg_Backends cfg) \<and> (\<not> ring_algorithm cfg \<longrightarrow> b_healthy (h b)))"
proof -
  have pool: "p_backends (srv_pool srv) = [0..<length (cfg_Backends cfg)]"
    using tcp_reach_tracks [OF assms(1)] by blast
  obtain r bal' where sel: "select_backend h (srv_pool srv) ip (srv_balancer srv) = (Inr r, bal')"
    "r = None \<longleftrightarrow> Pool_Healthy h (srv_pool srv) = []"
    "\<forall>b. r = Some b \<longrightarrow> b \<in> set (p_backends (srv_pool srv)) \<and> (\<not> ring_algorithm cfg \<longrightarrow> b_healthy (h b))"
    using serves_result [OF tcp_reach_serves [OF assms(1)] assms(2)] by blast
  then show ?thesis
    using all_down_healthy [OF pool, of h] by (cases r) (auto simp: tcp_arrive_def Let_def pool)
qed

section \<open>The running server refines the bookkeeping\<close>

text \<open>
  The flags of the listener and the context do not influence what a connection does: every
  state of the running server is, up to these flags, a state of \<open>tcp_reach\<close>.
\<close>

definition with_flags :: "bool \<Rightarrow> bool \<Rightarrow> server \<Rightarrow> server" where
  "with_flags l c srv = srv\<lparr>srv_listening := l, srv_cancelled := c\<rparr>"

lemma with_flags_update:
  "(with_flags l c srv)\<lparr>srv_listening := l'\<rparr> = with_flags l' c srv"
  "(with_flags l c srv)\<lparr>srv_cancelled := c'\<rparr> = with_flags l c' srv"
  "srv_totalConnections (with_flags l c srv) = srv_totalConnections srv"
  by (simp_all add: with_flags_def)

lemma tcp_arrive_flags_commute:
  "tcp_arrive ip (with_flags l c srv, h) =
     (case tcp_arrive ip (srv, h) of (r, srv', h') \<Rightarrow> (r, with_flags l c srv', h'))"
  by (simp add: tcp_arrive_def with_flags_def Let_def split: prod.split sum.split option.split)

lemma tcp_leave_flags_commute:
  "tcp_leave b e (with_flags l c srv, h) =
     (case tcp_leave b e (srv, h) of (srv', h') \<Rightarrow> (with_flags l c srv', h'))"
  by (simp add: tcp_leave_def with_flags_def Let_def split: tcp_end.split)

definition life_abs :: "config \<Rightarrow> tcp_life \<Rightarrow> bool" where
  "life_abs cfg s \<longleftrightarrow>
     (\<exists>srv l c. tcp_reach cfg (tl_flight s) srv (tl_store s) \<and> tl_server s = with_flags l c srv)"

lemma life_absI:
  "\<lbrakk>tcp_reach cfg (tl_flight s) srv (tl_store s); tl_server s = with_flags l c srv\<rbrakk> \<Longrightarrow> life_abs cfg s"
  by (auto simp: life_abs_def)

lemma life_abs_same:
  "\<lbrakk>life_abs cfg s; tl_flight s' = tl_flight s; tl_store s' = tl_store s;
    \<exists>l c. tl_server s' = with_flags l c (tl_server s)\<rbrakk> \<Longrightarrow> life_abs cfg s'"
  unfolding life_abs_def by (force simp: with_flags_def)

lemma with_flags_cases:
  "\<exists>l c. srv = with_flags l c srv"
  "\<exists>l c. srv\<lparr>srv_cancelled := d\<rparr> = with_flags l c srv"
  "\<exists>l c. srv\<lparr>srv_listening := m\<rparr> = with_flags l c srv"
  by (rule exI [of _ "srv_listening srv"], rule exI [of _ "srv_cancelled srv"], simp add: with_flags_def,
      rule exI [of _ "srv_listening srv"], rule exI [of _ d], simp add: with_flags_def,
      rule exI [of _ m], rule exI [of _ "srv_cancelled srv"], simp add: with_flags_def)

lemma life_abs_begin:
  assumes "life_abs cfg s" and step: "handler_begin ip s = Some s'"
  shows "life_abs cfg s'"
proof -
  obtain srv l c where abs: "tcp_reach cfg (tl_flight s) srv (tl_store s)" "tl_server s = with_flags l c srv"
    using assms(1) by (auto simp: life_abs_def)
  obtain r srv' h' where arr: "tcp_arrive ip (srv, tl_store s) = (r, srv', h')" by (metis prod_cases3)
  then have life: "tcp_arrive ip (tl_server s, tl_store s) = (r, with_flags l c srv', h')"
    by (simp add: abs(2) tcp_arrive_flags_commute)
  show ?thesis
  proof (cases r)
    case (Inl e)
    with step life show ?thesis by (simp add: handler_begin_def split: if_splits)
  next
    case (Inr sel)
    show ?thesis
    proof (cases sel)
      case None
      with Inr arr have "tcp_reach cfg (tl_flight s) srv' h'" by (auto intro: tcp_refused [OF abs(1)])
      with None Inr step life show ?thesis
        by (intro life_absI [of _ _ srv' l c]) (auto simp: handler_begin_def split: if_splits)
    next
      case (Some b)
      with Inr arr have "tcp_reach cfg (add_mset b (tl_flight s)) srv' h'"
        by (auto intro: tcp_routed [OF abs(1)])
      with Some Inr step life show ?thesis
        by (intro life_absI [of _ _ srv' l c]) (auto simp: handler_begin_def split: if_splits)
    qed
  qed
qed

lemma life_abs_end:
  assumes "life_abs cfg s" and step: "handler_end b e s = Some s'"
  shows "life_abs cfg s'"
proof -
  obtain srv l c where abs: "tcp_reach cfg (tl_flight s) srv (tl_store s)" "tl_server s = with_flags l c srv"
    using assms(1) by (auto simp: life_abs_def)
  from step obtain fl where fl: "tl_flight s = add_mset b fl"
    by (auto simp: handler_end_def split: if_splits dest: multi_member_split)
  obtain srv' h' where lv: "tcp_leave b e (srv, tl_store s) = (srv', h')" by (metis surj_pair)
  then have "tcp_reach cfg fl srv' h'" using abs(1) unfolding fl by (rule tcp_ended [rotated])
  moreover have "tl_flight s' = fl" "tl_store s' = h'" "tl_server s' = with_flags l c srv'"
    using step lv fl by (auto simp: handler_end_def abs(2) tcp_leave_flags_commute)
  ultimately show ?thesis by (auto simp: life_abs_def)
qed

lemma life_abs_mark:
  assumes "life_abs cfg s"
  shows "life_abs cfg (s\<lparr>tl_store := if up then MarkHealthy b (tl_store s) else MarkUnhealthy b (tl_store s)\<rparr>)"
  using assms by (cases up) (auto simp: life_abs_def intro: tcp_up tcp_down)

lemma life_abs_step:
  assumes abs: "life_abs cfg s" and step: "life_step ev s = Some s'"
  shows "life_abs cfg s'"
proof (cases ev)
  case (Accept a)
  with step show ?thesis
    by (intro life_abs_same [OF abs])
      (auto simp: acceptLoop_turn_def split: if_splits accepted.splits intro: with_flags_cases)
next
  case (Begin ip)
  with step life_abs_begin [OF abs] show ?thesis by simp
next
  case (Finish b e)
  with step life_abs_end [OF abs] show ?thesis by simp
next
  case (Mark up b)
  with step life_abs_mark [OF abs, of up b] show ?thesis by simp
next
  case Cancel
  with step show ?thesis
    by (intro life_abs_same [OF abs])
      (auto simp: Shutdown_cancel_def split: if_splits intro: with_flags_cases)
next
  case CloseListener
  with step show ?thesis
    by (intro life_abs_same [OF abs])
      (auto simp: Shutdown_close_def split: if_splits intro: with_flags_cases)
next
  case (Await t)
  with step show ?thesis
    by (intro life_abs_same [OF abs]) (auto simp: Shutdown_wait_def split: if_splits intro: with_flags_cases)
qed

lemma life_refines_tcp: "life_reach cfg s \<Longrightarrow> life_abs cfg s"
proof (induction rule: life_reach.induct)
  case (life_init s)
  then have "tcp_reach cfg {#} (fst s) (snd s)" by (intro tcp_init) simp
  moreover have "(fst s)\<lparr>srv_listening := True\<rparr> = with_flags True (srv_cancelled (fst s)) (fst s)"
    by (simp add: with_flags_def)
  ultimately show ?case unfolding life_abs_def life_start_def by force
next
  case (life_next s ev s')
  then show ?case by (blast intro: life_abs_step)
qed

text \<open>So no handler of the running server panics while its counter is in range.\<close>

lemma life_arrive_total:
  assumes "life_reach cfg s" and "srv_totalConnections (tl_server s) + 1 < 2 ^ 63"
  shows "\<exists>r. fst (tcp_arrive ip (tl_server s, tl_store s)) = Inr r"
proof -
  obtain srv l c where abs: "tcp_reach cfg (tl_flight s) srv (tl_store s)" "tl_server s = with_flags l c srv"
    using life_refines_tcp [OF assms(1)] by (auto simp: life_abs_def)
  with assms(2) have "srv_totalConnections srv + 1 < 2 ^ 63" by (simp add: with_flags_update)
  from tcp_arrive_total [OF abs(1) this, of ip] show ?thesis
    by (auto simp: abs(2) tcp_arrive_flags_commute)
qed

section \<open>Shutdown comes to its end\<close>

text \<open>Connections counted, and those that will be when their handler runs.\<close>

definition counted_connections :: "tcp_life \<Rightarrow> int" where
  "counted_connections s = srv_totalConnections (tl_server s) + int (tl_spawned s)"

lemma tcp_arrive_count:
  "tcp_arrive ip (srv, h) = (r, srv', h') \<Longrightarrow> srv_totalConnections srv' = srv_totalConnections srv + 1"
  by (auto simp: tcp_arrive_def Let_def split: prod.splits sum.splits option.splits)

lemma tcp_leave_count:
  "tcp_leave b e (srv, h) = (srv', h') \<Longrightarrow> srv_totalConnections srv' = srv_totalConnections srv"
  by (auto simp: tcp_leave_def Let_def split: tcp_end.splits)

lemma goroutine_counted:
  assumes "life_inv s" and "tl_phase s = ListenerClosed" and "goroutine_event ev" and "life_step ev s = Some s'"
  shows "counted_connections s' = counted_connections s \<and> tl_phase s' = ListenerClosed"
proof (cases ev)
  case (Accept a)
  with assms show ?thesis
    by (auto simp: acceptLoop_turn_def counted_connections_def life_inv_def split: if_splits accepted.splits)
next
  case (Begin ip)
  obtain r srv h where "tcp_arrive ip (tl_server s, tl_store s) = (r, srv, h)" by (metis prod_cases3)
  with Begin assms tcp_arrive_count [OF this] show ?thesis
    by (auto simp: handler_begin_def counted_connections_def split: if_splits sum.splits option.splits)
next
  case (Finish b e)
  obtain srv h where "tcp_leave b e (tl_server s, tl_store s) = (srv, h)" by (metis surj_pair)
  with Finish assms tcp_leave_count [OF this] show ?thesis
    by (auto simp: handler_end_def counted_connections_def split: if_splits)
qed (use assms in auto)

lemma drain_exists:
  "\<lbrakk>life_reach cfg s; tl_phase s = ListenerClosed; counted_connections s + 1 < 2 ^ 63\<rbrakk> \<Longrightarrow>
     \<exists>evs t. life_run evs s = Some t \<and> tl_phase t = ShutdownDone"
proof (induction "remaining s" arbitrary: s rule: less_induct)
  case less
  note inv = life_reach_inv [OF less.prems(1)]
  have closed: "closed s" using less.prems(2) by (simp add: closed_def)
  show ?case
  proof (cases "remaining s = 0")
    case True
    then have "tl_wg s = 0" using remaining_wg [OF inv] by simp
    with less.prems(2) have "life_run [Await False] s = Some (s\<lparr>tl_phase := ShutdownDone\<rparr>)"
      by (simp add: Shutdown_wait_def)
    moreover have "tl_phase (s\<lparr>tl_phase := ShutdownDone\<rparr>) = ShutdownDone" by simp
    ultimately show ?thesis by blast
  next
    case False
    have "srv_totalConnections (tl_server s) + 1 < 2 ^ 63"
      using less.prems(3) by (simp add: counted_connections_def)
    from life_arrive_total [OF less.prems(1) this]
    have "\<exists>ip r. fst (tcp_arrive ip (tl_server s, tl_store s)) = Inr r" by blast
    from closed_enabled [OF inv closed False this] obtain ev u where
      ev: "goroutine_event ev" "life_step ev s = Some u" by blast
    have "remaining u < remaining s" using closed_step [OF inv closed ev(2)] ev(1) by simp
    moreover note goroutine_counted [OF inv less.prems(2) ev]
    moreover have "life_reach cfg u" by (rule life_next [OF less.prems(1) ev(2)])
    ultimately obtain evs t where "life_run evs u = Some t" "tl_phase t = ShutdownDone"
      using less.hyps [of u] less.prems(3) by auto
    with ev(2) have "life_run (ev # evs) s = Some t" by simp
    with \<open>tl_phase t = ShutdownDone\<close> show ?thesis by blast
  qed
qed

end
