(* ===== verification/HttpLife.thy ===== *)
theory HttpLife
  imports Proxy
begin

text \<open>
  The life of a running HTTP server (http.go): \<^verbatim>\<open>Start\<close>, requests in flight, hijacked WebSocket
  connections, and \<^verbatim>\<open>Shutdown\<close>. Of \<^verbatim>\<open>net/http\<close> the documented behaviour is used: \<^verbatim>\<open>ListenAndServe\<close>
  returns once \<^verbatim>\<open>Shutdown\<close> of the library has closed the listener, and that function returns without an
  error only when no request is in flight, where a hijacked connection is neither waited for
  nor closed.
\<close>

section \<open>State\<close>

datatype http_phase = Serving | Cancelled | Draining | Drained | TimedOut | Returned bool

text \<open>\<open>hl_wg\<close> is the wait group of the server, \<open>hl_serving\<close> its one goroutine.\<close>

record http_life =
  hl_server :: http_server
  hl_store :: bstore
  hl_wg :: int
  hl_serving :: bool
  hl_flight :: "(request \<times> bref) multiset"
  hl_hijacked :: "(request \<times> bref) multiset"
  hl_phase :: http_phase

definition HTTPServer_Start :: "http_server \<times> bstore \<Rightarrow> http_life" where
  "HTTPServer_Start s =
     \<lparr>hl_server = fst s, hl_store = snd s, hl_wg = 1, hl_serving = True,
      hl_flight = {#}, hl_hijacked = {#}, hl_phase = Serving\<rparr>"

section \<open>Requests\<close>

text \<open>
  A request arrives on a connection of the library's server; after a shutdown that has
  drained there is none left.
\<close>

definition hl_arrive :: "request \<Rightarrow> http_life \<Rightarrow> http_life option" where
  "hl_arrive r s =
     (if hl_phase s = Drained \<or> hl_phase s = Returned True then None
      else case http_arrive r (hl_server s, hl_store s) of
        (Inr (Some b), hs, h) \<Rightarrow>
          Some (s\<lparr>hl_server := hs, hl_store := h, hl_flight := add_mset (r, b) (hl_flight s)\<rparr>)
      | (_, hs, h) \<Rightarrow> Some (s\<lparr>hl_server := hs, hl_store := h\<rparr>))"

definition upgrades :: "http_life \<Rightarrow> request \<Rightarrow> bool" where
  "upgrades s r \<longleftrightarrow> http_EnableWebSocket (hs_http (hl_server s)) \<and> isWebSocketRequest r"

text \<open>\<^verbatim>\<open>Hijack\<close> of a WebSocket request: from here on the library does not know the connection.\<close>

definition hl_hijack :: "request \<Rightarrow> bref \<Rightarrow> http_life \<Rightarrow> http_life option" where
  "hl_hijack r b s =
     (if (r, b) \<in># hl_flight s \<and> upgrades s r
      then Some (s\<lparr>hl_flight := hl_flight s - {#(r, b)#}, hl_hijacked := add_mset (r, b) (hl_hijacked s)\<rparr>)
      else None)"

fun after_hijack :: "ws_end \<Rightarrow> bool" where
  "after_hijack WsWriteFailed = True"
| "after_hijack (WsCopied _ _) = True"
| "after_hijack _ = False"

definition hl_end :: "request \<Rightarrow> bref \<Rightarrow> serve_end \<Rightarrow> ws_end \<Rightarrow> http_life \<Rightarrow> http_life option" where
  "hl_end r b e w s =
     (let (_, hs, h) = http_leave r b e w (hl_server s, hl_store s); s' = s\<lparr>hl_server := hs, hl_store := h\<rparr>
      in if upgrades s r \<and> after_hijack w
         then (if (r, b) \<in># hl_hijacked s then Some (s'\<lparr>hl_hijacked := hl_hijacked s - {#(r, b)#}\<rparr>) else None)
         else (if (r, b) \<in># hl_flight s then Some (s'\<lparr>hl_flight := hl_flight s - {#(r, b)#}\<rparr>) else None))"

section \<open>Shutdown\<close>

definition HTTPServer_cancel :: "http_life \<Rightarrow> http_life option" where
  "HTTPServer_cancel s = (if hl_phase s = Serving then Some (s\<lparr>hl_phase := Cancelled\<rparr>) else None)"

text \<open>The library's \<^verbatim>\<open>Shutdown\<close> closes the listener, and \<^verbatim>\<open>ListenAndServe\<close> returns in the goroutine of \<^verbatim>\<open>Start\<close>.\<close>

definition HTTPServer_close :: "http_life \<Rightarrow> http_life option" where
  "HTTPServer_close s = (if hl_phase s = Cancelled then Some (s\<lparr>hl_phase := Draining\<rparr>) else None)"

definition serve_returns :: "http_life \<Rightarrow> http_life option" where
  "serve_returns s =
     (if hl_serving s \<and> hl_phase s \<notin> {Serving, Cancelled}
      then Some (s\<lparr>hl_serving := False, hl_wg := hl_wg s - 1\<rparr>) else None)"

definition HTTPServer_drained :: "bool \<Rightarrow> http_life \<Rightarrow> http_life option" where
  "HTTPServer_drained timeout s =
     (if hl_phase s \<noteq> Draining then None
      else if timeout then Some (s\<lparr>hl_phase := TimedOut\<rparr>)
      else if hl_flight s = {#} then Some (s\<lparr>hl_phase := Drained\<rparr>)
      else None)"

text \<open>\<^verbatim>\<open>h.wg.Wait()\<close>, after which \<^verbatim>\<open>Shutdown\<close> returns; the timeout of the library is only logged.\<close>

definition HTTPServer_wait :: "http_life \<Rightarrow> http_life option" where
  "HTTPServer_wait s =
     (if hl_phase s \<in> {Drained, TimedOut} \<and> hl_wg s = 0
      then Some (s\<lparr>hl_phase := Returned (hl_phase s = Drained)\<rparr>) else None)"

datatype http_event =
    HArrive request
  | HHijack request bref
  | HEnd request bref serve_end ws_end
  | HMark bool bref
  | HCancel
  | HClose
  | HServeReturns
  | HDrained bool
  | HWait

fun http_step :: "http_event \<Rightarrow> http_life \<Rightarrow> http_life option" where
  "http_step (HArrive r) s = hl_arrive r s"
| "http_step (HHijack r b) s = hl_hijack r b s"
| "http_step (HEnd r b e w) s = hl_end r b e w s"
| "http_step (HMark up b) s =
     Some (s\<lparr>hl_store := (if up then MarkHealthy b (hl_store s) else MarkUnhealthy b (hl_store s))\<rparr>)"
| "http_step HCancel s = HTTPServer_cancel s"
| "http_step HClose s = HTTPServer_close s"
| "http_step HServeReturns s = serve_returns s"
| "http_step (HDrained t) s = HTTPServer_drained t s"
| "http_step HWait s = HTTPServer_wait s"

primrec http_run :: "http_event list \<Rightarrow> http_life \<Rightarrow> http_life option" where
  "http_run [] s = Some s"
| "http_run (ev # evs) s = (case http_step ev s of None \<Rightarrow> None | Some t \<Rightarrow> http_run evs t)"

section \<open>Facts\<close>

lemmas http_shutdown_defs = HTTPServer_cancel_def HTTPServer_close_def serve_returns_def
  HTTPServer_drained_def HTTPServer_wait_def

text \<open>
  The abstraction: a state of \<open>http_reach\<close> whose requests in flight are those the library knows
  and the hijacked ones together. The rest of the invariant is about \<^verbatim>\<open>Shutdown\<close>.
\<close>

definition http_life_inv :: "http_server \<Rightarrow> bstore \<Rightarrow> http_life \<Rightarrow> bool" where
  "http_life_inv hs0 h0 s \<longleftrightarrow>
     http_reach hs0 h0 (hl_flight s + hl_hijacked s) (hl_server s) (hl_store s) \<and>
     hl_wg s = (if hl_serving s then 1 else 0) \<and>
     (hl_phase s = Drained \<or> hl_phase s = Returned True \<longrightarrow> hl_flight s = {#})"

lemma http_life_inv_same:
  "\<lbrakk>http_life_inv hs0 h0 s; hl_server t = hl_server s; hl_store t = hl_store s; hl_flight t = hl_flight s;
    hl_hijacked t = hl_hijacked s; hl_wg t = (if hl_serving t then 1 else 0);
    hl_phase t = Drained \<or> hl_phase t = Returned True \<Longrightarrow> hl_flight s = {#}\<rbrakk> \<Longrightarrow> http_life_inv hs0 h0 t"
  by (auto simp: http_life_inv_def)

lemma hl_arrive_inv:
  assumes inv: "http_life_inv hs0 h0 s" and step: "hl_arrive r s = Some t"
  shows "http_life_inv hs0 h0 t"
proof -
  obtain sel hs h where arr: "http_arrive r (hl_server s, hl_store s) = (sel, hs, h)" by (metis prod_cases3)
  have ph: "hl_phase s \<noteq> Drained" "hl_phase s \<noteq> Returned True" and phase: "hl_phase t = hl_phase s"
    and wg: "hl_wg t = hl_wg s" "hl_serving t = hl_serving s" "hl_hijacked t = hl_hijacked s"
      "hl_server t = hs" "hl_store t = h"
    using step arr by (auto simp: hl_arrive_def split: if_splits sum.splits option.splits)
  have reach: "http_reach hs0 h0 (hl_flight s + hl_hijacked s) (hl_server s) (hl_store s)"
    using inv by (simp add: http_life_inv_def)
  have "http_reach hs0 h0 (hl_flight t + hl_hijacked t) hs h"
  proof (cases "\<exists>b. sel = Inr (Some b)")
    case True
    then obtain b where b: "sel = Inr (Some b)" by blast
    with step arr have "hl_flight t = add_mset (r, b) (hl_flight s)"
      by (auto simp: hl_arrive_def split: if_splits)
    with http_routed [OF reach arr [unfolded b]] wg(3) show ?thesis by simp
  next
    case False
    with step arr have "hl_flight t = hl_flight s"
      by (auto simp: hl_arrive_def split: if_splits sum.splits option.splits)
    with http_refused [OF reach arr] False wg(3) show ?thesis by simp
  qed
  with inv ph phase wg show ?thesis by (simp add: http_life_inv_def)
qed

lemma hl_hijack_inv:
  assumes "http_life_inv hs0 h0 s" and "hl_hijack r b s = Some t"
  shows "http_life_inv hs0 h0 t"
proof -
  obtain fl where "hl_flight s = add_mset (r, b) fl"
    using assms(2) by (auto simp: hl_hijack_def split: if_splits dest: multi_member_split)
  with assms show ?thesis by (auto simp: http_life_inv_def hl_hijack_def split: if_splits)
qed

lemma hl_end_inv:
  assumes inv: "http_life_inv hs0 h0 s" and step: "hl_end r b e w s = Some t"
  shows "http_life_inv hs0 h0 t"
proof -
  obtain resp hs h where lv: "http_leave r b e w (hl_server s, hl_store s) = (resp, hs, h)" by (metis prod_cases3)
  have reach: "http_reach hs0 h0 (hl_flight s + hl_hijacked s) (hl_server s) (hl_store s)"
    using inv by (simp add: http_life_inv_def)
  show ?thesis
  proof (cases "upgrades s r \<and> after_hijack w")
    case True
    with step lv have mem: "(r, b) \<in># hl_hijacked s"
      and t: "t = s\<lparr>hl_server := hs, hl_store := h, hl_hijacked := hl_hijacked s - {#(r, b)#}\<rparr>"
      by (auto simp: hl_end_def Let_def split: if_splits)
    then obtain fl where "hl_hijacked s = add_mset (r, b) fl" by (auto dest: multi_member_split)
    with reach have "http_reach hs0 h0 (add_mset (r, b) (hl_flight s + fl)) (hl_server s) (hl_store s)" by simp
    from http_ended [OF this lv] inv \<open>hl_hijacked s = add_mset (r, b) fl\<close> show ?thesis
      by (simp add: t http_life_inv_def)
  next
    case False
    with step lv have mem: "(r, b) \<in># hl_flight s"
      and t: "t = s\<lparr>hl_server := hs, hl_store := h, hl_flight := hl_flight s - {#(r, b)#}\<rparr>"
      by (auto simp: hl_end_def Let_def split: if_splits)
    then obtain fl where fl: "hl_flight s = add_mset (r, b) fl" by (auto dest: multi_member_split)
    with reach have "http_reach hs0 h0 (add_mset (r, b) (fl + hl_hijacked s)) (hl_server s) (hl_store s)" by simp
    from http_ended [OF this lv] inv fl show ?thesis by (simp add: t http_life_inv_def)
  qed
qed

lemma http_shutdown_inv:
  "\<lbrakk>http_life_inv hs0 h0 s; HTTPServer_cancel s = Some t\<rbrakk> \<Longrightarrow> http_life_inv hs0 h0 t"
  "\<lbrakk>http_life_inv hs0 h0 s; HTTPServer_close s = Some t\<rbrakk> \<Longrightarrow> http_life_inv hs0 h0 t"
  "\<lbrakk>http_life_inv hs0 h0 s; serve_returns s = Some t\<rbrakk> \<Longrightarrow> http_life_inv hs0 h0 t"
  "\<lbrakk>http_life_inv hs0 h0 s; HTTPServer_drained b s = Some t\<rbrakk> \<Longrightarrow> http_life_inv hs0 h0 t"
  "\<lbrakk>http_life_inv hs0 h0 s; HTTPServer_wait s = Some t\<rbrakk> \<Longrightarrow> http_life_inv hs0 h0 t"
  by (auto simp: http_shutdown_defs http_life_inv_def split: if_splits)

lemma http_step_inv:
  assumes inv: "http_life_inv hs0 h0 s" and step: "http_step ev s = Some t"
  shows "http_life_inv hs0 h0 t"
proof (cases ev)
  case (HArrive r)
  with step hl_arrive_inv [OF inv] show ?thesis by simp
next
  case (HHijack r b)
  with step hl_hijack_inv [OF inv] show ?thesis by simp
next
  case (HEnd r b e w)
  with step hl_end_inv [OF inv] show ?thesis by simp
next
  case (HMark up b)
  with step inv show ?thesis by (cases up) (auto simp: http_life_inv_def intro: http_up http_down)
qed (use step http_shutdown_inv [OF inv] in auto)

lemma http_run_inv: "\<lbrakk>http_life_inv hs0 h0 s; http_run evs s = Some t\<rbrakk> \<Longrightarrow> http_life_inv hs0 h0 t"
  by (induction evs arbitrary: s) (auto split: option.splits dest: http_step_inv)

lemma http_life_inv_start: "http_life_inv hs h (HTTPServer_Start (hs, h))"
  by (simp add: http_life_inv_def HTTPServer_Start_def http_init)

section \<open>Properties\<close>


definition ws_request :: request where
  "ws_request = demo_request ''x'' \<lparr>req_Header := [(''Upgrade'', [''websocket'']), (''Connection'', [''Upgrade''])]\<rparr>"

lemma ws_request_upgrades: "isWebSocketRequest ws_request"
  by code_simp


end
