(* ===== verification/Relay.thy ===== *)
theory Relay
  imports "HOL-Library.Sublist" Prelude
begin

text \<open>
  The two-way copies of the proxy: \<^verbatim>\<open>proxyData\<close> (server.go), \<^verbatim>\<open>proxyWebSocket\<close> (http.go) and
  \<^verbatim>\<open>BidirectionalCopy\<close> (zerocopy.go). Each runs one copying goroutine per direction; they
  differ in what a goroutine does when its copy has returned, and in whether the connections
  are closed after the first one. The model interleaves the goroutines with the two peers, who
  send bytes and end their stream as they like, and with errors of the network.

  The stream of a side is split into what has been delivered to the other side and what the
  relay has yet to read. The locale \<open>stream_relay\<close> has what the three share; its lemmas hold for
  each by interpretation.
\<close>

section \<open>State\<close>

datatype side = ClientSide | BackendSide

fun other :: "side \<Rightarrow> side" where
  "other ClientSide = BackendSide"
| "other BackendSide = ClientSide"

text \<open>
  Per side: what it has sent, what of this is not yet copied, what it has been given, whether
  it has ended its stream, whether it has been told the end of the other's, and how the copy
  of its stream ended, if it has. The two counters are those of the server's statistics.
\<close>

record relay =
  rl_sent :: "side \<Rightarrow> string"
  rl_pending :: "side \<Rightarrow> string"
  rl_got :: "side \<Rightarrow> string"
  rl_fin :: "side \<Rightarrow> bool"
  rl_eof :: "side \<Rightarrow> bool"
  rl_done :: "side \<Rightarrow> bool option"
  rl_first :: "bool option"
  rl_closed :: bool
  rl_bytesReceived :: nat
  rl_bytesSent :: nat

definition new_relay :: relay where
  "new_relay =
     \<lparr>rl_sent = (\<lambda>_. []), rl_pending = (\<lambda>_. []), rl_got = (\<lambda>_. []), rl_fin = (\<lambda>_. False), rl_eof = (\<lambda>_. False),
      rl_done = (\<lambda>_. None), rl_first = None, rl_closed = False, rl_bytesReceived = 0, rl_bytesSent = 0\<rparr>"

section \<open>What a goroutine does when its copy has returned\<close>

text \<open>
  \<^verbatim>\<open>proxyData\<close>: count the bytes, and close the writing side of the destination, whatever the
  copy returned. The bytes copied are all that were delivered.
\<close>

definition proxyData_copied :: "bool \<Rightarrow> side \<Rightarrow> relay \<Rightarrow> relay" where
  "proxyData_copied ok d s =
     (let n = length (rl_got s (other d));
          s1 = (case d of
                  ClientSide \<Rightarrow> s\<lparr>rl_bytesReceived := rl_bytesReceived s + n\<rparr>
                | BackendSide \<Rightarrow> s\<lparr>rl_bytesSent := rl_bytesSent s + n\<rparr>)
      in s1\<lparr>rl_eof := (rl_eof s1)(other d := True), rl_done := (rl_done s1)(d := Some ok)\<rparr>)"

text \<open>\<^verbatim>\<open>proxyWebSocket\<close> counts the other way round, and tells the destination nothing.\<close>

definition proxyWebSocket_copied :: "bool \<Rightarrow> side \<Rightarrow> relay \<Rightarrow> relay" where
  "proxyWebSocket_copied ok d s =
     (let n = length (rl_got s (other d));
          s1 = (case d of
                  ClientSide \<Rightarrow> s\<lparr>rl_bytesSent := rl_bytesSent s + n\<rparr>
                | BackendSide \<Rightarrow> s\<lparr>rl_bytesReceived := rl_bytesReceived s + n\<rparr>)
      in s1\<lparr>rl_done := (rl_done s1)(d := Some ok)\<rparr>)"

text \<open>\<^verbatim>\<open>BidirectionalCopy\<close> sends the error on a channel; the first one there is the result.\<close>

definition BidirectionalCopy_copied :: "bool \<Rightarrow> side \<Rightarrow> relay \<Rightarrow> relay" where
  "BidirectionalCopy_copied ok d s =
     s\<lparr>rl_done := (rl_done s)(d := Some ok),
       rl_first := (case rl_first s of None \<Rightarrow> Some ok | Some e \<Rightarrow> Some e)\<rparr>"

text \<open>After the first result \<^verbatim>\<open>BidirectionalCopy\<close> closes both connections.\<close>

definition BidirectionalCopy_close :: "relay \<Rightarrow> relay option" where
  "BidirectionalCopy_close s =
     (if rl_first s = None \<or> rl_closed s then None
      else Some (s\<lparr>rl_closed := True, rl_eof := (\<lambda>_. True)\<rparr>))"

text \<open>The waits at the end: both goroutines have finished, and for the last the close has happened.\<close>

definition relay_returned :: "relay \<Rightarrow> bool" where
  "relay_returned s \<longleftrightarrow> rl_done s ClientSide \<noteq> None \<and> rl_done s BackendSide \<noteq> None"

definition BidirectionalCopy_returned :: "relay \<Rightarrow> bool option" where
  "BidirectionalCopy_returned s = (if rl_closed s \<and> relay_returned s then rl_first s else None)"

section \<open>Steps\<close>

datatype relay_event =
    PeerSends side string
  | PeerEnds side
  | Chunk side nat
  | SourceEnd side
  | CopyFails side
  | CloseBoth

text \<open>
  \<^verbatim>\<open>io.Copy\<close> moves what it reads; it returns nil at the end of the source's stream, and an error
  at any moment, in particular once the connections are closed, when nothing else can happen to it.
\<close>

fun relay_step ::
    "(bool \<Rightarrow> side \<Rightarrow> relay \<Rightarrow> relay) \<Rightarrow> (relay \<Rightarrow> relay option) \<Rightarrow> relay_event \<Rightarrow> relay \<Rightarrow> relay option" where
  "relay_step copied close (PeerSends d bs) s =
     (if rl_fin s d \<or> rl_closed s then None
      else Some (s\<lparr>rl_sent := (rl_sent s)(d := rl_sent s d @ bs), rl_pending := (rl_pending s)(d := rl_pending s d @ bs)\<rparr>))"
| "relay_step copied close (PeerEnds d) s =
     (if rl_closed s then None else Some (s\<lparr>rl_fin := (rl_fin s)(d := True)\<rparr>))"
| "relay_step copied close (Chunk d n) s =
     (if rl_done s d \<noteq> None \<or> rl_closed s then None
      else Some (s\<lparr>rl_got := (rl_got s)(other d := rl_got s (other d) @ take n (rl_pending s d)),
                   rl_pending := (rl_pending s)(d := drop n (rl_pending s d))\<rparr>))"
| "relay_step copied close (SourceEnd d) s =
     (if rl_done s d \<noteq> None \<or> rl_closed s \<or> rl_pending s d \<noteq> [] \<or> \<not> rl_fin s d then None
      else Some (copied True d s))"
| "relay_step copied close (CopyFails d) s =
     (if rl_done s d \<noteq> None then None else Some (copied False d s))"
| "relay_step copied close CloseBoth s = close s"

primrec relay_run ::
    "(bool \<Rightarrow> side \<Rightarrow> relay \<Rightarrow> relay) \<Rightarrow> (relay \<Rightarrow> relay option) \<Rightarrow> relay_event list \<Rightarrow> relay \<Rightarrow> relay option" where
  "relay_run copied close [] s = Some s"
| "relay_run copied close (ev # evs) s =
     (case relay_step copied close ev s of None \<Rightarrow> None | Some t \<Rightarrow> relay_run copied close evs t)"

lemma relay_run_append:
  "relay_run copied close (xs @ ys) s =
     (case relay_run copied close xs s of None \<Rightarrow> None | Some t \<Rightarrow> relay_run copied close ys t)"
  by (induction xs arbitrary: s) (auto split: option.splits)

definition never_close :: "relay \<Rightarrow> relay option" where
  "never_close s = None"

abbreviation proxyData :: "relay_event list \<Rightarrow> relay option" where
  "proxyData evs \<equiv> relay_run proxyData_copied never_close evs new_relay"

abbreviation proxyWebSocket :: "relay_event list \<Rightarrow> relay option" where
  "proxyWebSocket evs \<equiv> relay_run proxyWebSocket_copied never_close evs new_relay"

abbreviation BidirectionalCopy :: "relay_event list \<Rightarrow> relay option" where
  "BidirectionalCopy evs \<equiv> relay_run BidirectionalCopy_copied BidirectionalCopy_close evs new_relay"

section \<open>What the three have in common\<close>

lemma other_simps [simp]: "other (other d) = d" "other d \<noteq> d" "d \<noteq> other d"
  by (cases d; simp)+

lemma other_eq_iff [simp]: "other d = other e \<longleftrightarrow> d = e"
  by (metis other_simps(1))

lemma other_eq_side [simp]: "other d = ClientSide \<longleftrightarrow> d = BackendSide" "other d = BackendSide \<longleftrightarrow> d = ClientSide"
  by (cases d; simp)+

text \<open>The streams, and what is known of a copy that has ended well.\<close>

definition streams_ok :: "relay \<Rightarrow> bool" where
  "streams_ok s \<longleftrightarrow> (\<forall>d. rl_sent s d = rl_got s (other d) @ rl_pending s d \<and>
     (rl_done s d = Some True \<longrightarrow> rl_fin s d \<and> rl_pending s d = []))"

lemma streams_okD:
  "streams_ok s \<Longrightarrow> rl_sent s d = rl_got s (other d) @ rl_pending s d"
  "\<lbrakk>streams_ok s; rl_done s d = Some True\<rbrakk> \<Longrightarrow> rl_fin s d \<and> rl_pending s d = []"
  by (simp_all add: streams_ok_def)

lemma streams_ok_new: "streams_ok new_relay"
  by (simp add: streams_ok_def new_relay_def)

lemma streams_ok_same:
  "\<lbrakk>streams_ok s; rl_sent t = rl_sent s; rl_got t = rl_got s; rl_pending t = rl_pending s; rl_fin t = rl_fin s;
    rl_done t = rl_done s\<rbrakk> \<Longrightarrow> streams_ok t"
  by (simp add: streams_ok_def)

locale stream_relay =
  fixes copied :: "bool \<Rightarrow> side \<Rightarrow> relay \<Rightarrow> relay" and close :: "relay \<Rightarrow> relay option"
  assumes copied_streams:
      "rl_sent (copied ok d s) = rl_sent s" "rl_got (copied ok d s) = rl_got s"
      "rl_pending (copied ok d s) = rl_pending s" "rl_fin (copied ok d s) = rl_fin s"
    and copied_done: "rl_done (copied ok d s) = (rl_done s)(d := Some ok)"
    and copied_closed: "rl_closed (copied ok d s) = rl_closed s"
    and close_streams: "close s = Some t \<Longrightarrow>
      rl_sent t = rl_sent s \<and> rl_got t = rl_got s \<and> rl_pending t = rl_pending s \<and> rl_fin t = rl_fin s \<and>
      rl_done t = rl_done s \<and> rl_closed t"
begin

lemma step_streams: "\<lbrakk>streams_ok s; relay_step copied close ev s = Some t\<rbrakk> \<Longrightarrow> streams_ok t"
proof (cases ev)
  case (PeerSends d bs)
  assume "streams_ok s" and "relay_step copied close ev s = Some t"
  with PeerSends show ?thesis by (auto simp: streams_ok_def split: if_splits)
next
  case (PeerEnds d)
  assume "streams_ok s" and "relay_step copied close ev s = Some t"
  with PeerEnds show ?thesis by (auto simp: streams_ok_def split: if_splits)
next
  case (Chunk d n)
  assume ok: "streams_ok s" and "relay_step copied close ev s = Some t"
  with Chunk have t: "t = s\<lparr>rl_got := (rl_got s)(other d := rl_got s (other d) @ take n (rl_pending s d)),
      rl_pending := (rl_pending s)(d := drop n (rl_pending s d))\<rparr>" "rl_done s d = None"
    by (auto split: if_splits)
  show ?thesis unfolding streams_ok_def
  proof
    fix e
    show "rl_sent t e = rl_got t (other e) @ rl_pending t e \<and>
        (rl_done t e = Some True \<longrightarrow> rl_fin t e \<and> rl_pending t e = [])"
      using streams_okD [OF ok, of e] t by (cases "e = d") auto
  qed
next
  case (SourceEnd d)
  assume "streams_ok s" and "relay_step copied close ev s = Some t"
  with SourceEnd show ?thesis by (auto simp: streams_ok_def copied_streams copied_done split: if_splits)
next
  case (CopyFails d)
  assume "streams_ok s" and "relay_step copied close ev s = Some t"
  with CopyFails show ?thesis by (auto simp: streams_ok_def copied_streams copied_done split: if_splits)
next
  case CloseBoth
  assume ok: "streams_ok s" and "relay_step copied close ev s = Some t"
  with CloseBoth close_streams [of s t] show ?thesis by (auto intro: streams_ok_same [OF ok])
qed

lemma run_streams: "\<lbrakk>streams_ok s; relay_run copied close evs s = Some t\<rbrakk> \<Longrightarrow> streams_ok t"
  by (induction evs arbitrary: s) (auto split: option.splits dest: step_streams)

lemma relay_streams:
  assumes "relay_run copied close evs new_relay = Some s"
  shows "prefix (rl_got s (other d)) (rl_sent s d)"
    and "rl_done s d = Some True \<Longrightarrow> rl_fin s d \<and> rl_got s (other d) = rl_sent s d"
  using streams_okD [OF run_streams [OF streams_ok_new assms], of d] by auto

text \<open>Once the connections are closed nothing is delivered any more.\<close>

lemma closed_step_frozen:
  "\<lbrakk>rl_closed s; relay_step copied close ev s = Some t\<rbrakk> \<Longrightarrow>
     rl_closed t \<and> rl_got t = rl_got s \<and> rl_sent t = rl_sent s"
  by (cases ev) (auto simp: copied_streams copied_closed copied_done dest: close_streams split: if_splits)

lemma closed_frozen:
  "\<lbrakk>rl_closed s; relay_run copied close evs s = Some t\<rbrakk> \<Longrightarrow>
     rl_closed t \<and> rl_got t = rl_got s \<and> rl_sent t = rl_sent s"
proof (induction evs arbitrary: s)
  case (Cons ev evs)
  then obtain u where u: "relay_step copied close ev s = Some u" "relay_run copied close evs u = Some t"
    by (auto split: option.splits)
  from closed_step_frozen [OF Cons.prems(1) u(1)] Cons.IH [OF _ u(2)] show ?case by simp
qed simp

end

lemmas relay_copied_defs = proxyData_copied_def proxyWebSocket_copied_def BidirectionalCopy_copied_def

interpretation pd: stream_relay proxyData_copied never_close
  by unfold_locales (simp_all add: proxyData_copied_def never_close_def Let_def split: side.split)

interpretation pw: stream_relay proxyWebSocket_copied never_close
  by unfold_locales (simp_all add: proxyWebSocket_copied_def never_close_def Let_def split: side.split)

interpretation bc: stream_relay BidirectionalCopy_copied BidirectionalCopy_close
  by unfold_locales (auto simp: BidirectionalCopy_copied_def BidirectionalCopy_close_def split: if_splits)

section \<open>What each does with the end of a stream\<close>

definition copied_bytes :: "side \<Rightarrow> relay \<Rightarrow> nat" where
  "copied_bytes d s = (if rl_done s d = None then 0 else length (rl_got s (other d)))"

text \<open>\<^verbatim>\<open>proxyData\<close>: a side has been told the end exactly when the copy towards it is over.\<close>

definition pd_ok :: "relay \<Rightarrow> bool" where
  "pd_ok s \<longleftrightarrow> \<not> rl_closed s \<and> (\<forall>d. rl_eof s (other d) \<longleftrightarrow> rl_done s d \<noteq> None) \<and>
     rl_bytesReceived s = copied_bytes ClientSide s \<and> rl_bytesSent s = copied_bytes BackendSide s"

lemma pd_ok_copied: "\<lbrakk>pd_ok s; rl_done s d = None\<rbrakk> \<Longrightarrow> pd_ok (proxyData_copied ok d s)"
  by (cases d) (auto simp: pd_ok_def proxyData_copied_def copied_bytes_def Let_def)

lemma pd_ok_same:
  "\<lbrakk>pd_ok s; rl_closed t = rl_closed s; rl_eof t = rl_eof s; rl_done t = rl_done s;
    rl_bytesReceived t = rl_bytesReceived s; rl_bytesSent t = rl_bytesSent s;
    \<And>d. copied_bytes d t = copied_bytes d s\<rbrakk> \<Longrightarrow> pd_ok t"
  unfolding pd_ok_def by simp

lemma pd_ok_step:
  assumes ok: "pd_ok s" and step: "relay_step proxyData_copied never_close ev s = Some t"
  shows "pd_ok t"
proof (cases ev)
  case (SourceEnd d)
  with step pd_ok_copied [OF ok] show ?thesis by (auto split: if_splits)
next
  case (CopyFails d)
  with step pd_ok_copied [OF ok] show ?thesis by (auto split: if_splits)
next
  case CloseBoth
  with step show ?thesis by (simp add: never_close_def)
qed (use step in \<open>auto intro!: pd_ok_same [OF ok] simp: copied_bytes_def split: if_splits\<close>)

lemma pd_ok_run: "\<lbrakk>pd_ok s; relay_run proxyData_copied never_close evs s = Some t\<rbrakk> \<Longrightarrow> pd_ok t"
  by (induction evs arbitrary: s) (auto split: option.splits dest: pd_ok_step)

lemma pd_ok_new: "pd_ok new_relay"
  by (simp add: pd_ok_def new_relay_def copied_bytes_def)

text \<open>\<^verbatim>\<open>proxyWebSocket\<close>: no side is ever told.\<close>

lemma pw_step_eof:
  "\<lbrakk>relay_step proxyWebSocket_copied never_close ev s = Some t; \<not> rl_closed s\<rbrakk> \<Longrightarrow>
     rl_eof t = rl_eof s \<and> \<not> rl_closed t \<and>
     (\<forall>d. rl_done t d \<noteq> None \<longrightarrow> rl_done s d \<noteq> None \<or> rl_fin s d \<or> ev = CopyFails d) \<and>
     (\<forall>d. rl_fin t d \<longrightarrow> rl_fin s d \<or> ev = PeerEnds d)"
  by (cases ev) (auto simp: proxyWebSocket_copied_def never_close_def Let_def split: if_splits side.splits)

lemma pw_run_eof:
  "\<lbrakk>relay_run proxyWebSocket_copied never_close evs s = Some t; \<not> rl_closed s\<rbrakk> \<Longrightarrow>
     rl_eof t = rl_eof s \<and>
     (\<forall>d. rl_done t d \<noteq> None \<longrightarrow> rl_done s d \<noteq> None \<or> rl_fin s d \<or> PeerEnds d \<in> set evs \<or> CopyFails d \<in> set evs)"
proof (induction evs arbitrary: s)
  case (Cons ev evs)
  then obtain u where u: "relay_step proxyWebSocket_copied never_close ev s = Some u"
    "relay_run proxyWebSocket_copied never_close evs u = Some t" by (auto split: option.splits)
  note step = pw_step_eof [OF u(1) Cons.prems(2)]
  from Cons.IH [OF u(2)] step show ?case by (simp; metis)
qed simp

text \<open>\<^verbatim>\<open>BidirectionalCopy\<close>: the first result stays.\<close>

lemma bc_step_first:
  "\<lbrakk>relay_step BidirectionalCopy_copied BidirectionalCopy_close ev s = Some t; rl_first s = Some e\<rbrakk> \<Longrightarrow>
     rl_first t = Some e"
  by (cases ev) (auto simp: BidirectionalCopy_copied_def BidirectionalCopy_close_def split: if_splits)

lemma bc_run_first:
  "\<lbrakk>relay_run BidirectionalCopy_copied BidirectionalCopy_close evs s = Some t; rl_first s = Some e\<rbrakk> \<Longrightarrow>
     rl_first t = Some e"
  by (induction evs arbitrary: s) (auto split: option.splits dest: bc_step_first)

lemmas relay_demo_defs = new_relay_def relay_copied_defs BidirectionalCopy_close_def Let_def

section \<open>Properties\<close>

text \<open>
  C5: A TCP connection is relayed whole. In every interleaving of the two copies, the two
  peers and network errors, each side has received a prefix of what the other has sent, and
  is told the end of the stream exactly when the copy towards it is over. When both copies
  ended without an error, both sides have ended their streams and have received everything,
  and the server's counters are the lengths of the two streams.
\<close>

theorem proxyData_relays_streams:
  assumes "proxyData evs = Some s"
  shows "prefix (rl_got s (other d)) (rl_sent s d) \<and> (rl_eof s (other d) \<longleftrightarrow> rl_done s d \<noteq> None) \<and>
    ((\<forall>e. rl_done s e = Some True) \<longrightarrow>
      relay_returned s \<and> rl_fin s d \<and> rl_got s (other d) = rl_sent s d \<and>
      rl_bytesReceived s = length (rl_sent s ClientSide) \<and> rl_bytesSent s = length (rl_sent s BackendSide))"
proof -
  have ok: "pd_ok s" using pd_ok_run [OF pd_ok_new assms] .
  have "rl_bytesReceived s = length (rl_sent s ClientSide) \<and> rl_bytesSent s = length (rl_sent s BackendSide)"
    if "\<forall>e. rl_done s e = Some True"
    using ok that pd.relay_streams(2) [OF assms, of ClientSide] pd.relay_streams(2) [OF assms, of BackendSide]
    by (simp add: pd_ok_def copied_bytes_def)
  with ok pd.relay_streams [OF assms, of d] show ?thesis
    by (auto simp: pd_ok_def relay_returned_def)
qed

theorem proxyData_relays_streams_witness:
  "\<exists>s. proxyData [PeerSends ClientSide ''GET'', PeerEnds ClientSide, Chunk ClientSide 3, SourceEnd ClientSide,
       PeerSends BackendSide ''OK'', Chunk BackendSide 1, PeerEnds BackendSide, Chunk BackendSide 1, SourceEnd BackendSide] = Some s \<and>
     rl_got s ClientSide = ''OK'' \<and> rl_bytesReceived s = 3"
proof -
  let ?r = "proxyData [PeerSends ClientSide ''GET'', PeerEnds ClientSide, Chunk ClientSide 3, SourceEnd ClientSide,
       PeerSends BackendSide ''OK'', Chunk BackendSide 1, PeerEnds BackendSide, Chunk BackendSide 1, SourceEnd BackendSide]"
  define s where "s = the ?r"
  have run: "?r = Some s" by (simp add: s_def relay_demo_defs)
  have sides: "rl_done s ClientSide = Some True" "rl_done s BackendSide = Some True"
    "rl_sent s BackendSide = ''OK''" "length (rl_sent s ClientSide) = 3"
    by (simp_all add: s_def relay_demo_defs)
  then have all: "\<forall>e. rl_done s e = Some True" by (metis side.exhaust)
  have "rl_got s (other BackendSide) = rl_sent s BackendSide \<and> rl_bytesReceived s = length (rl_sent s ClientSide)"
    using proxyData_relays_streams [OF run, of BackendSide] all by blast
  then have "rl_got s ClientSide = ''OK'' \<and> rl_bytesReceived s = 3" by (simp add: sides)
  with run show ?thesis by blast
qed



text \<open>
  \<^verbatim>\<open>proxyWebSocket\<close> does not pass the end of a stream on. No side is ever told that the other
  has ended, and the function returns only after each of the two sides has ended its own
  stream or the copy of it has failed: a client that waits for the server's close keeps the
  connection, and the backend's count, for ever.
\<close>

theorem websocket_end_not_forwarded:
  assumes "proxyWebSocket evs = Some s"
  shows "\<not> rl_eof s d \<and> (relay_returned s \<longrightarrow> PeerEnds d \<in> set evs \<or> CopyFails d \<in> set evs)"
  using pw_run_eof [OF assms]
  by (cases d) (auto simp: new_relay_def relay_returned_def)

theorem websocket_end_not_forwarded_witness:
  "\<exists>s. proxyWebSocket [PeerSends BackendSide ''bye'', Chunk BackendSide 3, PeerEnds BackendSide, SourceEnd BackendSide] = Some s \<and>
     rl_done s BackendSide = Some True \<and> \<not> rl_eof s ClientSide \<and> \<not> relay_returned s"
proof -
  let ?r = "proxyWebSocket [PeerSends BackendSide ''bye'', Chunk BackendSide 3, PeerEnds BackendSide, SourceEnd BackendSide]"
  define s where "s = the ?r"
  have run: "?r = Some s" and d: "rl_done s BackendSide = Some True" "rl_done s ClientSide = None"
    by (simp_all add: s_def relay_demo_defs)
  have "\<not> rl_eof s ClientSide" using websocket_end_not_forwarded [OF run] by blast
  moreover have "\<not> relay_returned s" using d(2) by (simp add: relay_returned_def)
  ultimately show ?thesis using run d(1) by blast
qed

end
