(* ===== verification/Logging.thy ===== *)
theory Logging
  imports Prelude
begin

text \<open>
  The structured logger (\<^verbatim>\<open>pkg/logging/logger.go\<close>): levels, fields, the assembly of a line, the methods
  and the package-level functions. The output is the list of the strings written to the writer.
  What the line takes from outside is an argument: the formatted time, the trace and span of the
  context, and the call stack of the client, innermost frame first, from which \<^verbatim>\<open>runtime.Caller\<close>
  picks a frame. \<^verbatim>\<open>%v\<close> of a float or of a value of unknown type is its printed form.
\<close>

section \<open>Levels and fields\<close>

type_synonym level = int

definition DebugLevel :: level where "DebugLevel = 0"
definition InfoLevel :: level where "InfoLevel = 1"
definition WarnLevel :: level where "WarnLevel = 2"
definition ErrorLevel :: level where "ErrorLevel = 3"
definition FatalLevel :: level where "FatalLevel = 4"

lemmas level_defs = DebugLevel_def InfoLevel_def WarnLevel_def ErrorLevel_def FatalLevel_def

definition Level_String :: "level \<Rightarrow> string" where
  "Level_String l =
     (if l = DebugLevel then ''DEBUG''
      else if l = InfoLevel then ''INFO''
      else if l = WarnLevel then ''WARN''
      else if l = ErrorLevel then ''ERROR''
      else if l = FatalLevel then ''FATAL''
      else ''UNKNOWN'')"

datatype field_value = VString string | VInt int | VBool bool | VNil | VPrinted string

record log_field =
  f_Key :: string
  f_Value :: field_value

definition Field_Err :: "string option \<Rightarrow> log_field" where
  "Field_Err err =
     (case err of None \<Rightarrow> \<lparr>f_Key = ''error'', f_Value = VNil\<rparr>
      | Some e \<Rightarrow> \<lparr>f_Key = ''error'', f_Value = VString e\<rparr>)"

definition Field_String :: "string \<Rightarrow> string \<Rightarrow> log_field" where
  "Field_String key v = \<lparr>f_Key = key, f_Value = VString v\<rparr>"

definition Field_Int :: "string \<Rightarrow> int \<Rightarrow> log_field" where
  "Field_Int key v = \<lparr>f_Key = key, f_Value = VInt v\<rparr>"

definition Field_Bool :: "string \<Rightarrow> bool \<Rightarrow> log_field" where
  "Field_Bool key v = \<lparr>f_Key = key, f_Value = VBool v\<rparr>"

text \<open>\<^verbatim>\<open>fmt.Sprintf("%v", value)\<close>.\<close>

fun show_value :: "field_value \<Rightarrow> string" where
  "show_value (VString s) = s"
| "show_value (VInt n) = show_int n"
| "show_value (VBool b) = (if b then ''true'' else ''false'')"
| "show_value VNil = ''<nil>''"
| "show_value (VPrinted s) = s"

section \<open>The logger\<close>

type_synonym frame = "string \<times> nat"

record logger =
  lg_level :: level
  lg_output :: "string list"
  lg_timeFormat :: string
  lg_addCaller :: bool

definition RFC3339 :: string where
  "RFC3339 = ''2006-01-02T15:04:05Z07:00''"

definition NewLogger :: "level \<Rightarrow> string \<Rightarrow> bool \<Rightarrow> logger" where
  "NewLogger l timeFormat addCaller =
     \<lparr>lg_level = l, lg_output = [], lg_timeFormat = (if timeFormat = '''' then RFC3339 else timeFormat),
      lg_addCaller = addCaller\<rparr>"

definition NewDefaultLogger :: logger where
  "NewDefaultLogger = NewLogger InfoLevel RFC3339 False"

definition SetLevel :: "level \<Rightarrow> logger \<Rightarrow> logger" where
  "SetLevel l lg = lg\<lparr>lg_level := l\<rparr>"

text \<open>What a call finds: the clock, printed in a format, and the span of its context.\<close>

record log_env =
  le_Now :: "string \<Rightarrow> string"
  le_Span :: "(string \<times> string) option"

text \<open>The loop over the fields, from index \<open>i\<close>.\<close>

fun write_fields :: "nat \<Rightarrow> log_field list \<Rightarrow> string" where
  "write_fields i [] = ''''"
| "write_fields i (f # fs) =
     (if i > 0 then '' '' else '''') @ f_Key f @ ''='' @ show_value (f_Value f) @ write_fields (i + 1) fs"

text \<open>
  The entry built by \<^verbatim>\<open>logContext\<close>. \<open>frames\<close> are the callers of \<^verbatim>\<open>logContext\<close>, so \<^verbatim>\<open>runtime.Caller(3)\<close> is
  the third of them.
\<close>

definition caller_info :: "bool \<Rightarrow> frame list \<Rightarrow> string" where
  "caller_info addCaller frames =
     (if addCaller \<and> 2 < length frames then
        (let (file, line) = frames ! 2; filename = last (Split file CHR ''/'')
         in filename @ '':'' @ show_nat line @ '' '')
      else '''')"

definition log_entry :: "log_env \<Rightarrow> frame list \<Rightarrow> level \<Rightarrow> string \<Rightarrow> log_field list \<Rightarrow> logger \<Rightarrow> string" where
  "log_entry env frames l msg fs lg =
     le_Now env (lg_timeFormat lg) @ '' '' @ Level_String l @ '' '' @
     (case le_Span env of None \<Rightarrow> ''''
      | Some (traceID, spanID) \<Rightarrow> ''trace_id='' @ traceID @ '' '' @ ''span_id='' @ spanID @ '' '') @
     caller_info (lg_addCaller lg) frames @ msg @
     (if length fs > 0 then '' '' @ write_fields 0 fs else '''')"

definition logContext :: "log_env \<Rightarrow> frame list \<Rightarrow> level \<Rightarrow> string \<Rightarrow> log_field list \<Rightarrow> logger \<Rightarrow> logger" where
  "logContext env frames l msg fs lg =
     (if l < lg_level lg then lg
      else lg\<lparr>lg_output := lg_output lg @ [log_entry env frames l msg fs lg @ [CHR 0x0A]]\<rparr>)"

section \<open>Methods and package functions\<close>

text \<open>
  Each call pushes the frames of the functions it goes through, with the line of the call inside
  this file. The background context has no span.
\<close>

abbreviation here :: "nat \<Rightarrow> frame" where
  "here line \<equiv> (''pkg/logging/logger.go'', line)"

definition Logger_log :: "log_env \<Rightarrow> frame list \<Rightarrow> level \<Rightarrow> string \<Rightarrow> log_field list \<Rightarrow> logger \<Rightarrow> logger" where
  "Logger_log env stack l msg fs = logContext (env\<lparr>le_Span := None\<rparr>) (here 190 # stack) l msg fs"

definition Logger_Debug where "Logger_Debug env stack = Logger_log env (here 145 # stack) DebugLevel"
definition Logger_Info where "Logger_Info env stack = Logger_log env (here 150 # stack) InfoLevel"
definition Logger_Warn where "Logger_Warn env stack = Logger_log env (here 155 # stack) WarnLevel"
definition Logger_Error where "Logger_Error env stack = Logger_log env (here 160 # stack) ErrorLevel"

text \<open>\<^verbatim>\<open>Fatal\<close> also exits, with code 1, whatever the level.\<close>

definition Logger_Fatal :: "log_env \<Rightarrow> frame list \<Rightarrow> string \<Rightarrow> log_field list \<Rightarrow> logger \<Rightarrow> logger \<times> int" where
  "Logger_Fatal env stack msg fs lg = (Logger_log env (here 165 # stack) FatalLevel msg fs lg, 1)"

definition Logger_DebugContext where "Logger_DebugContext env stack = logContext env (here 171 # stack) DebugLevel"
definition Logger_InfoContext where "Logger_InfoContext env stack = logContext env (here 176 # stack) InfoLevel"
definition Logger_WarnContext where "Logger_WarnContext env stack = logContext env (here 181 # stack) WarnLevel"
definition Logger_ErrorContext where "Logger_ErrorContext env stack = logContext env (here 186 # stack) ErrorLevel"

text \<open>The package functions on the global logger.\<close>

definition global_Debug where "global_Debug env stack = Logger_Debug env (here 271 # stack)"
definition global_Info where "global_Info env stack = Logger_Info env (here 276 # stack)"
definition global_Warn where "global_Warn env stack = Logger_Warn env (here 281 # stack)"
definition global_Error where "global_Error env stack = Logger_Error env (here 286 # stack)"
definition global_Fatal where "global_Fatal env stack = Logger_Fatal env (here 291 # stack)"
definition global_DebugContext where "global_DebugContext env stack = Logger_DebugContext env (here 296 # stack)"
definition global_InfoContext where "global_InfoContext env stack = Logger_InfoContext env (here 301 # stack)"
definition global_WarnContext where "global_WarnContext env stack = Logger_WarnContext env (here 306 # stack)"
definition global_ErrorContext where "global_ErrorContext env stack = Logger_ErrorContext env (here 311 # stack)"

section \<open>Sequences of calls\<close>

datatype log_event =
    LogCall log_env "frame list" level string "log_field list"
  | LevelChange level

fun log_step :: "logger \<Rightarrow> log_event \<Rightarrow> logger" where
  "log_step lg (LogCall env frames l msg fs) = logContext env frames l msg fs lg"
| "log_step lg (LevelChange l) = SetLevel l lg"

text \<open>The reference: the entries that the level in force lets through, in order.\<close>

fun entries :: "logger \<Rightarrow> log_event list \<Rightarrow> string list" where
  "entries lg [] = []"
| "entries lg (LevelChange l # evs) = entries (SetLevel l lg) evs"
| "entries lg (LogCall env frames l msg fs # evs) =
     (if lg_level lg \<le> l then [log_entry env frames l msg fs lg] else []) @ entries lg evs"

lemma log_entry_output [simp]: "log_entry env frames l msg fs (lg\<lparr>lg_output := out\<rparr>) = log_entry env frames l msg fs lg"
  by (simp add: log_entry_def)

lemma level_output: "lg\<lparr>lg_output := out, lg_level := l\<rparr> = lg\<lparr>lg_level := l, lg_output := out\<rparr>"
  by simp

lemma entries_output [simp]: "entries (lg\<lparr>lg_output := out\<rparr>) evs = entries lg evs"
  by (induction lg evs arbitrary: out rule: entries.induct) (auto simp: SetLevel_def level_output)

lemma run_log_output:
  "lg_output (run log_step lg evs) = lg_output lg @ map (\<lambda>e. e @ [CHR 0x0A]) (entries lg evs)"
proof (induction evs arbitrary: lg)
  case (Cons ev evs)
  then show ?case
    by (cases ev) (auto simp: logContext_def SetLevel_def)
qed simp

lemma Split_line: "CHR 0x0A \<notin> set e \<Longrightarrow> Split (e @ [CHR 0x0A] @ rest) CHR 0x0A = e # Split rest CHR 0x0A"
  by (induction e) auto

lemma Split_lines:
  "(\<And>e. e \<in> set es \<Longrightarrow> CHR 0x0A \<notin> set e) \<Longrightarrow> Split (concat (map (\<lambda>e. e @ [CHR 0x0A]) es)) CHR 0x0A = es @ [[]]"
proof (induction es)
  case (Cons e es)
  then show ?case using Split_line [of e "concat (map (\<lambda>e. e @ [CHR 0x0A]) es)"] by simp
qed simp

text \<open>An entry has no line break when none of its parts has.\<close>

definition plain :: "string \<Rightarrow> bool" where
  "plain s \<longleftrightarrow> CHR 0x0A \<notin> set s"

lemma plain_simps [simp]: "plain []" "plain (c # s) \<longleftrightarrow> c \<noteq> CHR 0x0A \<and> plain s"
  by (auto simp: plain_def)

lemma plain_append [simp]: "plain (a @ b) \<longleftrightarrow> plain a \<and> plain b"
  by (auto simp: plain_def)

lemma char_of_digit: "(n :: nat) < 10 \<Longrightarrow> char_of (48 + n) \<noteq> CHR 0x0A"
proof
  assume "n < 10" and "char_of (48 + n) = CHR 0x0A"
  then have "of_char (char_of (48 + n) :: char) = (of_char CHR 0x0A :: nat)" by simp
  with \<open>n < 10\<close> show False by (simp add: of_char_of)
qed

lemma plain_show_nat [simp]: "plain (show_nat n)"
proof (induction n rule: show_nat.induct)
  case (1 n)
  show ?case
  proof (cases "n < 10")
    case True
    then show ?thesis using char_of_digit [of n] by (subst show_nat.simps) (auto simp: plain_def)
  next
    case False
    with 1 char_of_digit [of "n mod 10"] show ?thesis
      by (subst show_nat.simps) (auto simp: plain_def)
  qed
qed

lemma plain_show_int [simp]: "plain (show_int n)"
  using plain_show_nat by (auto simp: show_int_def plain_def)

lemma plain_Level_String [simp]: "plain (Level_String l)"
  by (simp add: Level_String_def plain_def)

lemma Split_plain: "plain s \<Longrightarrow> w \<in> set (Split s c) \<Longrightarrow> plain w"
proof (induction s arbitrary: w)
  case (Cons x s)
  then show ?case by (auto simp: plain_def split: if_splits list.splits)
qed (simp add: plain_def)

definition plain_field :: "log_field \<Rightarrow> bool" where
  "plain_field f \<longleftrightarrow> plain (f_Key f) \<and> plain (show_value (f_Value f))"

lemma plain_write_fields: "list_all plain_field fs \<Longrightarrow> plain (write_fields i fs)"
  by (induction fs arbitrary: i) (auto simp: plain_field_def)

definition plain_env :: "log_env \<Rightarrow> bool" where
  "plain_env env \<longleftrightarrow> (\<forall>fmt. plain (le_Now env fmt)) \<and>
     (case le_Span env of None \<Rightarrow> True | Some (t, s) \<Rightarrow> plain t \<and> plain s)"

fun plain_event :: "log_event \<Rightarrow> bool" where
  "plain_event (LogCall env frames l msg fs) \<longleftrightarrow>
     plain_env env \<and> list_all (\<lambda>f. plain (fst f)) frames \<and> plain msg \<and> list_all plain_field fs"
| "plain_event (LevelChange l) \<longleftrightarrow> True"

lemma plain_caller:
  assumes "list_all (\<lambda>f. plain (fst f)) frames"
  shows "plain (caller_info b frames)"
proof (cases "b \<and> 2 < length frames")
  case True
  then have "plain (fst (frames ! 2))" using assms by (simp add: list_all_length)
  then have "plain (last (Split (fst (frames ! 2)) CHR ''/''))" by (rule Split_plain [where c = "CHR ''/''"]) simp
  with True show ?thesis by (simp add: caller_info_def split_beta)
next
  case False
  then show ?thesis by (auto simp: caller_info_def plain_def)
qed

lemma plain_entry:
  assumes "plain_event (LogCall env frames l msg fs)"
  shows "plain (log_entry env frames l msg fs lg)"
proof -
  from assms plain_caller [of frames "lg_addCaller lg"] plain_write_fields [of fs 0] show ?thesis
    by (auto simp: log_entry_def plain_env_def split: option.splits)
qed

lemma plain_entries: "list_all plain_event evs \<Longrightarrow> e \<in> set (entries lg evs) \<Longrightarrow> CHR 0x0A \<notin> set e"
proof (induction lg evs rule: entries.induct)
  case (3 lg env frames l msg fs evs)
  then show ?case using plain_entry [of env frames l msg fs lg] by (auto simp: plain_def split: if_splits)
qed auto

section \<open>Properties\<close>

definition demo_log_env :: log_env where
  "demo_log_env = \<lparr>le_Now = (\<lambda>_. ''T''), le_Span = None\<rparr>"

text \<open>
  C33: The log can be read back. After any sequence of log calls and level changes whose texts
  contain no line break, cutting the output at its line breaks gives back exactly the entries of
  the calls at or above the level then in force, one per line and in order.
\<close>

theorem log_lines_round_trip:
  assumes "list_all plain_event evs" and "lg_output lg = []"
  shows "Split (concat (lg_output (run log_step lg evs))) CHR 0x0A = entries lg evs @ [[]]"
  using Split_lines [of "entries lg evs"] plain_entries [OF assms(1)] assms(2) by (simp add: run_log_output)

theorem log_lines_round_trip_witness:
  "Split (concat (lg_output (run log_step NewDefaultLogger
     [LogCall demo_log_env [] DebugLevel ''a'' [], LogCall demo_log_env [] WarnLevel ''b'' [Field_String ''n'' ''3'']]))) CHR 0x0A
   = [''T WARN b n=3'', []]"
  using log_lines_round_trip [of "[LogCall demo_log_env [] DebugLevel ''a'' [], LogCall demo_log_env [] WarnLevel ''b'' [Field_String ''n'' ''3'']]"
      NewDefaultLogger]
  by (simp add: NewDefaultLogger_def NewLogger_def demo_log_env_def plain_env_def plain_field_def plain_def Field_String_def
      level_defs log_entry_def caller_info_def Level_String_def show_int_def show_nat.simps)

text \<open>
  Only the plain methods report their caller. With caller information on, \<^verbatim>\<open>Info\<close> and its
  siblings name the file and line of their caller, the variants with a context name the caller's
  caller, and the package functions name a line of the logger itself.
\<close>

theorem caller_reported:
  assumes "lg_addCaller lg" and "lg_level lg \<le> InfoLevel"
  shows "(\<exists>pre. lg_output (Logger_Info env ((file, line) # stack) msg [] lg) =
      lg_output lg @ [pre @ last (Split file CHR ''/'') @ '':'' @ show_nat line @ '' '' @ msg @ [CHR 0x0A]]) \<and>
    (\<exists>pre. lg_output (Logger_InfoContext env (inner # (file, line) # stack) msg [] lg) =
      lg_output lg @ [pre @ last (Split file CHR ''/'') @ '':'' @ show_nat line @ '' '' @ msg @ [CHR 0x0A]]) \<and>
    (\<exists>pre. lg_output (global_Info env stack msg [] lg) = lg_output lg @ [pre @ ''logger.go:276 '' @ msg @ [CHR 0x0A]])"
proof (intro conjI)
  have n: "show_nat 276 = ''276''" by code_simp
  have s: "Split ''pkg/logging/logger.go'' CHR ''/'' = [''pkg'', ''logging'', ''logger.go'']" by simp
  note defs = Logger_Info_def Logger_InfoContext_def Logger_log_def global_Info_def logContext_def log_entry_def
    caller_info_def
  show "\<exists>pre. lg_output (Logger_Info env ((file, line) # stack) msg [] lg) =
      lg_output lg @ [pre @ last (Split file CHR ''/'') @ '':'' @ show_nat line @ '' '' @ msg @ [CHR 0x0A]]"
    using assms by (intro exI [of _ "le_Now env (lg_timeFormat lg) @ '' '' @ Level_String InfoLevel @ '' ''"])
      (simp add: defs)
  show "\<exists>pre. lg_output (Logger_InfoContext env (inner # (file, line) # stack) msg [] lg) =
      lg_output lg @ [pre @ last (Split file CHR ''/'') @ '':'' @ show_nat line @ '' '' @ msg @ [CHR 0x0A]]"
    using assms by (intro exI [of _ "le_Now env (lg_timeFormat lg) @ '' '' @ Level_String InfoLevel @ '' '' @
        (case le_Span env of None \<Rightarrow> [] | Some (traceID, spanID) \<Rightarrow> ''trace_id='' @ traceID @ '' '' @ ''span_id='' @ spanID @ '' '')"])
      (simp add: defs)
  show "\<exists>pre. lg_output (global_Info env stack msg [] lg) = lg_output lg @ [pre @ ''logger.go:276 '' @ msg @ [CHR 0x0A]]"
    using assms by (intro exI [of _ "le_Now env (lg_timeFormat lg) @ '' '' @ Level_String InfoLevel @ '' ''"])
      (simp add: defs n s)
qed

theorem caller_reported_witness:
  "\<exists>pre. lg_output (global_Info demo_log_env [(''cmd/main.go'', 7)] ''up'' [] (NewLogger InfoLevel [] True)) =
     [pre @ ''logger.go:276 '' @ ''up'' @ [CHR 0x0A]]"
  using caller_reported [of "NewLogger InfoLevel [] True" demo_log_env "''cmd/main.go''" 7 "[(''cmd/main.go'', 7)]" "''up''"]
  by (simp add: NewLogger_def)

end
