(* ===== verification/Observability.thy ===== *)
theory Observability
  imports Http Logging
begin

text \<open>
  The middleware around the handlers: access logging (\<^verbatim>\<open>pkg/logging/access.go\<close>), request metrics
  (\<^verbatim>\<open>pkg/metrics/prometheus.go\<close>) and tracing (\<^verbatim>\<open>pkg/tracing/otel.go\<close>), and the admin server
  (\<^verbatim>\<open>pkg/admin/admin.go\<close>).

  A handler is what it does to its response: a list of calls of \<^verbatim>\<open>WriteHeader\<close> and \<^verbatim>\<open>Write\<close>, each
  \<^verbatim>\<open>Write\<close> with the count it returns. The three packages wrap the response writer to record the
  status; the writer of \<^verbatim>\<open>net/http\<close> below them decides what is sent. The Prometheus and
  OpenTelemetry libraries are represented by the calls made to them.
\<close>

section \<open>Responses\<close>

datatype response_call = WriteHeader int | Write nat

text \<open>The writer of \<^verbatim>\<open>net/http\<close>: the first status that is not informational counts, a body implies 200.\<close>

record http_writer =
  hw_wroteHeader :: bool
  hw_status :: int

definition new_writer :: http_writer where
  "new_writer = \<lparr>hw_wroteHeader = False, hw_status = 200\<rparr>"

definition informational :: "int \<Rightarrow> bool" where
  "informational code \<longleftrightarrow> 100 \<le> code \<and> code \<le> 199 \<and> code \<noteq> 101"

definition hw_WriteHeader :: "int \<Rightarrow> http_writer \<Rightarrow> http_writer" where
  "hw_WriteHeader code w =
     (if hw_wroteHeader w \<or> informational code then w else w\<lparr>hw_wroteHeader := True, hw_status := code\<rparr>)"

definition hw_Write :: "nat \<Rightarrow> http_writer \<Rightarrow> http_writer" where
  "hw_Write n w = (if hw_wroteHeader w then w else w\<lparr>hw_wroteHeader := True, hw_status := 200\<rparr>)"

section \<open>The wrapping writers\<close>

record logging_response_writer =
  lrw_ResponseWriter :: http_writer
  lrw_statusCode :: int
  lrw_bytesWritten :: int

definition lrw_WriteHeader :: "int \<Rightarrow> logging_response_writer \<Rightarrow> logging_response_writer" where
  "lrw_WriteHeader code lrw =
     lrw\<lparr>lrw_statusCode := code, lrw_ResponseWriter := hw_WriteHeader code (lrw_ResponseWriter lrw)\<rparr>"

definition lrw_Write :: "nat \<Rightarrow> logging_response_writer \<Rightarrow> logging_response_writer" where
  "lrw_Write n lrw =
     lrw\<lparr>lrw_ResponseWriter := hw_Write n (lrw_ResponseWriter lrw), lrw_bytesWritten := lrw_bytesWritten lrw + int n\<rparr>"

text \<open>The writers of the metrics and of the tracing middleware embed \<^verbatim>\<open>Write\<close> unchanged.\<close>

record response_writer =
  rw_ResponseWriter :: http_writer
  rw_statusCode :: int

definition metrics_WriteHeader :: "int \<Rightarrow> response_writer \<Rightarrow> response_writer" where
  "metrics_WriteHeader code rw =
     rw\<lparr>rw_statusCode := code, rw_ResponseWriter := hw_WriteHeader code (rw_ResponseWriter rw)\<rparr>"

definition tracing_WriteHeader :: "int \<Rightarrow> response_writer \<Rightarrow> response_writer" where
  "tracing_WriteHeader code rw =
     rw\<lparr>rw_statusCode := code, rw_ResponseWriter := hw_WriteHeader code (rw_ResponseWriter rw)\<rparr>"

definition embedded_Write :: "nat \<Rightarrow> response_writer \<Rightarrow> response_writer" where
  "embedded_Write n rw = rw\<lparr>rw_ResponseWriter := hw_Write n (rw_ResponseWriter rw)\<rparr>"

text \<open>\<^verbatim>\<open>next.ServeHTTP(w, r)\<close>: the calls of the handler, one after the other.\<close>

fun serve :: "(int \<Rightarrow> 'w \<Rightarrow> 'w) \<Rightarrow> (nat \<Rightarrow> 'w \<Rightarrow> 'w) \<Rightarrow> response_call list \<Rightarrow> 'w \<Rightarrow> 'w" where
  "serve header body [] w = w"
| "serve header body (WriteHeader code # calls) w = serve header body calls (header code w)"
| "serve header body (Write n # calls) w = serve header body calls (body n w)"

section \<open>Access log\<close>

record access_log =
  al_Timestamp :: time
  al_ClientIP :: string
  al_Method :: string
  al_Path :: string
  al_Query :: string
  al_Protocol :: string
  al_StatusCode :: int
  al_BytesWritten :: int
  al_Duration :: string
  al_UserAgent :: string
  al_Referer :: string
  al_Backend :: string
  al_TraceID :: string
  al_RequestHeaders :: "(string, string) gomap"

definition access_fields :: "access_log \<Rightarrow> log_field list" where
  "access_fields entry =
     [Field_String ''client_ip'' (al_ClientIP entry), Field_String ''method'' (al_Method entry),
      Field_String ''path'' (al_Path entry), Field_String ''protocol'' (al_Protocol entry),
      Field_Int ''status'' (al_StatusCode entry), Field_Int ''bytes'' (al_BytesWritten entry),
      Field_String ''duration'' (al_Duration entry), Field_String ''user_agent'' (al_UserAgent entry)] @
     (if al_Query entry \<noteq> [] then [Field_String ''query'' (al_Query entry)] else []) @
     (if al_Referer entry \<noteq> [] then [Field_String ''referer'' (al_Referer entry)] else []) @
     (if al_Backend entry \<noteq> [] then [Field_String ''backend'' (al_Backend entry)] else []) @
     (if al_TraceID entry \<noteq> [] then [Field_String ''trace_id'' (al_TraceID entry)] else [])"

definition AccessLogger_Log :: "log_env \<Rightarrow> frame list \<Rightarrow> access_log \<Rightarrow> logger \<Rightarrow> logger" where
  "AccessLogger_Log env stack entry lg = Logger_Info env stack ''access'' (access_fields entry) lg"

text \<open>
  The middleware: the handler runs on the wrapped writer, then the entry is logged. \<open>elapsed\<close> is the
  printed duration and \<open>proto\<close> the protocol of the request.
\<close>

definition access_entry :: "time \<Rightarrow> string \<Rightarrow> string \<Rightarrow> request \<Rightarrow> logging_response_writer \<Rightarrow> access_log" where
  "access_entry start proto elapsed r lrw =
     (let clientIP = req_RemoteAddr r;
          forwarded = Header_Get (req_Header r) ''X-Forwarded-For'';
          clientIP = (if forwarded \<noteq> [] then forwarded else clientIP)
      in \<lparr>al_Timestamp = start, al_ClientIP = clientIP, al_Method = req_Method r, al_Path = req_Path r, al_Query = req_RawQuery r,
          al_Protocol = proto, al_StatusCode = lrw_statusCode lrw, al_BytesWritten = lrw_bytesWritten lrw,
          al_Duration = elapsed, al_UserAgent = Header_Get (req_Header r) ''User-Agent'',
          al_Referer = Header_Get (req_Header r) ''Referer'', al_Backend = [], al_TraceID = [],
          al_RequestHeaders = []\<rparr>)"

definition AccessLogMiddleware ::
    "log_env \<Rightarrow> frame list \<Rightarrow> time \<Rightarrow> string \<Rightarrow> string \<Rightarrow> response_call list \<Rightarrow> request \<Rightarrow> http_writer \<times> logger \<Rightarrow> http_writer \<times> logger" where
  "AccessLogMiddleware env stack start proto elapsed handler r = (\<lambda>(w, lg).
     let lrw = \<lparr>lrw_ResponseWriter = w, lrw_statusCode = 200, lrw_bytesWritten = 0\<rparr>;
         lrw = serve lrw_WriteHeader lrw_Write handler lrw
     in (lrw_ResponseWriter lrw, AccessLogger_Log env stack (access_entry start proto elapsed r lrw) lg))"

section \<open>Metrics\<close>

datatype metric_call =
    Inc string "string list"
  | Dec string "string list"
  | Set string "string list" int
  | Observe string "string list" duration

definition metrics_RecordRequest :: "string \<Rightarrow> string \<Rightarrow> string \<Rightarrow> duration \<Rightarrow> metric_call list" where
  "metrics_RecordRequest backend method status elapsed =
     [Inc ''balance_requests_total'' [backend, method, status],
      Observe ''balance_request_duration_seconds'' [backend, method] elapsed]"

definition RecordRequestError :: "string \<Rightarrow> string \<Rightarrow> metric_call list" where
  "RecordRequestError backend errorType = [Inc ''balance_request_errors_total'' [backend, errorType]]"

definition SetBackendHealthStatus :: "string \<Rightarrow> bool \<Rightarrow> metric_call list" where
  "SetBackendHealthStatus backend healthy =
     [Set ''balance_backend_health_status'' [backend] (if healthy then 1 else 0)]"

definition IncBackendRequestsInFlight :: "string \<Rightarrow> metric_call list" where
  "IncBackendRequestsInFlight backend = [Inc ''balance_backend_requests_in_flight'' [backend]]"

definition DecBackendRequestsInFlight :: "string \<Rightarrow> metric_call list" where
  "DecBackendRequestsInFlight backend = [Dec ''balance_backend_requests_in_flight'' [backend]]"

definition RecordTLSHandshake :: "string \<Rightarrow> duration \<Rightarrow> metric_call list" where
  "RecordTLSHandshake status elapsed =
     [Inc ''balance_tls_handshakes_total'' [status], Observe ''balance_tls_handshake_duration_seconds'' [] elapsed]"

text \<open>
  The middleware before and after the handler. A handler that panics leaves only the deferred
  decrement (\<open>finished = None\<close>); otherwise the status the wrapped writer recorded is used.
\<close>

definition metrics_before :: "string \<Rightarrow> metric_call list" where
  "metrics_before backend = IncBackendRequestsInFlight backend"

definition metrics_after :: "string \<Rightarrow> string \<Rightarrow> int option \<Rightarrow> duration \<Rightarrow> metric_call list" where
  "metrics_after backend method finished elapsed =
     (case finished of
        None \<Rightarrow> []
      | Some statusCode \<Rightarrow>
          metrics_RecordRequest backend method (show_int statusCode) elapsed @
          (if statusCode \<ge> 500 then RecordRequestError backend ''server_error''
           else if statusCode \<ge> 400 then RecordRequestError backend ''client_error''
           else [])) @
     DecBackendRequestsInFlight backend"

definition RequestMetricsMiddleware ::
    "string \<Rightarrow> string \<Rightarrow> duration \<Rightarrow> response_call list \<Rightarrow> bool \<Rightarrow> http_writer \<Rightarrow> http_writer \<times> metric_call list" where
  "RequestMetricsMiddleware backend method elapsed handler panics w =
     (let rw = \<lparr>rw_ResponseWriter = w, rw_statusCode = 200\<rparr>;
          rw = serve metrics_WriteHeader embedded_Write handler rw
      in (rw_ResponseWriter rw,
          metrics_before backend @
          metrics_after backend method (if panics then None else Some (rw_statusCode rw)) elapsed))"

section \<open>Tracing\<close>

datatype span_call =
    StartSpan string
  | SetStatusCode int
  | SetSpanError string
  | SetSpanOk
  | EndSpan

text \<open>The span of a request: its name, the status recorded, the verdict, and the deferred end.\<close>

definition tracing_HTTPMiddleware :: "request \<Rightarrow> response_call list \<Rightarrow> bool \<Rightarrow> http_writer \<Rightarrow> http_writer \<times> span_call list" where
  "tracing_HTTPMiddleware r handler panics w =
     (let rw = serve tracing_WriteHeader embedded_Write handler \<lparr>rw_ResponseWriter = w, rw_statusCode = 200\<rparr>
      in (rw_ResponseWriter rw,
          [StartSpan (req_Method r @ '' '' @ req_Path r)] @
          (if panics then []
           else [SetStatusCode (rw_statusCode rw),
                 if rw_statusCode rw \<ge> 500 then SetSpanError (''HTTP '' @ show_int (rw_statusCode rw)) else SetSpanOk]) @
          [EndSpan]))"

section \<open>Admin server\<close>

record admin_server =
  ad_addr :: string
  ad_startTime :: time
  ad_healthFunc :: "bool option"

datatype admin_body =
    HealthResponse string
  | StatusResponse string int
  | VersionResponse
  | MetricsResponse
  | NotFound

record admin_response =
  ar_status :: int
  ar_contentType :: string
  ar_body :: admin_body

definition NewAdminServer :: "string \<Rightarrow> time \<Rightarrow> bool option \<Rightarrow> admin_server" where
  "NewAdminServer listen now healthFunc = \<lparr>ad_addr = listen, ad_startTime = now, ad_healthFunc = healthFunc\<rparr>"

text \<open>\<open>ad_healthFunc\<close> is what the configured function answers to this request, \<open>None\<close> when there is none.\<close>

definition handleHealth :: "admin_server \<Rightarrow> admin_response" where
  "handleHealth s =
     (let healthy = (case ad_healthFunc s of None \<Rightarrow> True | Some b \<Rightarrow> b);
          status = (if healthy then ''healthy'' else ''unhealthy'');
          statusCode = (if healthy then 200 else 503)
      in \<lparr>ar_status = statusCode, ar_contentType = ''application/json'', ar_body = HealthResponse status\<rparr>)"

definition handleReady :: "admin_server \<Rightarrow> admin_response" where
  "handleReady s = handleHealth s"

definition handleStatus :: "time \<Rightarrow> admin_server \<Rightarrow> admin_response" where
  "handleStatus now s =
     (let uptime = now - ad_startTime s; uptimeSeconds = go_trunc (Seconds uptime)
      in \<lparr>ar_status = 200, ar_contentType = ''application/json'', ar_body = StatusResponse ''running'' uptimeSeconds\<rparr>)"

definition handleVersion :: "admin_server \<Rightarrow> admin_response" where
  "handleVersion s = \<lparr>ar_status = 200, ar_contentType = ''application/json'', ar_body = VersionResponse\<rparr>"

text \<open>The patterns of the mux have no trailing slash, so each matches exactly its path.\<close>

definition admin_mux :: "time \<Rightarrow> admin_server \<Rightarrow> string \<Rightarrow> admin_response" where
  "admin_mux now s path =
     (if path = ''/health'' \<or> path = ''/healthz'' then handleHealth s
      else if path = ''/ready'' \<or> path = ''/readyz'' then handleReady s
      else if path = ''/status'' then handleStatus now s
      else if path = ''/version'' then handleVersion s
      else if path = ''/metrics'' then \<lparr>ar_status = 200, ar_contentType = ''text/plain'', ar_body = MetricsResponse\<rparr>
      else \<lparr>ar_status = 404, ar_contentType = ''text/plain'', ar_body = NotFound\<rparr>)"


section \<open>Recording the status\<close>

lemma response_calls_induct [case_names Nil WriteHeader Write]:
  assumes "P []" and "\<And>code calls. P calls \<Longrightarrow> P (WriteHeader code # calls)" and "\<And>n calls. P calls \<Longrightarrow> P (Write n # calls)"
  shows "P calls"
proof (induction calls)
  case (Cons c calls)
  with assms(2,3) show ?case by (cases c) auto
qed (rule assms(1))

lemma serve_append: "serve header body (xs @ ys) w = serve header body ys (serve header body xs w)"
  by (induction xs arbitrary: w rule: response_calls_induct) auto

text \<open>
  What the three middlewares rely on: their writer remembers the last status it was given, leaves
  it alone on a body, and passes every call on to the writer below.
\<close>

locale status_recorder =
  fixes header :: "int \<Rightarrow> 'w \<Rightarrow> 'w"
    and body :: "nat \<Rightarrow> 'w \<Rightarrow> 'w"
    and status :: "'w \<Rightarrow> int"
    and below :: "'w \<Rightarrow> http_writer"
  assumes status_header: "status (header code w) = code"
    and status_body: "status (body n w) = status w"
    and below_header: "below (header code w) = hw_WriteHeader code (below w)"
    and below_body: "below (body n w) = hw_Write n (below w)"
begin

lemma serve_below: "below (serve header body calls w) = serve hw_WriteHeader hw_Write calls (below w)"
  by (induction calls arbitrary: w rule: response_calls_induct) (simp_all add: below_header below_body)

lemma serve_bodies: "status (serve header body (map Write ns) w) = status w"
  by (induction ns arbitrary: w) (simp_all add: status_body)

lemma serve_last: "status (serve header body (calls @ WriteHeader code # map Write ns) w) = code"
  by (simp add: serve_append serve_bodies status_header)

end

interpretation lrw: status_recorder lrw_WriteHeader lrw_Write lrw_statusCode lrw_ResponseWriter
  by unfold_locales (simp_all add: lrw_WriteHeader_def lrw_Write_def)

interpretation mrw: status_recorder metrics_WriteHeader embedded_Write rw_statusCode rw_ResponseWriter
  by unfold_locales (simp_all add: metrics_WriteHeader_def embedded_Write_def)

interpretation trw: status_recorder tracing_WriteHeader embedded_Write rw_statusCode rw_ResponseWriter
  by unfold_locales (simp_all add: tracing_WriteHeader_def embedded_Write_def)

text \<open>Handlers that set the status at most once, before any body, and to a final one.\<close>

fun orderly :: "response_call list \<Rightarrow> bool" where
  "orderly (WriteHeader code # calls) \<longleftrightarrow> \<not> informational code \<and> list_all (\<lambda>c. \<exists>n. c = Write n) calls"
| "orderly calls \<longleftrightarrow> list_all (\<lambda>c. \<exists>n. c = Write n) calls"

lemma bodies_only: "list_all (\<lambda>c. \<exists>n. c = Write n) calls \<longleftrightarrow> (\<exists>ns. calls = map Write ns)"
proof
  show "\<exists>ns. calls = map Write ns \<Longrightarrow> list_all (\<lambda>c. \<exists>n. c = Write n) calls" by (auto simp: list_all_iff)
  show "list_all (\<lambda>c. \<exists>n. c = Write n) calls \<Longrightarrow> \<exists>ns. calls = map Write ns"
  proof (induction calls)
    case (Cons c calls)
    then obtain n ns where "c = Write n" "calls = map Write ns" by auto
    then show ?case by (intro exI [of _ "n # ns"]) simp
  qed simp
qed

lemma orderly_cases:
  assumes "orderly calls"
  obtains (body) ns where "calls = map Write ns" | (header) code ns where "calls = WriteHeader code # map Write ns" "\<not> informational code"
proof (cases calls)
  case Nil
  then show thesis using body [of "[]"] by simp
next
  case (Cons c cs)
  show thesis
  proof (cases c)
    case (WriteHeader code)
    with Cons assms header show thesis by (auto simp: bodies_only)
  next
    case (Write n)
    with Cons assms have "list_all (\<lambda>c. \<exists>n. c = Write n) calls" by simp
    with body show thesis by (auto simp: bodies_only)
  qed
qed

lemma serve_bodies_sent: "hw_status (serve hw_WriteHeader hw_Write (map Write ns) new_writer) = 200"
proof -
  have "hw_status w = 200 \<Longrightarrow> hw_status (serve hw_WriteHeader hw_Write (map Write ns) w) = 200" for w
    by (induction ns arbitrary: w) (simp_all add: hw_Write_def)
  then show ?thesis by (simp add: new_writer_def)
qed

lemma serve_sent_fixed:
  "hw_wroteHeader w \<Longrightarrow> hw_status (serve hw_WriteHeader hw_Write calls w) = hw_status w"
  by (induction calls arbitrary: w rule: response_calls_induct) (simp_all add: hw_WriteHeader_def hw_Write_def)

lemma lrw_bytes:
  "lrw_bytesWritten (serve lrw_WriteHeader lrw_Write calls w) =
     lrw_bytesWritten w + (\<Sum>c \<leftarrow> calls. case c of Write n \<Rightarrow> int n | _ \<Rightarrow> 0)"
  by (induction calls arbitrary: w rule: response_calls_induct) (simp_all add: lrw_WriteHeader_def lrw_Write_def)

section \<open>Requests in flight\<close>

text \<open>
  Any interleaving of requests through the metrics middleware of one backend: a request starts, or
  one of those running ends, with a status or by a panic. The state is the number of requests
  running, the calls made, and the statuses with which requests ended.
\<close>

record metrics_run =
  mr_running :: nat
  mr_calls :: "metric_call list"
  mr_ended :: "int list"

inductive metrics_reach :: "string \<Rightarrow> metrics_run \<Rightarrow> bool" for backend where
  metrics_idle: "metrics_reach backend \<lparr>mr_running = 0, mr_calls = [], mr_ended = []\<rparr>"
| metrics_start: "metrics_reach backend s \<Longrightarrow>
     metrics_reach backend (s\<lparr>mr_running := mr_running s + 1, mr_calls := mr_calls s @ metrics_before backend\<rparr>)"
| metrics_end: "\<lbrakk>metrics_reach backend s; 0 < mr_running s\<rbrakk> \<Longrightarrow>
     metrics_reach backend (s\<lparr>mr_running := mr_running s - 1,
       mr_calls := mr_calls s @ metrics_after backend method finished elapsed,
       mr_ended := mr_ended s @ (case finished of None \<Rightarrow> [] | Some code \<Rightarrow> [code])\<rparr>)"

definition calls_of :: "metric_call list \<Rightarrow> (metric_call \<Rightarrow> bool) \<Rightarrow> int" where
  "calls_of cs P = int (length (filter P cs))"

lemma calls_of_simps [simp]:
  "calls_of [] P = 0" "calls_of (c # cs) P = (if P c then 1 else 0) + calls_of cs P"
  "calls_of (cs @ ds) P = calls_of cs P + calls_of ds P"
  by (simp_all add: calls_of_def)

definition in_flight :: "string \<Rightarrow> metric_call list \<Rightarrow> int" where
  "in_flight backend cs =
     calls_of cs (\<lambda>c. c = Inc ''balance_backend_requests_in_flight'' [backend]) -
     calls_of cs (\<lambda>c. c = Dec ''balance_backend_requests_in_flight'' [backend])"

definition counted :: "string \<Rightarrow> metric_call list \<Rightarrow> int" where
  "counted name cs = calls_of cs (\<lambda>c. \<exists>labels. c = Inc name labels)"

definition errors_of :: "string \<Rightarrow> string \<Rightarrow> metric_call list \<Rightarrow> int" where
  "errors_of backend kind cs = calls_of cs (\<lambda>c. c = Inc ''balance_request_errors_total'' [backend, kind])"

lemmas metric_defs = in_flight_def counted_def errors_of_def metrics_before_def metrics_after_def metrics_RecordRequest_def
  RecordRequestError_def IncBackendRequestsInFlight_def DecBackendRequestsInFlight_def

lemma metrics_before_counts:
  "in_flight backend (cs @ metrics_before backend) = in_flight backend cs + 1"
  "counted ''balance_requests_total'' (cs @ metrics_before backend) = counted ''balance_requests_total'' cs"
  "errors_of backend kind (cs @ metrics_before backend) = errors_of backend kind cs"
  by (simp_all add: metric_defs)

lemma metrics_after_counts:
  "in_flight backend (cs @ metrics_after backend method finished elapsed) = in_flight backend cs - 1"
  "counted ''balance_requests_total'' (cs @ metrics_after backend method finished elapsed) =
     counted ''balance_requests_total'' cs + (if finished = None then 0 else 1)"
  "errors_of backend ''server_error'' (cs @ metrics_after backend method finished elapsed) =
     errors_of backend ''server_error'' cs + (case finished of Some code \<Rightarrow> if 500 \<le> code then 1 else 0 | None \<Rightarrow> 0)"
  "errors_of backend ''client_error'' (cs @ metrics_after backend method finished elapsed) =
     errors_of backend ''client_error'' cs + (case finished of Some code \<Rightarrow> if 400 \<le> code \<and> code < 500 then 1 else 0 | None \<Rightarrow> 0)"
  by (cases finished; simp add: metric_defs)+

section \<open>Properties\<close>

text \<open>
  C32: The metrics add up. However requests interleave and also when handlers panic, the in-flight
  gauge of a backend is the number of requests running, the request counter is the number of
  requests that ended without a panic, and the error counters are the numbers of those that ended
  with a status of 500 or more and with a status from 400 to 499.
\<close>

theorem request_metrics_add_up:
  assumes "metrics_reach backend s"
  shows "in_flight backend (mr_calls s) = int (mr_running s) \<and>
    counted ''balance_requests_total'' (mr_calls s) = int (length (mr_ended s)) \<and>
    errors_of backend ''server_error'' (mr_calls s) = int (length (filter (\<lambda>code. 500 \<le> code) (mr_ended s))) \<and>
    errors_of backend ''client_error'' (mr_calls s) = int (length (filter (\<lambda>code. 400 \<le> code \<and> code < 500) (mr_ended s)))"
  using assms
proof (induction rule: metrics_reach.induct)
  case metrics_idle
  show ?case by (simp add: metric_defs)
next
  case (metrics_start s)
  then show ?case by (simp add: metrics_before_counts)
next
  case (metrics_end s verb finished elapsed)
  then show ?case by (cases finished) (auto simp: metrics_after_counts)
qed

theorem request_metrics_add_up_witness:
  "\<exists>s. metrics_reach ''b'' s \<and> mr_running s = 1 \<and> in_flight ''b'' (mr_calls s) = 1 \<and>
     errors_of ''b'' ''server_error'' (mr_calls s) = 1"
proof -
  let ?s0 = "\<lparr>mr_running = 0, mr_calls = [], mr_ended = []\<rparr>"
  have "metrics_reach ''b'' ?s0" by (rule metrics_idle)
  note metrics_end [OF metrics_start [OF metrics_start [OF this]], of "Some 502" "''GET''" 7, simplified]
  from this request_metrics_add_up [OF this] show ?thesis by auto
qed

text \<open>
  The status recorded is the status sent. For a handler that sets its status at most once,
  before any body and not to an informational one, the access log, the metrics and the trace all
  use the status the client receives, 200 when the handler sets none.
\<close>

theorem recorded_status_is_sent:
  assumes "orderly calls"
  shows "lrw_statusCode (serve lrw_WriteHeader lrw_Write calls (\<lparr>lrw_ResponseWriter = new_writer, lrw_statusCode = 200, lrw_bytesWritten = 0\<rparr>)) =
      hw_status (serve hw_WriteHeader hw_Write calls new_writer) \<and>
    rw_statusCode (serve metrics_WriteHeader embedded_Write calls \<lparr>rw_ResponseWriter = new_writer, rw_statusCode = 200\<rparr>) =
      hw_status (serve hw_WriteHeader hw_Write calls new_writer) \<and>
    rw_statusCode (serve tracing_WriteHeader embedded_Write calls \<lparr>rw_ResponseWriter = new_writer, rw_statusCode = 200\<rparr>) =
      hw_status (serve hw_WriteHeader hw_Write calls new_writer)"
  using assms
proof (cases rule: orderly_cases)
  case (body ns)
  then show ?thesis by (simp add: serve_bodies_sent lrw.serve_bodies mrw.serve_bodies trw.serve_bodies)
next
  case (header code ns)
  have sent: "hw_status (serve hw_WriteHeader hw_Write calls new_writer) = code"
    using header by (simp add: hw_WriteHeader_def new_writer_def serve_sent_fixed)
  show ?thesis unfolding sent
    using header lrw.serve_last [of "[]" code ns] mrw.serve_last [of "[]" code ns] trw.serve_last [of "[]" code ns] by simp
qed

theorem recorded_status_is_sent_witness:
  "lrw_statusCode (serve lrw_WriteHeader lrw_Write [WriteHeader 404, Write 9]
     \<lparr>lrw_ResponseWriter = new_writer, lrw_statusCode = 200, lrw_bytesWritten = 0\<rparr>) =
   hw_status (serve hw_WriteHeader hw_Write [WriteHeader 404, Write 9] new_writer)"
  using recorded_status_is_sent [of "[WriteHeader 404, Write 9]"] by (simp add: informational_def)

text \<open>
  The admin server answers its probes alike. All four health paths report 200 and healthy when
  no health function is configured or it answers yes, and 503 and unhealthy otherwise; the status
  page reports the whole seconds since the start; any other path is not found.
\<close>

theorem admin_probes:
  "(path \<in> {''/health'', ''/healthz'', ''/ready'', ''/readyz''} \<longrightarrow>
      ar_status (admin_mux now s path) = (if ad_healthFunc s = Some False then 503 else 200) \<and>
      ar_body (admin_mux now s path) = HealthResponse (if ad_healthFunc s = Some False then ''unhealthy'' else ''healthy'')) \<and>
   (ad_startTime s \<le> now \<longrightarrow>
      ar_body (admin_mux now s ''/status'') = StatusResponse ''running'' ((now - ad_startTime s) div 1000000000)) \<and>
   (ar_status (admin_mux now s path) = 404 \<longleftrightarrow>
      path \<notin> {''/health'', ''/healthz'', ''/ready'', ''/readyz'', ''/status'', ''/version'', ''/metrics''})"
proof (intro conjI)
  show "path \<in> {''/health'', ''/healthz'', ''/ready'', ''/readyz''} \<longrightarrow>
      ar_status (admin_mux now s path) = (if ad_healthFunc s = Some False then 503 else 200) \<and>
      ar_body (admin_mux now s path) = HealthResponse (if ad_healthFunc s = Some False then ''unhealthy'' else ''healthy'')"
    by (auto simp: admin_mux_def handleReady_def handleHealth_def Let_def split: option.splits)
  have "go_trunc (Seconds d) = d div 1000000000" if "0 \<le> d" for d
    using that by (simp add: go_trunc_def Seconds_def floor_divide_of_int_eq [of d 1000000000, simplified])
  then show "ad_startTime s \<le> now \<longrightarrow>
      ar_body (admin_mux now s ''/status'') = StatusResponse ''running'' ((now - ad_startTime s) div 1000000000)"
    by (simp add: admin_mux_def handleStatus_def Let_def)
  show "ar_status (admin_mux now s path) = 404 \<longleftrightarrow>
      path \<notin> {''/health'', ''/healthz'', ''/ready'', ''/readyz'', ''/status'', ''/version'', ''/metrics''}"
    by (auto simp: admin_mux_def handleReady_def handleHealth_def handleStatus_def handleVersion_def Let_def)
qed

theorem admin_probes_witness:
  "ar_status (admin_mux 5 (NewAdminServer '':9090'' 0 (Some False)) ''/readyz'') = 503"
  using admin_probes [of "''/readyz''" 5 "NewAdminServer '':9090'' 0 (Some False)"] by (simp add: NewAdminServer_def)



end
