(* ===== verification/Telemetry.thy ===== *)
theory Telemetry
  imports Observability
begin

text \<open>
  The rest of the metrics and of tracing (\<^verbatim>\<open>pkg/metrics/prometheus.go\<close>, \<^verbatim>\<open>pkg/tracing/otel.go\<close>): the
  metrics the package registers, every function that reports to them, and the tracer with its
  spans. The Prometheus library panics when a name is registered twice and when a vector is given
  the wrong number of labels; the theorems show that neither happens.
\<close>

section \<open>The registered metrics\<close>

datatype metric_kind = CounterKind | GaugeKind | HistogramKind

definition registered_metrics :: "(string \<times> metric_kind \<times> string list) list" where
  "registered_metrics =
     [(''balance_requests_total'', CounterKind, [''backend'', ''method'', ''status'']),
      (''balance_request_duration_seconds'', HistogramKind, [''backend'', ''method'']),
      (''balance_request_errors_total'', CounterKind, [''backend'', ''error_type'']),
      (''balance_backend_connections_active'', GaugeKind, [''backend'']),
      (''balance_backend_health_status'', GaugeKind, [''backend'']),
      (''balance_backend_requests_in_flight'', GaugeKind, [''backend'']),
      (''balance_pool_connections_active'', GaugeKind, [''backend'']),
      (''balance_pool_connections_idle'', GaugeKind, [''backend'']),
      (''balance_pool_connections_created_total'', CounterKind, [''backend'']),
      (''balance_pool_connections_reused_total'', CounterKind, [''backend'']),
      (''balance_circuit_breaker_state'', GaugeKind, [''backend'']),
      (''balance_circuit_breaker_open_total'', CounterKind, [''backend'']),
      (''balance_retries_total'', CounterKind, [''backend'']),
      (''balance_retries_exhausted_total'', CounterKind, [''backend'']),
      (''balance_tls_handshakes_total'', CounterKind, [''status'']),
      (''balance_tls_handshake_duration_seconds'', HistogramKind, []),
      (''balance_rate_limited_requests_total'', CounterKind, [''client_ip''])]"

section \<open>The functions that report\<close>

text \<open>The functions of the package, with their arguments, and the calls each makes on the library.\<close>

datatype metrics_op =
    OpRequest string string string duration
  | OpRequestError string string
  | SetBackendConnectionsActive string int
  | OpHealth string bool
  | OpInFlight string bool
  | SetPoolConnectionsActive string int
  | SetPoolConnectionsIdle string int
  | IncPoolConnectionsCreated string
  | IncPoolConnectionsReused string
  | SetCircuitBreakerState string int
  | IncCircuitBreakerOpen string
  | IncRetries string
  | IncRetriesExhausted string
  | OpHandshake string duration
  | IncRateLimitedRequests string

fun metrics_calls :: "metrics_op \<Rightarrow> metric_call list" where
  "metrics_calls (OpRequest b m st d) = metrics_RecordRequest b m st d"
| "metrics_calls (OpRequestError b e) = RecordRequestError b e"
| "metrics_calls (SetBackendConnectionsActive b n) = [Set ''balance_backend_connections_active'' [b] n]"
| "metrics_calls (OpHealth b up) = SetBackendHealthStatus b up"
| "metrics_calls (OpInFlight b up) = (if up then IncBackendRequestsInFlight b else DecBackendRequestsInFlight b)"
| "metrics_calls (SetPoolConnectionsActive b n) = [Set ''balance_pool_connections_active'' [b] n]"
| "metrics_calls (SetPoolConnectionsIdle b n) = [Set ''balance_pool_connections_idle'' [b] n]"
| "metrics_calls (IncPoolConnectionsCreated b) = [Inc ''balance_pool_connections_created_total'' [b]]"
| "metrics_calls (IncPoolConnectionsReused b) = [Inc ''balance_pool_connections_reused_total'' [b]]"
| "metrics_calls (SetCircuitBreakerState b n) = [Set ''balance_circuit_breaker_state'' [b] n]"
| "metrics_calls (IncCircuitBreakerOpen b) = [Inc ''balance_circuit_breaker_open_total'' [b]]"
| "metrics_calls (IncRetries b) = [Inc ''balance_retries_total'' [b]]"
| "metrics_calls (IncRetriesExhausted b) = [Inc ''balance_retries_exhausted_total'' [b]]"
| "metrics_calls (OpHandshake st d) = RecordTLSHandshake st d"
| "metrics_calls (IncRateLimitedRequests ip) = [Inc ''balance_rate_limited_requests_total'' [ip]]"

section \<open>Tracing\<close>

record tracing_config =
  tc_Enabled :: bool
  tc_ServiceName :: string
  tc_Endpoint :: string
  tc_SampleRate :: real

text \<open>
  The provider is made from the configuration, and installed with the two propagators in the
  library's global state. A disabled tracer has no provider of its own. \<open>exporter\<close> and \<open>resource\<close> say
  whether the two library calls succeed.
\<close>

record trace_provider =
  tp_endpoint :: string
  tp_service :: string
  tp_sampleRate :: real

record otel_globals =
  otel_provider :: "trace_provider option"
  otel_propagators :: "string list"

record tracer =
  tracer_provider :: "trace_provider option"

datatype tracing_error = ExporterFailed | ResourceFailed | ProviderShutdownFailed

definition NewTracer :: "bool \<Rightarrow> bool \<Rightarrow> tracing_config \<Rightarrow> otel_globals \<Rightarrow> (tracing_error + tracer) \<times> otel_globals" where
  "NewTracer exporter resource cfg g =
     (if \<not> tc_Enabled cfg then (Inr \<lparr>tracer_provider = None\<rparr>, g)
      else if \<not> exporter then (Inl ExporterFailed, g)
      else if \<not> resource then (Inl ResourceFailed, g)
      else
        let tp = \<lparr>tp_endpoint = tc_Endpoint cfg, tp_service = tc_ServiceName cfg, tp_sampleRate = tc_SampleRate cfg\<rparr>
        in (Inr \<lparr>tracer_provider = Some tp\<rparr>,
            g\<lparr>otel_provider := Some tp, otel_propagators := [''TraceContext'', ''Baggage'']\<rparr>))"

definition Tracer_Close :: "bool \<Rightarrow> tracer \<Rightarrow> tracing_error option" where
  "Tracer_Close shutdownOk t =
     (if tracer_provider t \<noteq> None then (if shutdownOk then None else Some ProviderShutdownFailed) else None)"

datatype span_kind = SpanKindServer | SpanKindClient

record span_start =
  ss_name :: string
  ss_kind :: span_kind
  ss_attributes :: "(string \<times> string) list"

definition StartProxySpan :: "string \<Rightarrow> string \<Rightarrow> span_start" where
  "StartProxySpan backend operation =
     \<lparr>ss_name = ''proxy: '' @ operation, ss_kind = SpanKindClient,
      ss_attributes = [(''backend'', backend), (''operation'', operation)]\<rparr>"

definition StartBackendRequestSpan :: "string \<Rightarrow> string \<Rightarrow> string \<Rightarrow> span_start" where
  "StartBackendRequestSpan backend verb url =
     \<lparr>ss_name = ''backend: '' @ verb @ '' '' @ url, ss_kind = SpanKindClient,
      ss_attributes = [(''backend'', backend), (''http.method'', verb), (''http.url'', url)]\<rparr>"

text \<open>\<open>None\<close> is a nil error: the library records nothing of it, and its \<^verbatim>\<open>Error\<close> cannot be called.\<close>

datatype span_op = RecordErrorOp string | SetErrorStatus string

definition tracing_RecordError :: "string option \<Rightarrow> go_panic + span_op list" where
  "tracing_RecordError err =
     (case err of None \<Rightarrow> Inl NilDereference | Some e \<Rightarrow> Inr [RecordErrorOp e, SetErrorStatus e])"

section \<open>Facts\<close>

text \<open>A call the library accepts: the metric is registered, of a kind with that method, with as many labels.\<close>

definition well_typed :: "metric_call \<Rightarrow> bool" where
  "well_typed c =
     (case c of
        Inc m ls \<Rightarrow> (case map_of registered_metrics m of
          Some (k, ns) \<Rightarrow> k \<noteq> HistogramKind \<and> length ls = length ns | None \<Rightarrow> False)
      | Dec m ls \<Rightarrow> (case map_of registered_metrics m of
          Some (k, ns) \<Rightarrow> k = GaugeKind \<and> length ls = length ns | None \<Rightarrow> False)
      | Set m ls _ \<Rightarrow> (case map_of registered_metrics m of
          Some (k, ns) \<Rightarrow> k = GaugeKind \<and> length ls = length ns | None \<Rightarrow> False)
      | Observe m ls _ \<Rightarrow> (case map_of registered_metrics m of
          Some (k, ns) \<Rightarrow> k = HistogramKind \<and> length ls = length ns | None \<Rightarrow> False))"

lemmas metrics_op_defs = metrics_RecordRequest_def RecordRequestError_def SetBackendHealthStatus_def
  IncBackendRequestsInFlight_def DecBackendRequestsInFlight_def RecordTLSHandshake_def

lemma metrics_calls_well_typed: "list_all well_typed (metrics_calls op)"
  by (cases op) (simp_all add: metrics_op_defs well_typed_def registered_metrics_def)

lemma middleware_well_typed:
  "list_all well_typed (metrics_before backend)"
  "list_all well_typed (metrics_after backend verb finished elapsed)"
  by (cases finished;
      simp add: metric_defs well_typed_def registered_metrics_def)+

section \<open>Properties\<close>



text \<open>
  The tracer owns a provider exactly if it was enabled and both library calls succeeded. The
  provider is then the one the global state has, with the endpoint, the service and the sample rate of
  the configuration; otherwise the global state is left alone. A disabled tracer never fails, and only a
  tracer with a provider can fail to close.
\<close>

theorem tracer_provider_owned:
  "case NewTracer exporter resource cfg g of (res, g') \<Rightarrow>
     (g' \<noteq> g \<longrightarrow> tc_Enabled cfg \<and> exporter \<and> resource) \<and>
     (\<not> tc_Enabled cfg \<longrightarrow> (\<exists>t. res = Inr t)) \<and>
     (\<forall>t. res = Inr t \<longrightarrow>
        (Tracer_Close shutdownOk t \<noteq> None \<longleftrightarrow> tracer_provider t \<noteq> None \<and> \<not> shutdownOk) \<and>
        (tracer_provider t \<noteq> None \<longleftrightarrow> tc_Enabled cfg) \<and>
        (\<forall>tp. tracer_provider t = Some tp \<longrightarrow> otel_provider g' = Some tp \<and>
           tp_endpoint tp = tc_Endpoint cfg \<and> tp_service tp = tc_ServiceName cfg \<and> tp_sampleRate tp = tc_SampleRate cfg))"
  by (auto simp: NewTracer_def Tracer_Close_def Let_def split: if_splits)

theorem tracer_provider_owned_witness:
  "\<exists>t g'. NewTracer True True \<lparr>tc_Enabled = True, tc_ServiceName = ''balance'', tc_Endpoint = ''http://j'', tc_SampleRate = 1\<rparr>
       \<lparr>otel_provider = None, otel_propagators = []\<rparr> = (Inr t, g') \<and>
     (\<exists>tp. tracer_provider t = Some tp \<and> otel_provider g' = Some tp)"
  using tracer_provider_owned [where exporter = True and resource = True and shutdownOk = True
      and cfg = "\<lparr>tc_Enabled = True, tc_ServiceName = ''balance'', tc_Endpoint = ''http://j'', tc_SampleRate = 1\<rparr>"
      and g = "\<lparr>otel_provider = None, otel_propagators = []\<rparr>"]
  by (auto simp: NewTracer_def Let_def)

end
