(* ===== verification/SelfSigned.thy ===== *)
theory SelfSigned
  imports Tls
begin

text \<open>
  Self-signed certificates (\<^verbatim>\<open>pkg/tls/cert_manager.go\<close>): \<^verbatim>\<open>GenerateSelfSignedCertificate\<close> and
  \<^verbatim>\<open>SaveCertificateToPEM\<close>, and their way back through \<^verbatim>\<open>LoadCertificate\<close>. Keys and signatures are
  arguments: \<open>create\<close> is \<^verbatim>\<open>x509.CreateCertificate\<close>, \<open>parse\<close> is \<^verbatim>\<open>x509.ParseCertificate\<close> and \<open>matching\<close> the
  test of a key against a certificate. Files hold one PEM block each.
\<close>

section \<open>Generating\<close>

datatype self_signed_error = KeyGenerationFailed | SerialFailed | SigningFailed | CreatedParseFailed

definition self_signed_template :: "time \<Rightarrow> string \<Rightarrow> string list \<Rightarrow> x509_cert" where
  "self_signed_template now cn domains =
     \<lparr>x509_CommonName = cn, x509_DNSNames = domains, x509_NotBefore = now,
      x509_NotAfter = now + 365 * 24 * 3600 * Second\<rparr>"

text \<open>
  The result has the certificate, its chain and its key. \<open>key\<close> and \<open>serial\<close> are what the two
  calls of the random generator give; \<^verbatim>\<open>domains[0]\<close> is read after them.
\<close>

definition GenerateSelfSignedCertificate ::
    "'k option \<Rightarrow> bool \<Rightarrow> ('k \<Rightarrow> x509_cert \<Rightarrow> 'der option) \<Rightarrow> ('der \<Rightarrow> x509_cert option) \<Rightarrow> time \<Rightarrow> string list
      \<Rightarrow> go_panic + self_signed_error + certificate \<times> 'der list \<times> 'k" where
  "GenerateSelfSignedCertificate key serial create parse now domains =
     (case key of
        None \<Rightarrow> Inr (Inl KeyGenerationFailed)
      | Some k \<Rightarrow>
          if \<not> serial then Inr (Inl SerialFailed)
          else case domains of
            [] \<Rightarrow> Inl IndexOutOfRange
          | d # _ \<Rightarrow>
              let template = self_signed_template now d domains
              in case create k template of
                   None \<Rightarrow> Inr (Inl SigningFailed)
                 | Some der \<Rightarrow>
                     (case parse der of
                        None \<Rightarrow> Inr (Inl CreatedParseFailed)
                      | Some cert \<Rightarrow>
                          Inr (Inr (\<lparr>ce_Cert = Some cert, ce_Domains = domains, ce_NotBefore = x509_NotBefore template,
                                     ce_NotAfter = x509_NotAfter template\<rparr>, [der], k))))"

section \<open>Saving\<close>

datatype ('der, 'k) pem_file = EmptyFile | CertFile 'der | KeyFile 'k

type_synonym ('der, 'k) pem_files = "string \<rightharpoonup> ('der, 'k) pem_file"

datatype save_error = CreateCertFailed | WriteCertFailed | CreateKeyFailed | NotRSA | WriteKeyFailed

text \<open>
  \<open>key = None\<close> is a private key that is not an RSA key. Creating a file truncates it, and what has
  been written stays when a later step fails.
\<close>

definition SaveCertificateToPEM ::
    "(string \<Rightarrow> bool) \<Rightarrow> (string \<Rightarrow> bool) \<Rightarrow> 'der list \<Rightarrow> 'k option \<Rightarrow> string \<Rightarrow> string \<Rightarrow> ('der, 'k) pem_files
      \<Rightarrow> (go_panic + save_error option) \<times> ('der, 'k) pem_files" where
  "SaveCertificateToPEM creatable writable chain key certFile keyFile fs =
     (if \<not> creatable certFile then (Inr (Some CreateCertFailed), fs)
      else
        let fs = fs(certFile \<mapsto> EmptyFile)
        in case chain of
             [] \<Rightarrow> (Inl IndexOutOfRange, fs)
           | der # _ \<Rightarrow>
               if \<not> writable certFile then (Inr (Some WriteCertFailed), fs)
               else
                 let fs = fs(certFile \<mapsto> CertFile der)
                 in if \<not> creatable keyFile then (Inr (Some CreateKeyFailed), fs)
                    else
                      let fs = fs(keyFile \<mapsto> EmptyFile)
                      in case key of
                           None \<Rightarrow> (Inr (Some NotRSA), fs)
                         | Some k \<Rightarrow>
                             if \<not> writable keyFile then (Inr (Some WriteKeyFailed), fs)
                             else (Inr None, fs(keyFile \<mapsto> KeyFile k)))"

text \<open>\<^verbatim>\<open>tls.LoadX509KeyPair\<close> on such files.\<close>

definition load_pair :: "('der \<Rightarrow> 'k \<Rightarrow> bool) \<Rightarrow> ('der, 'k) pem_files \<Rightarrow> string \<Rightarrow> string \<Rightarrow> 'der option" where
  "load_pair matching fs certFile keyFile =
     (case (fs certFile, fs keyFile) of
        (Some (CertFile der), Some (KeyFile k)) \<Rightarrow> if matching der k then Some der else None
      | _ \<Rightarrow> None)"

section \<open>Facts\<close>

text \<open>A certificate has its times in whole seconds.\<close>

definition whole_seconds :: "x509_cert \<Rightarrow> x509_cert" where
  "whole_seconds c =
     c\<lparr>x509_NotBefore := x509_NotBefore c div Second * Second, x509_NotAfter := x509_NotAfter c div Second * Second\<rparr>"

lemma whole_second_le: "t div Second * Second \<le> (t :: int)"
  by (simp add: minus_mod_eq_div_mult [symmetric])

lemma whole_second_gt: "(t :: int) < t div Second * Second + Second"
  using pos_mod_bound [of Second t] by (simp add: minus_mod_eq_div_mult [symmetric])

lemma GenerateSelfSigned_cases:
  assumes "GenerateSelfSignedCertificate key serial create parse now domains = Inr (Inr (cert, chain, k))"
  obtains d ds der x where "domains = d # ds" "create k (self_signed_template now d domains) = Some der"
    "parse der = Some x" "chain = [der]"
    "cert = \<lparr>ce_Cert = Some x, ce_Domains = domains, ce_NotBefore = now,
      ce_NotAfter = now + 365 * 24 * 3600 * Second\<rparr>"
  using assms
  by (auto simp: GenerateSelfSignedCertificate_def self_signed_template_def Let_def
      split: option.splits if_splits list.splits)

lemma SaveCertificate_ok:
  assumes "SaveCertificateToPEM creatable writable [der] (Some k) certFile keyFile fs = (Inr None, fs')"
    and "certFile \<noteq> keyFile"
  shows "fs' certFile = Some (CertFile der) \<and> fs' keyFile = Some (KeyFile k)"
  using assms by (auto simp: SaveCertificateToPEM_def Let_def split: if_splits)

section \<open>Properties\<close>

text \<open>
  C34: A generated certificate comes back from its files. If the library signs what it is given
  and the key fits, then after generating a certificate and saving it to two different files,
  loading them succeeds; the loaded certificate names the same domains, its times are those of
  the generated one in whole seconds, and adding it to a manager at that moment succeeds and makes
  every non-empty domain resolve to it.
\<close>

theorem self_signed_round_trip:
  assumes gen: "GenerateSelfSignedCertificate key serial create parse now domains = Inr (Inr (cert, chain, k))"
    and save: "SaveCertificateToPEM creatable writable chain (Some k) certFile keyFile fs = (Inr None, fs')"
    and files: "certFile \<noteq> keyFile"
    and signs: "\<forall>k t der. create k t = Some der \<longrightarrow> parse der = Some (whole_seconds t) \<and> matching der k"
  shows "\<exists>c. LoadCertificate (load_pair matching fs') parse certFile keyFile = Inr c \<and>
    set (ce_Domains c) - {''''} = set (ce_Domains cert) - {''''} \<and>
    ce_NotBefore c = ce_NotBefore cert div Second * Second \<and> ce_NotAfter c = ce_NotAfter cert div Second * Second \<and>
    (\<forall>cs r cm. cs r = c \<longrightarrow> (\<exists>cm'. AddCertificate now cs (Some r) cm = (None, cm') \<and>
      (\<forall>d \<in> set domains. d \<noteq> '''' \<longrightarrow> GetCertificate cm' d = Inr r)))"
proof -
  obtain d ds der x where g: "domains = d # ds" "create k (self_signed_template now d domains) = Some der"
    "parse der = Some x" "chain = [der]"
    "cert = \<lparr>ce_Cert = Some x, ce_Domains = domains, ce_NotBefore = now,
      ce_NotAfter = now + 365 * 24 * 3600 * Second\<rparr>"
    using gen by (rule GenerateSelfSigned_cases)
  from signs g(2,3) have x: "x = whole_seconds (self_signed_template now d domains)" "matching der k"
    by auto
  define c where "c = \<lparr>ce_Cert = Some x, ce_Domains = (if d \<noteq> '''' then [d] else []) @ domains,
    ce_NotBefore = now div Second * Second, ce_NotAfter = (now + 365 * 24 * 3600 * Second) div Second * Second\<rparr>"
  have "load_pair matching fs' certFile keyFile = Some der"
    using SaveCertificate_ok [OF save [unfolded g(4)] files] x(2) by (simp add: load_pair_def)
  then have load: "LoadCertificate (load_pair matching fs') parse certFile keyFile = Inr c"
    using g(3) by (simp add: LoadCertificate_def c_def x(1) whole_seconds_def self_signed_template_def)
  have valid: "ce_NotBefore c \<le> now" "now \<le> ce_NotAfter c" "ce_Cert c \<noteq> None"
    using whole_second_le [of now] whole_second_gt [of "now + 365 * 24 * 3600 * Second"] by (simp_all add: c_def)
  have add: "\<exists>cm'. AddCertificate now cs (Some r) cm = (None, cm') \<and>
      (\<forall>e \<in> set domains. e \<noteq> '''' \<longrightarrow> GetCertificate cm' e = Inr r)" if r: "cs r = c" for cs r cm
    using valid by (auto simp: AddCertificate_def validateCertificate_def GetCertificate_def gm_get_fold_set
        Let_def r c_def split: if_splits option.splits)
  have "set (ce_Domains c) - {''''} = set (ce_Domains cert) - {''''}"
    by (auto simp: c_def g(1,5))
  with load add show ?thesis by (intro exI [of _ c]) (simp add: c_def g(5))
qed

definition demo_parse :: "x509_cert \<Rightarrow> x509_cert option" where
  "demo_parse der = Some (whole_seconds der)"

definition demo_create :: "int \<Rightarrow> x509_cert \<Rightarrow> x509_cert option" where
  "demo_create k t = Some t"

definition demo_matching :: "x509_cert \<Rightarrow> int \<Rightarrow> bool" where
  "demo_matching der k = True"

theorem self_signed_round_trip_witness:
  "\<exists>cert fs c. GenerateSelfSignedCertificate (Some 7) True demo_create demo_parse 5 [''a.org''] =
       Inr (Inr (cert, [self_signed_template 5 ''a.org'' [''a.org'']], 7)) \<and>
     LoadCertificate (load_pair demo_matching fs) demo_parse ''c.pem'' ''k.pem'' = Inr c \<and>
     ''a.org'' \<in> set (ce_Domains c)"
proof -
  define t where "t = self_signed_template 5 ''a.org'' [''a.org'']"
  define cert where "cert = \<lparr>ce_Cert = Some (whole_seconds t), ce_Domains = [''a.org''],
    ce_NotBefore = x509_NotBefore t, ce_NotAfter = x509_NotAfter t\<rparr>"
  define fs where "fs = snd (SaveCertificateToPEM (\<lambda>_. True) (\<lambda>_. True) [t] (Some (7 :: int)) ''c.pem'' ''k.pem'' Map.empty)"
  have gen: "GenerateSelfSignedCertificate (Some 7) True demo_create demo_parse 5 [''a.org''] = Inr (Inr (cert, [t], 7))"
    unfolding cert_def t_def by (simp add: GenerateSelfSignedCertificate_def demo_parse_def demo_create_def Let_def)
  have save: "SaveCertificateToPEM (\<lambda>_. True) (\<lambda>_. True) [t] (Some (7 :: int)) ''c.pem'' ''k.pem'' Map.empty = (Inr None, fs)"
    unfolding fs_def by (simp add: SaveCertificateToPEM_def Let_def)
  have files: "''c.pem'' \<noteq> ''k.pem''" by simp
  have signs: "\<forall>k t der. demo_create k t = Some der \<longrightarrow> demo_parse der = Some (whole_seconds t) \<and> demo_matching der k"
    by (simp add: demo_parse_def demo_create_def demo_matching_def)
  from self_signed_round_trip [OF gen save files signs] obtain c where
    c: "LoadCertificate (load_pair demo_matching fs) demo_parse ''c.pem'' ''k.pem'' = Inr c"
    "set (ce_Domains c) - {''''} = set (ce_Domains cert) - {''''}" by (elim exE conjE)
  have "''a.org'' \<in> set (ce_Domains cert) - {''''}" by (simp add: cert_def)
  then have "''a.org'' \<in> set (ce_Domains c)" unfolding c(2) [symmetric] by simp
  with gen c(1) show ?thesis unfolding t_def by (intro exI conjI)
qed

end
