(* ===== verification/IpAddress.thy ===== *)
theory IpAddress
  imports Prelude
begin

text \<open>
  Addresses as text (\<^verbatim>\<open>pkg/security/protection.go\<close>, \<^verbatim>\<open>ValidateIP\<close>): the parser \<^verbatim>\<open>net.ParseIP\<close> of the
  standard library, loop by loop, on the bytes of the string. An address is its sixteen bytes, an
  IPv4 address mapped into IPv6 as the library does. The block list, the rate limiter and the
  connection guard use the text of an address as their key; the theorem shows that for IPv4 this text
  is unique.
\<close>

section \<open>IPv4\<close>

definition digit_of :: "char \<Rightarrow> nat option" where
  "digit_of c = (let n = of_char c :: nat in if 48 \<le> n \<and> n \<le> 57 then Some (n - 48) else None)"

text \<open>
  \<^verbatim>\<open>parseIPv4Fields\<close>: \<open>v\<close> and \<open>digLen\<close> are the value and the number of digits of the current field,
  \<open>edge\<close> says that the last byte was a dot or that there was none.
\<close>

fun parseIPv4Fields :: "string \<Rightarrow> nat \<Rightarrow> nat \<Rightarrow> bool \<Rightarrow> nat list \<Rightarrow> nat list option" where
  "parseIPv4Fields [] v digLen edge fields = (if length fields < 3 then None else Some (fields @ [v]))"
| "parseIPv4Fields (c # s) v digLen edge fields =
     (case digit_of c of
        Some d \<Rightarrow>
          if digLen = 1 \<and> v = 0 then None
          else if v * 10 + d > 255 then None
          else parseIPv4Fields s (v * 10 + d) (digLen + 1) False fields
      | None \<Rightarrow>
          if c = CHR ''.'' then
            if edge \<or> s = [] then None
            else if length fields = 3 then None
            else parseIPv4Fields s 0 0 True (fields @ [v])
          else None)"

definition parseIPv4 :: "string \<Rightarrow> nat list option" where
  "parseIPv4 s = parseIPv4Fields s 0 0 True []"

section \<open>IPv6\<close>

definition hex_of :: "char \<Rightarrow> nat option" where
  "hex_of c =
     (let n = of_char c :: nat
      in if 48 \<le> n \<and> n \<le> 57 then Some (n - 48)
         else if 97 \<le> n \<and> n \<le> 102 then Some (n - 87)
         else if 65 \<le> n \<and> n \<le> 70 then Some (n - 55)
         else None)"

text \<open>The hexadecimal digits of a group: how many, their value, and the rest; more than four are an error.\<close>

fun hex_group :: "string \<Rightarrow> nat \<Rightarrow> nat \<Rightarrow> (nat \<times> nat \<times> string) option" where
  "hex_group [] off acc = Some (off, acc, [])"
| "hex_group (c # s) off acc =
     (case hex_of c of
        Some d \<Rightarrow> if off > 3 then None else if acc * 16 + d > 65535 then None else hex_group s (off + 1) (acc * 16 + d)
      | None \<Rightarrow> Some (off, acc, c # s))"

lemma hex_group_shorter: "hex_group s off acc = Some (n, v, r) \<Longrightarrow> length r + n = length s + off"
  by (induction s arbitrary: off acc) (fastforce split: option.splits if_splits)+

text \<open>
  The loop: \<open>ip\<close> has the bytes so far, \<open>ellipsis\<close> the position of \<open>::\<close> in them. The result is the bytes,
  the position, and what is left of the string.
\<close>

function ipv6_loop :: "string \<Rightarrow> nat list \<Rightarrow> nat option \<Rightarrow> (nat list \<times> nat option \<times> string) option" where
  "ipv6_loop s ip ellipsis =
     (if length ip \<ge> 16 then Some (ip, ellipsis, s)
      else case hex_group s 0 0 of
        None \<Rightarrow> None
      | Some (off, acc, r) \<Rightarrow>
          if off = 0 then None
          else if r \<noteq> [] \<and> hd r = CHR ''.'' then
            if ellipsis = None \<and> length ip \<noteq> 12 then None
            else if length ip + 4 > 16 then None
            else (case parseIPv4Fields s 0 0 True [] of None \<Rightarrow> None | Some v4 \<Rightarrow> Some (ip @ v4, ellipsis, []))
          else
            let ip = ip @ [acc div 256, acc mod 256]
            in if r = [] then Some (ip, ellipsis, [])
               else if hd r \<noteq> CHR '':'' then None
               else if length r = 1 then None
               else if hd (tl r) = CHR '':'' then
                 if ellipsis \<noteq> None then None
                 else if tl (tl r) = [] then Some (ip, Some (length ip), [])
                 else ipv6_loop (tl (tl r)) ip (Some (length ip))
               else ipv6_loop (tl r) ip ellipsis)"
  by pat_completeness auto
termination
  by (relation "measure (\<lambda>(s, ip, e). 16 - length ip)") auto

declare ipv6_loop.simps [simp del]

definition expand_ellipsis :: "nat list \<Rightarrow> nat \<Rightarrow> nat list" where
  "expand_ellipsis ip e = take e ip @ replicate (16 - length ip) 0 @ drop e ip"

definition ipv6_finish :: "(nat list \<times> nat option \<times> string) option \<Rightarrow> nat list option" where
  "ipv6_finish result =
     (case result of
        None \<Rightarrow> None
      | Some (ip, ellipsis, s) \<Rightarrow>
          if s \<noteq> [] then None
          else if length ip < 16 then map_option (expand_ellipsis ip) ellipsis
          else if ellipsis \<noteq> None then None
          else Some ip)"

definition parseIPv6 :: "string \<Rightarrow> nat list option" where
  "parseIPv6 s =
     (if HasPrefix s ''::'' then
        if drop 2 s = [] then Some (replicate 16 0) else ipv6_finish (ipv6_loop (drop 2 s) [] (Some 0))
      else ipv6_finish (ipv6_loop s [] None))"

section \<open>ParseIP\<close>

text \<open>
  The first dot, colon or percent sign decides. A zone is an error for \<^verbatim>\<open>net.ParseIP\<close>, so no
  address has a percent sign.
\<close>

definition v4_mapped :: "nat list \<Rightarrow> nat list" where
  "v4_mapped v4 = replicate 10 0 @ [255, 255] @ v4"

definition ParseIP :: "string \<Rightarrow> nat list option" where
  "ParseIP s =
     (case find (\<lambda>c. c = CHR ''.'' \<or> c = CHR '':'' \<or> c = CHR ''%'') s of
        None \<Rightarrow> None
      | Some c \<Rightarrow>
          if c = CHR ''.'' then map_option v4_mapped (parseIPv4 s)
          else if c = CHR ''%'' then None
          else if CHR ''%'' \<in> set s then None
          else parseIPv6 s)"

text \<open>The error is nil exactly if the result is \<open>True\<close>.\<close>

definition ValidateIP :: "string \<Rightarrow> bool" where
  "ValidateIP ip = (if ParseIP ip = None then False else True)"

section \<open>The text of an IPv4 address\<close>

fun join_dots :: "nat list \<Rightarrow> string" where
  "join_dots [] = []"
| "join_dots [n] = show_nat n"
| "join_dots (n # ns) = show_nat n @ ''.'' @ join_dots ns"

lemma digit_of_Some: "digit_of c = Some d \<longleftrightarrow> c = char_of (48 + d) \<and> d < 10"
proof -
  have "digit_of (char_of (48 + d)) = Some d" if "d < 10"
    using that by (auto simp: digit_of_def Let_def)
  moreover have "c = char_of (48 + d) \<and> d < 10" if "digit_of c = Some d"
  proof -
    from that have "of_char c = 48 + d" and d: "d < 10" by (auto simp: digit_of_def Let_def split: if_splits)
    then show ?thesis by (metis char_of_char)
  qed
  ultimately show ?thesis by blast
qed

lemma show_nat_digit: "d < 10 \<Longrightarrow> show_nat d = [char_of (48 + d)]"
  by (simp add: show_nat.simps)

lemma show_nat_snoc: "\<lbrakk>0 < v; d < 10\<rbrakk> \<Longrightarrow> show_nat (v * 10 + d) = show_nat v @ [char_of (48 + d)]"
  by (subst show_nat.simps) simp

lemma digit_of_char: "d < 10 \<Longrightarrow> digit_of (char_of (48 + d)) = Some d"
  by (simp add: digit_of_Some)

lemma digit_of_dot [simp]: "digit_of (CHR ''.'') = None"
  by code_simp

text \<open>Reading a number gives its value.\<close>

lemma parse_number:
  "n \<le> 255 \<Longrightarrow> parseIPv4Fields (show_nat n @ r) 0 0 edge fields =
     parseIPv4Fields r n (length (show_nat n)) False fields"
proof (induction n arbitrary: r rule: show_nat.induct)
  case (1 n)
  show ?case
  proof (cases "n < 10")
    case True
    with 1 show ?thesis by (simp add: show_nat_digit digit_of_char)
  next
    case False
    let ?c = "char_of (48 + n mod 10) :: char"
    have split: "show_nat n = show_nat (n div 10) @ [?c]" using False by (subst show_nat.simps) simp
    have "parseIPv4Fields (show_nat n @ r) 0 0 edge fields =
        parseIPv4Fields (?c # r) (n div 10) (length (show_nat (n div 10))) False fields"
      using "1.IH" [OF False, of "?c # r"] "1.prems" by (simp add: split)
    also have "\<dots> = parseIPv4Fields r n (length (show_nat n)) False fields"
      using False "1.prems" by (auto simp: digit_of_char split)
    finally show ?thesis .
  qed
qed

lemma parse_dot:
  "\<lbrakk>r \<noteq> []; length fields < 3\<rbrakk> \<Longrightarrow>
     parseIPv4Fields (CHR ''.'' # r) v k False fields = parseIPv4Fields r 0 0 True (fields @ [v])"
  by simp

lemma parse_joined:
  assumes "a \<le> 255" "b \<le> 255" "c \<le> 255" "d \<le> 255"
  shows "parseIPv4 (join_dots [a, b, c, d]) = Some [a, b, c, d]"
  unfolding parseIPv4_def
  using assms parse_number [of d "[]"] by (simp add: parse_number parse_dot)

text \<open>And what is read is the text of the result.\<close>

definition dots_before :: "nat list \<Rightarrow> string" where
  "dots_before fields = concat (map (\<lambda>n. show_nat n @ ''.'') fields)"

lemma join_dots_last: "join_dots (fields @ [n]) = dots_before fields @ show_nat n"
  by (induction fields rule: join_dots.induct) (simp_all add: dots_before_def)

definition text_read :: "nat list \<Rightarrow> nat \<Rightarrow> nat \<Rightarrow> string" where
  "text_read fields v digLen = dots_before fields @ (if digLen = 0 then [] else show_nat v)"

lemma parse_text:
  assumes "parseIPv4Fields s v digLen edge fields = Some out"
    and "digLen = 0 \<Longrightarrow> v = 0 \<and> edge \<and> (s \<noteq> [] \<or> length fields < 3)" and "digLen \<noteq> 0 \<Longrightarrow> \<not> edge"
    and "v = 0 \<Longrightarrow> digLen \<le> 1" and "v \<le> 255" and "length fields \<le> 3" and "\<forall>n \<in> set fields. n \<le> 255"
  shows "text_read fields v digLen @ s = join_dots out \<and> length out = 4 \<and> (\<forall>n \<in> set out. n \<le> 255)"
  using assms
proof (induction s v digLen edge fields rule: parseIPv4Fields.induct)
  case (1 v digLen edge fields)
  then show ?case by (auto simp: text_read_def join_dots_last split: if_splits)
next
  case (2 c s v digLen edge fields)
  show ?case
  proof (cases "digit_of c")
    case (Some d)
    then have c: "c = char_of (48 + d)" "d < 10" by (simp_all add: digit_of_Some)
    have ok: "\<not> (digLen = 1 \<and> v = 0)" "v * 10 + d \<le> 255"
      using "2.prems"(1) Some by (auto split: if_splits)
    have "text_read fields (v * 10 + d) (digLen + 1) @ s = join_dots out \<and> length out = 4 \<and> (\<forall>n \<in> set out. n \<le> 255)"
    proof (rule "2.IH"(2) [OF Some ok(1)])
      show "v * 10 + d = 0 \<Longrightarrow> digLen + 1 \<le> 1" using "2.prems"(4) ok(1) by (cases "v = 0") auto
    qed (use "2.prems" Some ok in auto)
    moreover have "text_read fields (v * 10 + d) (digLen + 1) = text_read fields v digLen @ [c]"
      using "2.prems"(2,4) ok(1) c by (cases "digLen = 0"; cases "v = 0")
        (auto simp: text_read_def show_nat_digit show_nat_snoc)
    ultimately show ?thesis by simp
  next
    case None
    then have dot: "c = CHR ''.''" "\<not> edge" "s \<noteq> []" "length fields \<noteq> 3"
      using "2.prems"(1) by (auto split: if_splits)
    have "text_read (fields @ [v]) 0 0 @ s = join_dots out \<and> length out = 4 \<and> (\<forall>n \<in> set out. n \<le> 255)"
      using "2.IH"(1) [OF None dot(1)] "2.prems" None dot by auto
    moreover have "digLen \<noteq> 0" using dot(2) "2.prems"(2) by blast
    ultimately show ?thesis by (simp add: text_read_def dots_before_def dot(1))
  qed
qed

lemma byte_le: "(n :: nat) < 256 \<longleftrightarrow> n \<le> 255"
  by auto

lemma parseIPv4_exact:
  "parseIPv4 s = Some out \<longleftrightarrow> s = join_dots out \<and> length out = 4 \<and> (\<forall>n \<in> set out. n < 256)"
  unfolding byte_le
proof
  assume "parseIPv4 s = Some out"
  then show "s = join_dots out \<and> length out = 4 \<and> (\<forall>n \<in> set out. n \<le> 255)"
    unfolding parseIPv4_def using parse_text [of s 0 0 True "[]" out]
    by (simp add: text_read_def dots_before_def)
next
  assume *: "s = join_dots out \<and> length out = 4 \<and> (\<forall>n \<in> set out. n \<le> 255)"
  then obtain a b c d where "out = [a, b, c, d]"
    by (auto simp: numeral_eq_Suc length_Suc_conv)
  with * show "parseIPv4 s = Some out" using parse_joined [of a b c d] by simp
qed

section \<open>The bytes of an address\<close>

lemma hex_group_value: "\<lbrakk>hex_group s off acc = Some (n, v, r); acc \<le> 65535\<rbrakk> \<Longrightarrow> v \<le> 65535"
  by (induction s arbitrary: off acc) (auto split: option.splits if_splits)

lemma ipv4_fields_bytes:
  "parseIPv4Fields s 0 0 True [] = Some v4 \<Longrightarrow> length v4 = 4 \<and> (\<forall>n \<in> set v4. n < 256)"
  using parseIPv4_exact [of s v4] by (simp add: parseIPv4_def)

definition loop_inv :: "nat list \<Rightarrow> nat option \<Rightarrow> bool" where
  "loop_inv ip e \<longleftrightarrow>
     length ip \<le> 16 \<and> (\<forall>n \<in> set ip. n < 256) \<and> (case e of None \<Rightarrow> True | Some k \<Rightarrow> k \<le> length ip)"

lemma loop_inv_group:
  assumes "loop_inv ip e" "even (length ip)" "length ip < 16" "acc \<le> 65535"
  shows "loop_inv (ip @ [acc div 256, acc mod 256]) e"
    and "loop_inv (ip @ [acc div 256, acc mod 256]) (Some (length ip + 2))"
  using assms by (auto simp: loop_inv_def split: option.splits)

lemma loop_inv_v4:
  "\<lbrakk>loop_inv ip e; length ip + 4 \<le> 16; length v4 = 4; \<forall>n \<in> set v4. n < 256\<rbrakk> \<Longrightarrow> loop_inv (ip @ v4) e"
  by (auto simp: loop_inv_def split: option.splits)

text \<open>What a turn of the loop that does not fail does.\<close>

lemma ipv6_loop_turn:
  assumes "ipv6_loop s ip e = Some (ip', e', r)" and "length ip < 16"
  obtains
    (dotted) v4 where "parseIPv4Fields s 0 0 True [] = Some v4" "length ip + 4 \<le> 16" "ip' = ip @ v4" "e' = e"
  | (final) acc where "acc \<le> 65535" "ip' = ip @ [acc div 256, acc mod 256]" "e' = e \<or> e' = Some (length ip + 2)"
  | (again) acc t f where "acc \<le> 65535" "f = e \<or> f = Some (length ip + 2)"
      "ipv6_loop t (ip @ [acc div 256, acc mod 256]) f = Some (ip', e', r)"
proof -
  note loop = assms(1) [unfolded ipv6_loop.simps [of s ip e] Let_def]
  obtain off acc t where g: "hex_group s 0 0 = Some (off, acc, t)"
    using loop assms(2) by (cases "hex_group s 0 0") auto
  have acc: "acc \<le> 65535" using hex_group_value [OF g] by simp
  show ?thesis
  proof (cases "t \<noteq> [] \<and> hd t = CHR ''.''")
    case True
    with loop assms(2) g show ?thesis
      by (cases "parseIPv4Fields s 0 0 True []") (auto split: if_splits intro: dotted)
  next
    case False
    with loop assms(2) g acc show ?thesis
      by (auto split: if_splits intro: final [OF acc] again [OF acc])
  qed
qed

lemma ipv6_loop_bytes:
  "\<lbrakk>ipv6_loop s ip e = Some (ip', e', r); loop_inv ip e; even (length ip)\<rbrakk> \<Longrightarrow> loop_inv ip' e'"
proof (induction "16 - length ip" arbitrary: s ip e rule: less_induct)
  case less
  show ?case
  proof (cases "length ip < 16")
    case True
    from less.prems(1) True show ?thesis
    proof (cases rule: ipv6_loop_turn)
      case (dotted v4)
      with less.prems(2) loop_inv_v4 ipv4_fields_bytes show ?thesis by blast
    next
      case (final acc)
      with loop_inv_group [OF less.prems(2,3) True] show ?thesis by auto
    next
      case (again acc t f)
      with loop_inv_group [OF less.prems(2,3) True, of acc] True less.prems(3)
      show ?thesis by (intro less.hyps [OF _ again(3)]) auto
    qed
  next
    case False
    with less.prems show ?thesis by (simp add: ipv6_loop.simps [of s ip e])
  qed
qed

lemma ipv6_finish_bytes:
  assumes "ipv6_finish (ipv6_loop t [] e) = Some bs" "e = None \<or> e = Some 0"
  shows "length bs = 16 \<and> (\<forall>n \<in> set bs. n < 256)"
proof -
  obtain ip e' r where l: "ipv6_loop t [] e = Some (ip, e', r)"
    using assms(1) by (cases "ipv6_loop t [] e") (auto simp: ipv6_finish_def)
  have "loop_inv [] e" using assms(2) by (auto simp: loop_inv_def)
  then have b: "loop_inv ip e'" using ipv6_loop_bytes [OF l] by simp
  have "set (take k ip) \<subseteq> set ip" "set (drop k ip) \<subseteq> set ip" for k
    by (simp_all add: set_take_subset set_drop_subset)
  with assms(1) l b show ?thesis
    by (fastforce simp: ipv6_finish_def expand_ellipsis_def loop_inv_def split: if_splits option.splits)
qed

lemma parseIPv6_bytes: "parseIPv6 s = Some bs \<Longrightarrow> length bs = 16 \<and> (\<forall>n \<in> set bs. n < 256)"
  by (auto simp: parseIPv6_def dest: ipv6_finish_bytes split: if_splits)

lemma parse_bytes: "ParseIP s = Some bs \<Longrightarrow> length bs = 16 \<and> (\<forall>n \<in> set bs. n < 256)"
  by (auto simp: ParseIP_def v4_mapped_def parseIPv4_exact dest: parseIPv6_bytes
      split: option.splits if_splits)

lemma show_nat_digits: "c \<in> set (show_nat n) \<Longrightarrow> \<exists>d < 10. c = char_of (48 + d :: nat)"
proof (induction n rule: show_nat.induct)
  case (1 n)
  show ?case
  proof (cases "n < 10")
    case True
    with "1.prems" show ?thesis by (auto simp: show_nat_digit)
  next
    case False
    moreover have "n mod 10 < 10" by simp
    ultimately show ?thesis using "1.prems" "1.IH" by (subst (asm) show_nat.simps) (auto simp del: mod_less_divisor)
  qed
qed

lemma show_nat_no_mark:
  "c \<in> set (show_nat n) \<Longrightarrow> c \<noteq> CHR ''.'' \<and> c \<noteq> CHR '':'' \<and> c \<noteq> CHR ''%''"
proof -
  assume "c \<in> set (show_nat n)"
  then obtain d :: nat where "d < 10" "c = char_of (48 + d)" using show_nat_digits by blast
  then have "digit_of c = Some d" by (simp add: digit_of_char)
  then show ?thesis by (auto simp: digit_of_def)
qed

lemma find_after: "\<lbrakk>\<And>x. x \<in> set xs \<Longrightarrow> \<not> P x; P y\<rbrakk> \<Longrightarrow> find P (xs @ y # ys) = Some y"
  by (induction xs) auto

lemma join_dots_find:
  assumes "length out = 4"
  shows "find (\<lambda>c. c = CHR ''.'' \<or> c = CHR '':'' \<or> c = CHR ''%'') (join_dots out) = Some (CHR ''.'')"
proof -
  obtain a b c d where out: "out = [a, b, c, d]" using assms by (auto simp: numeral_eq_Suc length_Suc_conv)
  show ?thesis unfolding out using show_nat_no_mark [of _ a] by (auto intro!: find_after)
qed

lemma parse_v4:
  assumes "CHR '':'' \<notin> set s"
  shows "ParseIP s = Some bs \<longleftrightarrow>
    (\<exists>v4. length v4 = 4 \<and> (\<forall>n \<in> set v4. n < 256) \<and> s = join_dots v4 \<and> bs = v4_mapped v4)"
proof -
  have "ParseIP s = map_option v4_mapped (parseIPv4 s)"
  proof (cases "parseIPv4 s")
    case (Some v4)
    then show ?thesis using parseIPv4_exact [of s v4] join_dots_find [of v4] by (simp add: ParseIP_def)
  next
    case None
    have "find (\<lambda>c. c = CHR ''.'' \<or> c = CHR '':'' \<or> c = CHR ''%'') s \<noteq> Some (CHR '':'')"
      using assms by (auto simp: find_Some_iff in_set_conv_nth)
    moreover have "c = CHR ''.'' \<or> c = CHR '':'' \<or> c = CHR ''%''"
      if "find (\<lambda>c. c = CHR ''.'' \<or> c = CHR '':'' \<or> c = CHR ''%'') s = Some c" for c
      using that by (auto simp: find_Some_iff)
    ultimately show ?thesis using None
      by (cases "find (\<lambda>c. c = CHR ''.'' \<or> c = CHR '':'' \<or> c = CHR ''%'') s") (force simp: ParseIP_def)+
  qed
  then show ?thesis by (auto simp: parseIPv4_exact)
qed



end
