(* ===== verification/Throughput.thy ===== *)
theory Throughput
  imports Prelude
begin

text \<open>
  The throughput benchmark (\<^verbatim>\<open>benchmark/tcp_benchmark.go\<close>) and the echo server of
  \<^verbatim>\<open>scripts/http-backend.go\<close>: the clients with their four shared counters, the figures computed from
  them, and the two loops that answer what they read.

  Each client is given by what happens to it: whether it connects, and how each of its turns until
  the stop signal ends. Its goroutine is then a sequence of atomic additions, and the goroutines are
  interleaved addition by addition. The counters are 64-bit words.
\<close>

section \<open>The clients\<close>

datatype counter = TotalRequests | TotalBytes | TotalErrors | TotalLatency

datatype client_turn = WriteFailed | ReadFailed | Replied duration

fun turn_adds :: "nat \<Rightarrow> client_turn \<Rightarrow> (counter \<times> 64 word) list" where
  "turn_adds messageSize WriteFailed = [(TotalErrors, 1)]"
| "turn_adds messageSize ReadFailed = [(TotalErrors, 1)]"
| "turn_adds messageSize (Replied latency) =
     [(TotalRequests, 1), (TotalBytes, of_nat (messageSize * 2)), (TotalLatency, of_int (go_quot latency 1000))]"

text \<open>A client that cannot connect counts an error and ends.\<close>

definition client_adds :: "nat \<Rightarrow> client_turn list option \<Rightarrow> (counter \<times> 64 word) list" where
  "client_adds messageSize client =
     (case client of
        None \<Rightarrow> [(TotalErrors, 1)]
      | Some turns \<Rightarrow> concat (map (turn_adds messageSize) turns))"

type_synonym bench_state = "(counter \<Rightarrow> 64 word) \<times> (counter \<times> 64 word) list list"

definition bench_start :: "nat \<Rightarrow> client_turn list option list \<Rightarrow> bench_state" where
  "bench_start messageSize clients = ((\<lambda>_. 0), map (client_adds messageSize) clients)"

inductive bench_step :: "bench_state \<Rightarrow> bench_state \<Rightarrow> bool" where
  add: "\<lbrakk>i < length ps; ps ! i = (k, v) # rest\<rbrakk> \<Longrightarrow> bench_step (c, ps) (c(k := c k + v), ps[i := rest])"

inductive_cases bench_stepE: "bench_step s s'"

inductive bench_reach :: "bench_state \<Rightarrow> bench_state \<Rightarrow> bool" for s0 where
  init: "bench_reach s0 s0"
| more: "\<lbrakk>bench_reach s0 s; bench_step s s'\<rbrakk> \<Longrightarrow> bench_reach s0 s'"

text \<open>After \<^verbatim>\<open>wg.Wait\<close> no addition is left.\<close>

definition bench_done :: "bench_state \<Rightarrow> bool" where
  "bench_done s \<longleftrightarrow> (\<forall>p \<in> set (snd s). p = [])"

section \<open>The figures\<close>

text \<open>A quotient of floats that is infinite or not a number is \<open>None\<close>.\<close>

definition fdiv :: "real \<Rightarrow> real \<Rightarrow> real option" where
  "fdiv x y = (if y = 0 then None else Some (x / y))"

record benchmark_results =
  br_TotalRequests :: nat
  br_TotalBytes :: nat
  br_TotalErrors :: nat
  br_Duration :: duration
  br_RequestsPerSec :: "real option"
  br_BytesPerSec :: "real option"
  br_MegabitsPerSec :: "real option"
  br_AvgLatencyMs :: real
  br_ErrorRate :: "real option"

definition bench_results :: "duration \<Rightarrow> (counter \<Rightarrow> 64 word) \<Rightarrow> benchmark_results" where
  "bench_results elapsed c =
     (let requests = c TotalRequests; bytes = c TotalBytes; errors = c TotalErrors; latency = c TotalLatency;
          seconds = real_of_int elapsed / 1000000000
      in \<lparr>br_TotalRequests = unat requests, br_TotalBytes = unat bytes, br_TotalErrors = unat errors,
          br_Duration = elapsed,
          br_RequestsPerSec = fdiv (real (unat requests)) seconds,
          br_BytesPerSec = fdiv (real (unat bytes)) seconds,
          br_MegabitsPerSec = fdiv (real (unat bytes) * 8) (seconds * 1024 * 1024),
          br_AvgLatencyMs =
            (if requests > 0 then real (unat latency) / real (unat requests) / 1000 else 0),
          br_ErrorRate = map_option (\<lambda>q. q * 100) (fdiv (real (unat errors)) (real (unat (requests + errors))))\<rparr>)"

section \<open>The echo servers\<close>

text \<open>
  \<^verbatim>\<open>handleBackend\<close>: what each read gives, and of each write whether it succeeds. The result is what was
  written; \<open>None\<close> is a loop still waiting.
\<close>

datatype conn_read = ReadData string | ReadEOF | ReadError

fun handleBackend :: "(conn_read \<times> bool) list \<Rightarrow> string option" where
  "handleBackend [] = None"
| "handleBackend ((ReadEOF, _) # io) = Some []"
| "handleBackend ((ReadError, _) # io) = Some []"
| "handleBackend ((ReadData d, ok) # io) = (if ok then map_option (\<lambda>w. d @ w) (handleBackend io) else Some [])"

text \<open>
  The WebSocket echo: a welcome, then an answer to each message. The script has for each message
  whether it could be received, and whether the answer could be sent.
\<close>

fun echo_loop :: "string \<Rightarrow> (string option \<times> bool) list \<Rightarrow> string list option" where
  "echo_loop name [] = None"
| "echo_loop name ((None, _) # io) = Some []"
| "echo_loop name ((Some msg, ok) # io) =
     (if ok then map_option (\<lambda>w. (''['' @ name @ ''] Echo: '' @ msg) # w) (echo_loop name io) else Some [])"

definition echo_handleWebSocket :: "string \<Rightarrow> bool \<Rightarrow> (string option \<times> bool) list \<Rightarrow> string list option" where
  "echo_handleWebSocket name welcomed io =
     (if welcomed then map_option (\<lambda>w. (''Welcome to '' @ name @ '' WebSocket server!'') # w) (echo_loop name io)
      else Some [])"

section \<open>Facts\<close>

definition pending :: "counter \<Rightarrow> (counter \<times> 64 word) list \<Rightarrow> 64 word" where
  "pending k adds = sum_list (map snd (filter (\<lambda>a. fst a = k) adds))"

lemma pending_simps [simp]:
  "pending k [] = 0"
  "pending k (a # as) = (if fst a = k then snd a else 0) + pending k as"
  "pending k (as @ bs) = pending k as + pending k bs"
  by (simp_all add: pending_def)

definition outstanding :: "counter \<Rightarrow> (counter \<times> 64 word) list list \<Rightarrow> 64 word" where
  "outstanding k ps = sum_list (map (pending k) ps)"

text \<open>An addition moves its amount from what is outstanding into the counter.\<close>

lemma outstanding_update:
  "\<lbrakk>i < length ps; ps ! i = (l, v) # rest\<rbrakk> \<Longrightarrow>
     outstanding k ps = (if l = k then v else 0) + outstanding k (ps[i := rest])"
proof (induction ps arbitrary: i)
  case (Cons p ps)
  then show ?case by (cases i) (auto simp: outstanding_def algebra_simps)
qed simp

lemma bench_step_conserves:
  "bench_step s s' \<Longrightarrow> fst s' k + outstanding k (snd s') = fst s k + outstanding k (snd s)"
  by (elim bench_stepE) (simp add: outstanding_update)

lemma bench_reach_conserves:
  "bench_reach s0 s \<Longrightarrow> fst s k + outstanding k (snd s) = fst s0 k + outstanding k (snd s0)"
  by (induction rule: bench_reach.induct) (simp_all add: bench_step_conserves)

lemma outstanding_done: "bench_done s \<Longrightarrow> outstanding k (snd s) = 0"
  unfolding bench_done_def outstanding_def by (induction "snd s" arbitrary: s) (force simp: pending_def)+

text \<open>The turns of all clients, and what they amount to.\<close>

definition all_turns :: "client_turn list option list \<Rightarrow> client_turn list" where
  "all_turns clients = concat (map (case_option [] id) clients)"

fun is_reply :: "client_turn \<Rightarrow> bool" where
  "is_reply (Replied _) = True"
| "is_reply _ = False"

fun turn_latency :: "client_turn \<Rightarrow> int" where
  "turn_latency (Replied d) = go_quot d 1000"
| "turn_latency _ = 0"

definition replies :: "client_turn list option list \<Rightarrow> nat" where
  "replies clients = length (filter is_reply (all_turns clients))"

definition failures :: "client_turn list option list \<Rightarrow> nat" where
  "failures clients =
     length (filter (\<lambda>t. \<not> is_reply t) (all_turns clients)) + length (filter (\<lambda>c. c = None) clients)"

lemma pending_turns:
  "pending TotalRequests (concat (map (turn_adds n) ts)) = of_nat (length (filter is_reply ts))"
  "pending TotalBytes (concat (map (turn_adds n) ts)) = of_nat (n * 2 * length (filter is_reply ts))"
  "pending TotalErrors (concat (map (turn_adds n) ts)) = of_nat (length (filter (\<lambda>t. \<not> is_reply t) ts))"
  "pending TotalLatency (concat (map (turn_adds n) ts)) = of_int (sum_list (map turn_latency ts))"
proof (induction ts)
  case (Cons t ts)
  case 1 from Cons(1) show ?case by (cases t) simp_all
  case 2 from Cons(2) show ?case by (cases t) (simp_all add: algebra_simps)
  case 3 from Cons(3) show ?case by (cases t) simp_all
  case 4 from Cons(4) show ?case by (cases t) simp_all
qed simp_all

lemma outstanding_start:
  "outstanding TotalRequests (map (client_adds n) clients) = of_nat (replies clients)"
  "outstanding TotalBytes (map (client_adds n) clients) = of_nat (n * 2 * replies clients)"
  "outstanding TotalErrors (map (client_adds n) clients) = of_nat (failures clients)"
  "outstanding TotalLatency (map (client_adds n) clients) = of_int (sum_list (map turn_latency (all_turns clients)))"
  by (induction clients; simp add: outstanding_def client_adds_def replies_def failures_def all_turns_def
      pending_turns algebra_simps split: option.split)+

lemma bench_totals:
  assumes "bench_reach (bench_start n clients) (c, ps)" and "bench_done (c, ps)"
  shows "c TotalRequests = of_nat (replies clients)" and "c TotalBytes = of_nat (n * 2 * replies clients)"
    and "c TotalErrors = of_nat (failures clients)"
    and "c TotalLatency = of_int (sum_list (map turn_latency (all_turns clients)))"
  using bench_reach_conserves [OF assms(1)] outstanding_done [OF assms(2)]
  by (simp_all add: bench_start_def outstanding_start)

text \<open>Every schedule ends, and only at the end can it not go on.\<close>

definition work_left :: "bench_state \<Rightarrow> nat" where
  "work_left s = sum_list (map length (snd s))"

lemma bench_step_works: "bench_step s s' \<Longrightarrow> work_left s = Suc (work_left s')"
proof (elim bench_stepE)
  fix i ps k v rest c
  assume s: "s = (c, ps)" "s' = (c(k := c k + v), ps[i := rest])" and i: "i < length ps" "ps ! i = (k, v) # rest"
  have "sum_list (map length ps) = Suc (sum_list (map length (ps[i := rest])))"
    using i by (induction ps arbitrary: i) (auto split: nat.splits)
  with s show ?thesis by (simp add: work_left_def)
qed

lemma bench_step_enabled: "\<not> bench_done s \<Longrightarrow> \<exists>s'. bench_step s s'"
proof -
  assume "\<not> bench_done s"
  then obtain p where "p \<in> set (snd s)" "p \<noteq> []" by (auto simp: bench_done_def)
  then obtain i k v rest where "i < length (snd s)" "snd s ! i = (k, v) # rest"
    by (metis in_set_conv_nth list.exhaust surj_pair)
  then show ?thesis using bench_step.add [of i "snd s" k v rest "fst s"] by auto
qed

lemma bench_ends: "\<exists>s'. bench_reach s s' \<and> bench_done s'"
proof (induction "work_left s" arbitrary: s rule: less_induct)
  case less
  show ?case
  proof (cases "bench_done s")
    case False
    then obtain s1 where "bench_step s s1" using bench_step_enabled by blast
    moreover obtain s2 where "bench_reach s1 s2" "bench_done s2"
      using less [of s1] bench_step_works [OF \<open>bench_step s s1\<close>] by auto
    moreover have "bench_reach s s2" if "bench_reach s1 s2"
      using that by induction (auto intro: bench_reach.intros \<open>bench_step s s1\<close>)
    ultimately show ?thesis by blast
  next
    case True
    then show ?thesis using bench_reach.init by blast
  qed
qed

lemma unat_count: "m < 2 ^ 64 \<Longrightarrow> unat (of_nat m :: 64 word) = m"
  by (simp add: unat_of_nat take_bit_nat_eq_self)

lemma unat_amount: "\<lbrakk>0 \<le> x; x < 2 ^ 64\<rbrakk> \<Longrightarrow> unat (of_int x :: 64 word) = nat x"
  using unat_count [of "nat x"] by simp

section \<open>Properties\<close>

text \<open>
  The benchmark counts every turn once. In every interleaving of its clients the counters
  are exact when all clients have ended: the requests are the replies, the
  bytes two messages for each, the errors the failed turns and the clients that did not connect. The
  reported average and error rate are those of the run as long as the counters do not wrap, and the
  error rate is not a number if nothing was sent at all.
\<close>

theorem benchmark_totals_exact:
  assumes "bench_reach (bench_start n clients) (c, ps)" and "bench_done (c, ps)"
    and "replies clients + failures clients < 2 ^ 64" and "n * 2 * replies clients < 2 ^ 64"
    and "0 \<le> sum_list (map turn_latency (all_turns clients))" and "sum_list (map turn_latency (all_turns clients)) < 2 ^ 64"
  shows "let r = bench_results elapsed c in
    br_TotalRequests r = replies clients \<and> br_TotalBytes r = n * 2 * replies clients \<and>
    br_TotalErrors r = failures clients \<and>
    (0 < replies clients \<longrightarrow>
       br_AvgLatencyMs r = real_of_int (sum_list (map turn_latency (all_turns clients))) / real (replies clients) / 1000) \<and>
    br_ErrorRate r = (if replies clients + failures clients = 0 then None
      else Some (real (failures clients) / real (replies clients + failures clients) * 100))"
proof -
  let ?l = "sum_list (map turn_latency (all_turns clients))"
  note c = bench_totals [OF assms(1,2)]
  have u: "unat (c TotalRequests) = replies clients" "unat (c TotalErrors) = failures clients"
    "unat (c TotalBytes) = n * 2 * replies clients"
    "unat (c TotalRequests + c TotalErrors) = replies clients + failures clients"
    using assms(3,4) by (simp_all only: c unat_count flip: of_nat_add)
  have l: "unat (c TotalLatency) = nat ?l"
    using assms(5,6) by (simp only: c unat_amount)
  have pos: "c TotalRequests > 0 \<longleftrightarrow> 0 < replies clients"
    using u(1) by (metis gr0I unat_0 unat_gt_0 word_gt_0)
  show ?thesis using u l pos assms(5) by (simp add: bench_results_def Let_def fdiv_def del: of_nat_unat)
qed

theorem benchmark_totals_exact_witness:
  "\<exists>c ps. bench_reach (bench_start 1024 [None, Some [Replied 5000, ReadFailed]]) (c, ps) \<and> bench_done (c, ps) \<and>
     br_ErrorRate (bench_results 30 c) = Some (2 / 3 * 100) \<and> br_TotalBytes (bench_results 30 c) = 2048"
proof -
  let ?cs = "[None, Some [Replied 5000, ReadFailed]]"
  obtain c ps where r: "bench_reach (bench_start 1024 ?cs) (c, ps)" "bench_done (c, ps)"
    using bench_ends [of "bench_start 1024 ?cs"] by auto
  have "replies ?cs = 1" "failures ?cs = 2" "sum_list (map turn_latency (all_turns ?cs)) = 5"
    by (simp_all add: replies_def failures_def all_turns_def)
  with benchmark_totals_exact [OF r, of 30] r show ?thesis by (auto simp: Let_def)
qed

text \<open>
  The echo servers answer what they read: the TCP one writes back the bytes it read, in order, until
  the end of the stream, so a client that sent \<open>n\<close> bytes gets \<open>n\<close> bytes back; the WebSocket one sends
  its welcome and then one answer per message. A write that fails ends the connection.
\<close>

theorem echo_servers_answer:
  "handleBackend (map (\<lambda>d. (ReadData d, True)) ds @ [(ReadEOF, ok)]) = Some (concat ds) \<and>
   handleBackend (map (\<lambda>d. (ReadData d, True)) ds @ (ReadData d, False) # io) = Some (concat ds) \<and>
   echo_handleWebSocket name True (map (\<lambda>m. (Some m, True)) ms @ [(None, ok)]) =
     Some ((''Welcome to '' @ name @ '' WebSocket server!'') # map (\<lambda>m. ''['' @ name @ ''] Echo: '' @ m) ms)"
proof -
  have "handleBackend (map (\<lambda>d. (ReadData d, True)) ds @ [(ReadEOF, ok)]) = Some (concat ds)"
    "handleBackend (map (\<lambda>d. (ReadData d, True)) ds @ (ReadData d, False) # io) = Some (concat ds)"
    by (induction ds) simp_all
  moreover have "echo_loop name (map (\<lambda>m. (Some m, True)) ms @ [(None, ok)]) = Some (map (\<lambda>m. ''['' @ name @ ''] Echo: '' @ m) ms)"
    by (induction ms) simp_all
  ultimately show ?thesis by (simp add: echo_handleWebSocket_def)
qed

end
