(* ===== verification/Spec2Isabelle.thy ===== *)
theory Spec2Isabelle
  imports Affinity Health CircuitBreaker Timeouts Protection Transform Proxy Sni Tls BufferPool ConnPool GoroutinePool
    Interner Xds Zerocopy Lifecycle Profiling Latency Routing HttpLife Relay Telemetry SelfSigned IpAddress Throughput
begin

text \<open>
  \<^bold>\<open>A layer 4 and layer 7 load balancer, verified.\<close>

  The program is a proxy in Go. \<^verbatim>\<open>cmd/balance/main.go\<close> loads a configuration, builds a TCP or an HTTP
  server and runs it until a signal arrives. A server owns a pool of backends and a balancing
  algorithm; for each connection or request it selects a backend, counts the connection on it, copies
  the data, and marks the backend unhealthy when it cannot be reached. Beside the servers stand
  health checking, circuit breaking, retries and timeouts, rate limiting and connection protection,
  TLS, pools of buffers, connections and goroutines, a control plane, and logging, metrics and an
  admin server.

  \<^bold>\<open>Theories and sources.\<close> Each theory models the files named, one definition per type and function,
  under the name the code uses (\<open>Type_Method\<close> where the bare name is taken).

  \<^item> \<open>Prelude\<close>: time, Go's integer division, the functions of \<^verbatim>\<open>strings\<close> and \<^verbatim>\<open>net\<close> in use, Go maps as
    association lists, run-time panics, and the locale \<open>event_component\<close> (an invariant that every call
    keeps holds after any sequence of calls).
  \<^item> \<open>Backends\<close> (\<^verbatim>\<open>pkg/backend/backend.go\<close>, \<^verbatim>\<open>pool.go\<close>): backends in a store addressed by reference, the
    pool as an ordered list; the pool refines a finite map (locale \<open>name_map\<close>).
  \<^item> \<open>LoadBalancing\<close> (\<^verbatim>\<open>pkg/lb/roundrobin.go\<close>, \<^verbatim>\<open>leastconn.go\<close>, \<^verbatim>\<open>weighted.go\<close>, \<^verbatim>\<open>interface.go\<close>): the contract of a
    balancer as the locale \<open>load_balancer\<close>, interpreted by each algorithm; fairness, shares and
    minimality, with the counters at their width.
  \<^item> \<open>ConsistentHashing\<close> (\<^verbatim>\<open>consistent.go\<close>) and \<open>Affinity\<close> (\<^verbatim>\<open>affinity.go\<close>): the ring, its search, bounded loads,
    sessions; the ring successor, stability under removal, the load bound, stickiness.
  \<^item> \<open>StateMachine\<close> (\<^verbatim>\<open>pkg/backend/state.go\<close>) and \<open>Health\<close> (\<^verbatim>\<open>pkg/health\<close>): states, thresholds, active and
    passive checks; the checker refines a fold over the results of each backend.
  \<^item> \<open>CircuitBreaker\<close>, \<open>Retry\<close>, \<open>Timeouts\<close> (\<^verbatim>\<open>pkg/resilience\<close>): the breaker under interleaved requests, the
    retry loop as a partial function with its termination, the retry budget, deadlines.
  \<^item> \<open>RateLimit\<close>, \<open>Protection\<close> (\<^verbatim>\<open>pkg/security\<close>): token bucket and sliding window behind the locale
    \<open>rate_limiter\<close>, the connection guard, the block list, the order of the checks. \<open>IpAddress\<close> has the address parser of the
    standard library behind \<^verbatim>\<open>ValidateIP\<close>, with its IPv4 part shown exact.
  \<^item> \<open>Config\<close>, \<open>Http\<close>, \<open>Router\<close>, \<open>Transform\<close>, \<open>Proxy\<close> (\<^verbatim>\<open>pkg/config\<close>, \<^verbatim>\<open>pkg/router\<close>, \<^verbatim>\<open>pkg/transform\<close>, \<^verbatim>\<open>pkg/proxy\<close>,
    \<^verbatim>\<open>cmd/balance\<close>): the configuration with defaults and validation, route matching, header and path
    transformations, and the two servers with their connections as interleaved arrivals and ends.
  \<^item> \<open>Lifecycle\<close> (\<^verbatim>\<open>pkg/proxy/server.go\<close>): the accept loop, the handlers and the stages of \<^verbatim>\<open>Shutdown\<close> as one
    interleaved system over \<open>Proxy\<close>; what the wait group counts, and that a shutdown drains.
  \<^item> \<open>HttpLife\<close> (\<^verbatim>\<open>pkg/proxy/http.go\<close>): the same for the HTTP server, with the connections hijacked for
    WebSocket, which its shutdown does not wait for.
  \<^item> \<open>Relay\<close> (\<^verbatim>\<open>server.go\<close>, \<^verbatim>\<open>http.go\<close>, \<^verbatim>\<open>zerocopy.go\<close>): the three two-way copies as interleaved goroutines, with what
    they share in the locale \<open>stream_relay\<close>, interpreted by each.
  \<^item> \<open>Routing\<close>: the composition of pool, balancers and servers. The locale \<open>safe_selector\<close> states what a server
    needs of its balancer after any history (no panic, a backend whenever one is healthy); it is
    interpreted by \<open>select_backend\<close> for all six algorithms, and the running server of \<open>Lifecycle\<close> refines the
    connection system of \<open>Proxy\<close>. The properties at the end of this theory rest on it.
  \<^item> \<open>Sni\<close>, \<open>Tls\<close> (\<^verbatim>\<open>pkg/tls\<close>): the parser of the client hello with every read checked, certificates, SNI
    routing, TLS settings, the terminator and its abandoned accepts. \<open>SelfSigned\<close>: generating a certificate,
    saving it and loading it again.
  \<^item> \<open>BufferPool\<close>, \<open>ConnPool\<close>, \<open>GoroutinePool\<close> (\<^verbatim>\<open>pkg/pool\<close>): slices with length and capacity, the power-of-two
    rounding on 64-bit words; connections in a store; goroutines with program counters that
    interleave at every atomic action.
  \<^item> \<open>Interner\<close> (\<^verbatim>\<open>pkg/optimize\<close>), \<open>Xds\<close> (\<^verbatim>\<open>pkg/xds\<close>, snapshots shared by reference, locale \<open>versioned_store\<close>),
    \<open>Zerocopy\<close> (\<^verbatim>\<open>pkg/proxy/zerocopy*.go\<close>, the kernel as a script of outcomes).
  \<^item> \<open>Logging\<close>, \<open>Observability\<close> (\<^verbatim>\<open>pkg/logging\<close>, \<^verbatim>\<open>pkg/metrics\<close>, \<^verbatim>\<open>pkg/tracing\<close>, \<^verbatim>\<open>pkg/admin\<close>): the logger, the
    middleware and the response writers it shares (locale \<open>status_recorder\<close>), the admin handlers. \<open>Telemetry\<close>: the registered metrics, every function
    that reports to them, and the tracer.
  \<^item> \<open>Profiling\<close> (\<^verbatim>\<open>pkg/profiling\<close>), \<open>Latency\<close> (\<^verbatim>\<open>benchmark/latency_benchmark.go\<close>): what the profiler takes and
    gives back; the bookkeeping of the benchmark and its percentiles. \<open>Throughput\<close> (\<^verbatim>\<open>benchmark/tcp_benchmark.go\<close>,
    \<^verbatim>\<open>scripts/http-backend.go\<close>): the clients of the other benchmark, and the echo servers.

  \<^bold>\<open>Conventions.\<close> A struct is a record whose fields carry a prefix; an object shared by pointer is a
  reference into a store that operations pass on. A method that holds its mutex throughout is atomic.
  Where the code interleaves, the parts between two synchronisation points are definitions of their
  own and an inductive predicate describes every interleaving (\<open>cb_reach\<close>, \<open>cg_reach\<close>, \<open>tcp_reach\<close>, \<open>http_reach\<close>,
  \<open>pool_reach\<close>, \<open>in_reach\<close>, \<open>xds_reach\<close>, \<open>sys_reach\<close>, \<open>metrics_reach\<close>, \<open>life_reach\<close>, \<open>term_reach\<close>,
  \<open>bench_reach\<close>) or a function runs any list of events (\<open>relay_run\<close>, \<open>http_run\<close>). Each reading of the clock is an argument, and so are random
  numbers, the order in which Go ranges over a map, and whatever the network, the file system, the
  kernel or a library answers. A panic is a value of type \<open>go_panic\<close>; an error is a value of the
  component's error type. Integers are words where wrap-around decides what happens and unbounded
  where they are statistics; \<^verbatim>\<open>float64\<close> is the reals, so rounding is not modelled; text is bytes.

  \<^bold>\<open>What is shown.\<close> The properties are the theorems whose text starts with their number. They say that
  components keep their invariants in every interleaving (connection counts, breaker accounting,
  guard, pools, metrics, relayed streams), that every connection and request the servers can see is routed
  and answered and that a shutdown comes to its end, that algorithms meet a specification (ring successor, fairness, shares,
  rate bounds, thresholds as windows over the results), that what is encoded is read back (client hello,
  log lines, saved certificates, the text of an address), that loops end (retries, splice) or when they do not, and which behaviours follow from
  the code although its comments promise others. Theorems without a number are of the same kind and
  are kept as part of the library.

  \<^bold>\<open>Fuel and bounds.\<close> No definition runs on fuel. Loops that may not end are partial functions into
  \<open>option\<close> (\<open>retry_loop\<close>, \<open>ConnectionPool_cleanup\<close>), and their theorems say when the result is \<open>Some\<close> and when it is
  \<open>None\<close>. Loops driven from outside (ticks, kernel outcomes, schedules) recurse over the list of what happens.

  \<^bold>\<open>Not modelled.\<close> Sockets, files, the TLS handshake, keys and signatures, JSON and YAML text, the
  Prometheus and OpenTelemetry libraries (their calls are recorded, not their effect), the Go
  runtime's profiles and memory statistics, the raw system calls, and the pages and flags of the benchmarks and of the
  test servers under \<^verbatim>\<open>scripts\<close>: they are I/O around libraries. Functions that only read a counter or a
  field out of a component, or collect several of them for display (\<^verbatim>\<open>Stats\<close>, \<^verbatim>\<open>GetState\<close>), and functions that only
  forward to another one have no definition of their own: the record's selectors and the function
  called stand for them. \<^verbatim>\<open>cmd/validate\<close> refers to fields the configuration does not have and does
  not compile, so there is no behaviour to model. Of \<^verbatim>\<open>net/http\<close> only headers, the fields of a request, the status rule of
  the response writer, the path joining of the reverse proxy and the documented behaviour of a server's
  shutdown are modelled.
\<close>

section \<open>Properties across components\<close>







end
